(* ===== verification/LA_Prelude.thy ===== *)
theory LA_Prelude
  imports Main "HOL-Library.Sublist"
begin

text \<open>
  The prelude of the development: Python exceptions as values, the result type every
  fallible operation of the model returns, and the collections of rewrite rules the
  component theories share.

  A Python exception is its class and a message tag. The class matters, because the code
  catches by class (\<open>except ValueError\<close>, \<open>except torch.OutOfMemoryError\<close> before
  \<open>except RuntimeError\<close>); the tag names the \<open>raise\<close> site, since the long f-string
  texts of the code carry no behaviour.
\<close>

section \<open>Exceptions and results\<close>

datatype exc_class =
    BaseException | Exception | ValueError | UnicodeDecodeError | JSONDecodeError
  | RuntimeError | OutOfMemoryError | OSError | ConnectionError | TimeoutError
  | EOFError | IncompleteReadError | StructError | SyntaxError | MemoryError
  | KeyError | IndexError | TypeError | ZeroDivisionError | ImportError | AssertionError
  | UnidentifiedImageError | DecompressionBombError | DecompressionBombWarning
  | TimeoutExpired | PyCMSError | SystemExit | CancelledError | AttributeError | OverflowError

text \<open>The direct superclass of a class, as Python and the libraries document it.\<close>

fun exc_super :: "exc_class \<Rightarrow> exc_class option" where
  "exc_super BaseException = None"
| "exc_super Exception = Some BaseException"
| "exc_super SystemExit = Some BaseException"
| "exc_super CancelledError = Some BaseException"
| "exc_super UnicodeDecodeError = Some ValueError"
| "exc_super JSONDecodeError = Some ValueError"
| "exc_super OutOfMemoryError = Some RuntimeError"
| "exc_super ConnectionError = Some OSError"
| "exc_super TimeoutError = Some OSError"
| "exc_super IncompleteReadError = Some EOFError"
| "exc_super UnidentifiedImageError = Some OSError"
| "exc_super _ = Some Exception"

text \<open>The hierarchy is at most four classes deep, so four steps upwards visit all of it.\<close>

fun exc_ups :: "nat \<Rightarrow> exc_class \<Rightarrow> exc_class list" where
  "exc_ups 0 c = [c]"
| "exc_ups (Suc n) c = c # (case exc_super c of None \<Rightarrow> [] | Some d \<Rightarrow> exc_ups n d)"

definition exc_isa :: "exc_class \<Rightarrow> exc_class \<Rightarrow> bool" where
  "exc_isa c d \<longleftrightarrow> d \<in> set (exc_ups 4 c)"

datatype py_exc = Exc (exc_cls: exc_class) (exc_msg: string)

type_synonym 'a res = "py_exc + 'a"

abbreviation raise :: "exc_class \<Rightarrow> string \<Rightarrow> 'a res" where
  "raise c m \<equiv> Inl (Exc c m)"

abbreviation ret :: "'a \<Rightarrow> 'a res" where
  "ret x \<equiv> Inr x"

text \<open>\<open>bindr\<close> runs a computation and, when it returned, the rest of the code with its value.\<close>

definition bindr :: "'a res \<Rightarrow> ('a \<Rightarrow> 'b res) \<Rightarrow> 'b res" where
  "bindr m k = (case m of Inl e \<Rightarrow> Inl e | Inr x \<Rightarrow> k x)"

text \<open>A list comprehension whose body may raise: the first exception ends it.\<close>

fun mapr :: "('a \<Rightarrow> 'b res) \<Rightarrow> 'a list \<Rightarrow> 'b list res" where
  "mapr f [] = ret []"
| "mapr f (x # xs) = bindr (f x) (\<lambda>y. bindr (mapr f xs) (\<lambda>ys. ret (y # ys)))"

text \<open>\<open>guardr b c m\<close> is the statement \<open>if b: raise c(m)\<close>.\<close>

definition guardr :: "bool \<Rightarrow> exc_class \<Rightarrow> string \<Rightarrow> unit res" where
  "guardr b c m = (if b then raise c m else ret ())"

text \<open>\<open>try: m / except (cs) as e: h(e)\<close>: the handler runs when the class of the exception is one of
  the listed classes or below one.\<close>

definition catchr :: "'a res \<Rightarrow> exc_class list \<Rightarrow> (py_exc \<Rightarrow> 'a res) \<Rightarrow> 'a res" where
  "catchr m cs h = (case m of
     Inl e \<Rightarrow> if \<exists>c \<in> set cs. exc_isa (exc_cls e) c then h e else Inl e
   | Inr x \<Rightarrow> Inr x)"

definition returns :: "'a res \<Rightarrow> bool" where
  "returns m \<longleftrightarrow> (case m of Inl _ \<Rightarrow> False | Inr _ \<Rightarrow> True)"

section \<open>Collections of rewrite rules\<close>

named_theorems res_simps \<open>computing with results\<close>
named_theorems re_simps \<open>one-step rules of the regular expression matcher\<close>
named_theorems fl_exact \<open>numbers a binary64 holds exactly\<close>
named_theorems fl_bounds \<open>bounds and monotonicity of rounded arithmetic\<close>

lemma bindr_Inl [simp, res_simps]: "bindr (Inl e) k = Inl e"
  by (simp add: bindr_def)

lemma bindr_Inr [simp, res_simps]: "bindr (Inr x) k = k x"
  by (simp add: bindr_def)

lemma bindr_ret [simp, res_simps]: "bindr m Inr = m"
  by (cases m) simp_all

lemma bindr_assoc: "bindr (bindr m f) g = bindr m (\<lambda>x. bindr (f x) g)"
  by (cases m) simp_all

lemma bindr_eq_Inr: "bindr m k = Inr y \<longleftrightarrow> (\<exists>x. m = Inr x \<and> k x = Inr y)"
  by (cases m) simp_all

lemma Inr_eq_bindr: "Inr y = bindr m k \<longleftrightarrow> (\<exists>x. m = Inr x \<and> k x = Inr y)"
  by (cases m) auto

lemma bindr_eq_Inl: "bindr m k = Inl e \<longleftrightarrow> m = Inl e \<or> (\<exists>x. m = Inr x \<and> k x = Inl e)"
  by (cases m) simp_all

lemma bindr_cong [fundef_cong]:
  "m = m' \<Longrightarrow> (\<And>x. m' = Inr x \<Longrightarrow> k x = k' x) \<Longrightarrow> bindr m k = bindr m' k'"
  by (cases m') simp_all

lemma guardr_simps [simp, res_simps]:
  "guardr True c m = raise c m" "guardr False c m = ret ()"
  by (simp_all add: guardr_def)

lemma guardr_eq_Inr: "guardr b c m = Inr u \<longleftrightarrow> \<not> b"
  by (simp add: guardr_def)

lemma guardr_eq_Inl: "guardr b c m = Inl e \<longleftrightarrow> b \<and> e = Exc c m"
  by (auto simp: guardr_def)

lemma catchr_Inr [simp, res_simps]: "catchr (Inr x) cs h = Inr x"
  by (simp add: catchr_def)

lemma catchr_eq_Inr:
  "catchr m cs h = Inr x \<longleftrightarrow> m = Inr x \<or>
   (\<exists>e. m = Inl e \<and> (\<exists>c \<in> set cs. exc_isa (exc_cls e) c) \<and> h e = Inr x)"
  by (auto simp: catchr_def split: sum.splits)

lemma returns_simps [simp, res_simps]: "returns (Inr x)" "\<not> returns (Inl e)"
  by (simp_all add: returns_def)

lemma returns_iff: "returns m \<longleftrightarrow> (\<exists>x. m = Inr x)"
  by (cases m) simp_all

lemma mapr_append:
  "mapr f (xs @ ys) = bindr (mapr f xs) (\<lambda>a. bindr (mapr f ys) (\<lambda>b. ret (a @ b)))"
  by (induction xs) (simp_all add: bindr_assoc)

lemma mapr_pure: "(\<And>x. x \<in> set xs \<Longrightarrow> f x = Inr (g x)) \<Longrightarrow> mapr f xs = Inr (map g xs)"
  by (induction xs) simp_all

lemma mapr_length: "mapr f xs = Inr ys \<Longrightarrow> length ys = length xs"
  by (induction xs arbitrary: ys) (auto simp: bindr_eq_Inr)

lemma mapr_Inr_all: "mapr f xs = Inr ys \<Longrightarrow> y \<in> set ys \<Longrightarrow> \<exists>x \<in> set xs. f x = Inr y"
  by (induction xs arbitrary: ys) (auto simp: bindr_eq_Inr)

lemma mapr_Inr_nth: "mapr f xs = Inr ys \<Longrightarrow> i < length xs \<Longrightarrow> f (xs ! i) = Inr (ys ! i)"
proof (induction xs arbitrary: ys i)
  case Nil
  then show ?case by simp
next
  case (Cons x xs)
  then show ?case by (cases i) (auto simp: bindr_eq_Inr)
qed

text \<open>The classes the worker's handlers distinguish.\<close>

lemma exc_isa_simps [simp]:
  "exc_isa OutOfMemoryError RuntimeError" "exc_isa UnicodeDecodeError ValueError"
  "exc_isa JSONDecodeError ValueError" "\<not> exc_isa OutOfMemoryError ValueError"
  "\<not> exc_isa RuntimeError ValueError" "\<not> exc_isa TimeoutError ValueError"
  "\<not> exc_isa RuntimeError OutOfMemoryError" "\<not> exc_isa ValueError OutOfMemoryError"
  "\<not> exc_isa ValueError TimeoutError" "\<not> exc_isa ValueError RuntimeError"
  by (simp_all add: exc_isa_def numeral_eq_Suc)

lemma exc_isa_refl [simp]: "exc_isa c c"
  by (simp add: exc_isa_def numeral_eq_Suc)

text \<open>Being a subclass is a partial order, with \<open>BaseException\<close> on top.\<close>

lemma exc_ups_mono: "exc_isa c d \<Longrightarrow> set (exc_ups 4 d) \<subseteq> set (exc_ups 4 c)"
  by (cases c) (auto simp: exc_isa_def numeral_eq_Suc)

lemma exc_isa_antisym: "exc_isa c d \<Longrightarrow> exc_isa d c \<Longrightarrow> c = d"
  by (cases c) (auto simp: exc_isa_def numeral_eq_Suc)

lemma exc_isa_top: "exc_isa c BaseException"
  by (cases c) (simp_all add: exc_isa_def numeral_eq_Suc)

instantiation exc_class :: order_top
begin

definition "c \<le> d \<longleftrightarrow> exc_isa c d"
definition "c < d \<longleftrightarrow> exc_isa c d \<and> c \<noteq> (d :: exc_class)"
definition "top = BaseException"

instance
proof
  fix a b c :: exc_class
  show "a < b \<longleftrightarrow> a \<le> b \<and> \<not> b \<le> a"
    using exc_isa_antisym by (auto simp: less_eq_exc_class_def less_exc_class_def)
  show "a \<le> c" if "a \<le> b" "b \<le> c"
    using that exc_ups_mono [of a b] by (auto simp: less_eq_exc_class_def exc_isa_def)
  show "a = b" if "a \<le> b" "b \<le> a" using that exc_isa_antisym by (simp add: less_eq_exc_class_def)
qed (simp_all add: less_eq_exc_class_def top_exc_class_def exc_isa_top)

end

text \<open>A handler of a class catches what a handler of a subclass would.\<close>

lemma exc_isa_trans: "exc_isa c d \<Longrightarrow> exc_isa d e \<Longrightarrow> exc_isa c e"
  using order.trans [of c d e] by (simp add: less_eq_exc_class_def)

section \<open>Lists\<close>

lemma takeWhile_append_stop: "\<forall>x \<in> set xs. P x \<Longrightarrow> \<not> P y \<Longrightarrow> takeWhile P (xs @ y # ys) = xs"
  by (induction xs) simp_all

lemma dropWhile_append_stop: "\<forall>x \<in> set xs. P x \<Longrightarrow> \<not> P y \<Longrightarrow> dropWhile P (xs @ y # ys) = y # ys"
  by (induction xs) simp_all

lemma all_le_Suc_iff: "(\<forall>k \<le> Suc n. P k) \<longleftrightarrow> P 0 \<and> (\<forall>k \<le> n. P (Suc k))"
  by (simp only: less_Suc_eq_le [symmetric] All_less_Suc2)

lemma upt_Suc_Suc: "[0..<Suc (Suc n)] = 0 # map Suc [0..<Suc n]"
  by (simp only: upt_conv_Cons [of 0 "Suc (Suc n)"] map_Suc_upt zero_less_Suc)

lemma drop_length_append [simp]: "drop (length xs) (xs @ ys) = ys"
  by simp

section \<open>Step relations\<close>

text \<open>What a step relation reaches from a state, and the contract of an inductive invariant: true at the start and kept by
  every step.\<close>

inductive reachable :: "('s \<Rightarrow> 's \<Rightarrow> bool) \<Rightarrow> 's \<Rightarrow> 's \<Rightarrow> bool" for step start where
  here: "reachable step start start"
| further: "reachable step start s \<Longrightarrow> step s t \<Longrightarrow> reachable step start t"

lemma reachable_step: "step s t \<Longrightarrow> reachable step s t"
  by (rule reachable.further) (rule reachable.here)

lemma reachable_trans:
  assumes "reachable step t u" and "reachable step s t"
  shows "reachable step s u"
  using assms by (induction rule: reachable.induct) (auto intro: reachable.further)

locale step_invariant =
  fixes step :: "'s \<Rightarrow> 's \<Rightarrow> bool" and start :: 's and inv :: "'s \<Rightarrow> bool"
  assumes at_start: "inv start"
    and kept: "inv s \<Longrightarrow> step s t \<Longrightarrow> inv t"
begin

lemma always: "reachable step start s \<Longrightarrow> inv s"
  by (induction rule: reachable.induct) (auto intro: at_start kept)

end

end
