(* ===== verification/Py_Str.thy ===== *)
theory Py_Str
  imports LA_Prelude
begin

text \<open>
  What the code uses of Python's \<open>str\<close>. A string is a HOL \<open>string\<close>, that is a list of
  the code points 0 to 255 (Latin-1); the predicates below are Python's on that range:
  \<open>str.isspace\<close> holds of 9-13, 28-32, 133 and 160, and the decimal digits (category Nd,
  what \<open>\d\<close> and \<open>int()\<close> accept) are exactly 0 to 9.
\<close>

section \<open>Character classes\<close>

definition py_isspace :: "char \<Rightarrow> bool" where
  "py_isspace c \<longleftrightarrow> (let n = of_char c :: nat in
     (9 \<le> n \<and> n \<le> 13) \<or> (28 \<le> n \<and> n \<le> 32) \<or> n = 133 \<or> n = 160)"

definition py_isdigit :: "char \<Rightarrow> bool" where
  "py_isdigit c \<longleftrightarrow> (let n = of_char c :: nat in 48 \<le> n \<and> n \<le> 57)"

definition py_lower_char :: "char \<Rightarrow> char" where
  "py_lower_char c = (let n = of_char c :: nat in
     if (65 \<le> n \<and> n \<le> 90) \<or> (192 \<le> n \<and> n \<le> 222 \<and> n \<noteq> 215) then char_of (n + 32) else c)"

definition py_lower :: "string \<Rightarrow> string" where
  "py_lower s = map py_lower_char s"

section \<open>Methods of str\<close>

definition py_lstrip :: "string \<Rightarrow> string" where
  "py_lstrip s = dropWhile py_isspace s"

definition py_rstrip :: "string \<Rightarrow> string" where
  "py_rstrip s = rev (dropWhile py_isspace (rev s))"

definition py_strip :: "string \<Rightarrow> string" where
  "py_strip s = py_rstrip (py_lstrip s)"

definition py_startswith :: "string \<Rightarrow> string \<Rightarrow> bool" where
  "py_startswith s p \<longleftrightarrow> take (length p) s = p"

definition py_endswith :: "string \<Rightarrow> string \<Rightarrow> bool" where
  "py_endswith s p \<longleftrightarrow> length p \<le> length s \<and> drop (length s - length p) s = p"

text \<open>\<open>needle in hay\<close>\<close>

fun py_contains :: "string \<Rightarrow> string \<Rightarrow> bool" where
  "py_contains p [] = (p = [])"
| "py_contains p (c # s) = (py_startswith (c # s) p \<or> py_contains p s)"

fun py_join :: "string \<Rightarrow> string list \<Rightarrow> string" where
  "py_join sep [] = []"
| "py_join sep [x] = x"
| "py_join sep (x # y # xs) = x @ sep @ py_join sep (y # xs)"

text \<open>
  \<open>s.split(sep)\<close> for a one-character separator: never empty, one more piece than separators.
\<close>

fun py_split1 :: "char \<Rightarrow> string \<Rightarrow> string list" where
  "py_split1 d [] = [[]]"
| "py_split1 d (c # s) =
     (if c = d then [] # py_split1 d s
      else (case py_split1 d s of [] \<Rightarrow> [[c]] | w # ws \<Rightarrow> (c # w) # ws))"

section \<open>Decimal numerals\<close>

definition digit_val :: "char \<Rightarrow> nat" where
  "digit_val c = (of_char c :: nat) - 48"

definition nat_of_digits :: "string \<Rightarrow> nat" where
  "nat_of_digits s = foldl (\<lambda>a c. 10 * a + digit_val c) 0 s"

text \<open>
  \<open>int(s)\<close> for a string of decimal digits. CPython refuses a numeral of more than
  \<open>sys.int_info.default_max_str_digits = 4300\<close> digits with a \<open>ValueError\<close>.
\<close>

definition py_int_digits :: "string \<Rightarrow> int res" where
  "py_int_digits s = (if length s > 4300 then raise ValueError ''int: too many digits''
                      else ret (int (nat_of_digits s)))"

text \<open>
  \<open>int(s)\<close> for any string: blanks around, a sign, digits with single underscores between them.
\<close>

definition underscore_digits :: "string \<Rightarrow> string option" where
  "underscore_digits s = (let ps = py_split1 CHR ''_'' s in
     if \<forall>p \<in> set ps. p \<noteq> [] \<and> (\<forall>c \<in> set p. py_isdigit c) then Some (concat ps) else None)"

definition py_sign :: "string \<Rightarrow> int \<times> string" where
  "py_sign s = (case s of
     c # t \<Rightarrow> if c = CHR ''-'' then (- 1, t) else if c = CHR ''+'' then (1, t) else (1, s)
   | [] \<Rightarrow> (1, s))"

definition py_int :: "string \<Rightarrow> int res" where
  "py_int s = (case py_sign (py_strip s) of (sg, t) \<Rightarrow>
     (case underscore_digits t of
        None \<Rightarrow> raise ValueError ''invalid literal for int()''
      | Some ds \<Rightarrow> bindr (py_int_digits ds) (\<lambda>n. ret (sg * n))))"

text \<open>The decimal numeral of a number (\<open>str(n)\<close>).\<close>

fun dec_digits :: "nat \<Rightarrow> string" where
  "dec_digits n = (if n < 10 then [char_of (48 + n)]
                   else dec_digits (n div 10) @ [char_of (48 + n mod 10)])"

declare dec_digits.simps [simp del]

section \<open>Lemmas\<close>

lemma py_startswith_append [simp]: "py_startswith (p @ s) p"
  by (simp add: py_startswith_def)

lemma py_startswith_iff: "py_startswith s p \<longleftrightarrow> (\<exists>r. s = p @ r)"
  by (metis append_eq_conv_conj py_startswith_def append_take_drop_id)

lemma py_startswith_Nil [simp]: "py_startswith s []"
  by (simp add: py_startswith_def)

lemma py_startswith_Nil2 [simp]: "py_startswith [] p \<longleftrightarrow> p = []"
  by (auto simp: py_startswith_def)

lemma py_startswith_Cons [simp]:
  "py_startswith (c # s) (d # p) \<longleftrightarrow> c = d \<and> py_startswith s p"
  by (auto simp: py_startswith_def)

lemma py_endswith_append [simp]: "py_endswith (s @ p) p"
  by (simp add: py_endswith_def)

lemma py_endswith_iff: "py_endswith s p \<longleftrightarrow> (\<exists>r. s = r @ p)"
proof
  assume "py_endswith s p"
  then have "s = take (length s - length p) s @ p"
    by (metis append_take_drop_id py_endswith_def)
  then show "\<exists>r. s = r @ p" ..
qed (auto simp: py_endswith_def)

lemma dropWhile_eq_Nil_all: "dropWhile P xs = [] \<longleftrightarrow> (\<forall>x \<in> set xs. P x)"
  by (induction xs) auto

lemma hd_dropWhile_not: "dropWhile P xs \<noteq> [] \<Longrightarrow> \<not> P (hd (dropWhile P xs))"
  by (rule hd_dropWhile)

lemma py_strip_eq_Nil: "py_strip s = [] \<longleftrightarrow> (\<forall>c \<in> set s. py_isspace c)"
proof -
  have "py_strip s = [] \<longleftrightarrow> dropWhile py_isspace (rev (dropWhile py_isspace s)) = []"
    by (simp add: py_strip_def py_rstrip_def py_lstrip_def)
  also have "\<dots> \<longleftrightarrow> (\<forall>c \<in> set (dropWhile py_isspace s). py_isspace c)"
    by (simp only: dropWhile_eq_Nil_all set_rev)
  also have "\<dots> \<longleftrightarrow> (\<forall>c \<in> set s. py_isspace c)"
    by (metis dropWhile_eq_Nil_all hd_dropWhile_not list.set_sel(1) empty_iff list.set(1))
  finally show ?thesis .
qed

text \<open>A string with no blank at either end is its own strip, and every strip is such a string.\<close>

definition trimmed :: "string \<Rightarrow> bool" where
  "trimmed s \<longleftrightarrow> s = [] \<or> (\<not> py_isspace (hd s) \<and> \<not> py_isspace (last s))"

lemma py_strip_trimmed: "trimmed s \<Longrightarrow> py_strip s = s"
proof (cases "s = []")
  case True
  then show ?thesis by (simp add: py_strip_def py_rstrip_def py_lstrip_def)
next
  case False
  assume "trimmed s"
  with False have h: "\<not> py_isspace (hd s)" and l: "\<not> py_isspace (last s)"
    by (auto simp: trimmed_def)
  from h have "py_lstrip s = s"
    using False by (cases s) (simp_all add: py_lstrip_def)
  moreover from l have "py_rstrip s = s"
    using False by (cases s rule: rev_cases) (simp_all add: py_rstrip_def)
  ultimately show ?thesis by (simp add: py_strip_def)
qed

lemma trimmed_py_strip: "trimmed (py_strip s)"
proof -
  let ?t = "dropWhile py_isspace s"
  let ?u = "dropWhile py_isspace (rev ?t)"
  have eq: "py_strip s = rev ?u"
    by (simp add: py_strip_def py_rstrip_def py_lstrip_def)
  show ?thesis
  proof (cases "?u = []")
    case True
    with eq show ?thesis by (simp add: trimmed_def)
  next
    case False
    have last: "\<not> py_isspace (last (rev ?u))"
      using hd_dropWhile_not [OF False] False by (simp add: last_rev)
    obtain w where w: "rev ?t = w @ ?u"
      by (metis takeWhile_dropWhile_id)
    then have "?t = rev ?u @ rev w"
      by (metis rev_append rev_rev_ident)
    with False have "?t \<noteq> []" and "hd ?t = hd (rev ?u)"
      by (metis Nil_is_append_conv rev_is_Nil_conv, metis hd_append2 rev_is_Nil_conv)
    with hd_dropWhile_not [of py_isspace s] have "\<not> py_isspace (hd (rev ?u))" by simp
    with last eq show ?thesis by (simp add: trimmed_def)
  qed
qed

lemma py_strip_idem [simp]: "py_strip (py_strip s) = py_strip s"
  by (rule py_strip_trimmed [OF trimmed_py_strip])

lemma dec_digits_ne [simp]: "dec_digits n \<noteq> []"
  by (subst dec_digits.simps) simp

lemma digit_char: "d < 10 \<Longrightarrow> py_isdigit (char_of (48 + d)) \<and> digit_val (char_of (48 + d)) = d"
  by (simp add: py_isdigit_def digit_val_def of_char_of Let_def)

lemma dec_digits_isdigit: "c \<in> set (dec_digits n) \<Longrightarrow> py_isdigit c"
proof (induction n rule: dec_digits.induct)
  case (1 n)
  then show ?case
    using digit_char [of n] digit_char [of "n mod 10"]
    by (subst (asm) (2) dec_digits.simps) (auto split: if_splits)
qed

lemma nat_of_digits_snoc: "nat_of_digits (s @ [c]) = 10 * nat_of_digits s + digit_val c"
  by (simp add: nat_of_digits_def)

lemma nat_of_dec_digits [simp]: "nat_of_digits (dec_digits n) = n"
proof (induction n rule: dec_digits.induct)
  case (1 n)
  show ?case
  proof (cases "n < 10")
    case True
    then show ?thesis
      using digit_char [of n] by (subst dec_digits.simps) (simp add: nat_of_digits_def)
  next
    case False
    with 1 have "nat_of_digits (dec_digits (n div 10)) = n div 10" by simp
    then show ?thesis
      using False digit_char [of "n mod 10"]
      by (subst dec_digits.simps) (simp add: nat_of_digits_snoc)
  qed
qed

lemma dec_digits_length_less: "n < 10 ^ k \<Longrightarrow> k > 0 \<Longrightarrow> length (dec_digits n) \<le> k"
proof (induction n arbitrary: k rule: dec_digits.induct)
  case (1 n)
  show ?case
  proof (cases "n < 10")
    case True
    with "1.prems" show ?thesis by (subst dec_digits.simps) simp
  next
    case False
    with "1.prems" obtain k' where k: "k = Suc k'" and k': "k' > 0"
      by (cases k) (auto simp: gr0_conv_Suc intro: Suc_leI; cases "k - 1"; auto)+
    from "1.prems" k have "n div 10 < 10 ^ k'" by (simp add: less_mult_imp_div_less mult.commute)
    with "1.IH" False k' have "length (dec_digits (n div 10)) \<le> k'" by simp
    then show ?thesis using False k by (subst dec_digits.simps) simp
  qed
qed

lemma py_int_dec_digits:
  assumes "n < 10 ^ k" and "0 < k" and "k \<le> 4300"
  shows "py_int_digits (dec_digits n) = Inr (int n)"
  using dec_digits_length_less [OF assms(1,2)] assms(3) by (simp add: py_int_digits_def)

lemma digit_not_space: "py_isdigit c \<Longrightarrow> \<not> py_isspace c"
  by (auto simp: py_isdigit_def py_isspace_def Let_def)

end
