(* ===== verification/Py_Json.thy ===== *)
theory Py_Json
  imports Py_Str Complex_Main
begin

text \<open>
  Values of Python's \<open>json\<close> module: what \<open>json.loads\<close> returns and \<open>json.dumps\<close> takes.
  An object is the association list of its members in insertion order, as a Python
  \<open>dict\<close> is. A float is its exact value as a rational (see theory Py_Float).
\<close>

datatype json =
    JNull
  | JBool bool
  | JInt int
  | JFloat rat
  | JStr string
  | JList "json list"
  | JObj "(string \<times> json) list"

text \<open>\<open>obj.get(key)\<close> on a dict, and \<open>key in obj\<close>.\<close>

fun jget :: "json \<Rightarrow> string \<Rightarrow> json option" where
  "jget (JObj kvs) k = map_of kvs k"
| "jget _ k = None"

fun jkeys :: "json \<Rightarrow> string list" where
  "jkeys (JObj kvs) = map fst kvs"
| "jkeys _ = []"

fun is_obj :: "json \<Rightarrow> bool" where
  "is_obj (JObj kvs) = True"
| "is_obj _ = False"

fun is_str :: "json \<Rightarrow> bool" where
  "is_str (JStr s) = True"
| "is_str _ = False"

text \<open>The truth value of a value.\<close>

fun truthy :: "json \<Rightarrow> bool" where
  "truthy JNull = False"
| "truthy (JBool b) = b"
| "truthy (JInt i) = (i \<noteq> 0)"
| "truthy (JFloat x) = (x \<noteq> 0)"
| "truthy (JStr s) = (s \<noteq> [])"
| "truthy (JList xs) = (xs \<noteq> [])"
| "truthy (JObj kvs) = (kvs \<noteq> [])"

text \<open>An object with exactly these keys, each once: what a Rust struct with \<open>deny_unknown_fields\<close> reads.\<close>

definition exact_keys :: "string list \<Rightarrow> json \<Rightarrow> bool" where
  "exact_keys ks j \<longleftrightarrow> is_obj j \<and> distinct (jkeys j) \<and> set (jkeys j) = set ks"

text \<open>\<open>isinstance(v, str) and v\<close>: a non-empty string, as an option.\<close>

fun as_nonempty_str :: "json option \<Rightarrow> string option" where
  "as_nonempty_str (Some (JStr s)) = (if s = [] then None else Some s)"
| "as_nonempty_str _ = None"

lemma as_nonempty_str_Some: "as_nonempty_str v = Some s \<longleftrightarrow> v = Some (JStr s) \<and> s \<noteq> []"
  by (cases v rule: as_nonempty_str.cases) auto

lemma jget_None_iff: "is_obj j \<Longrightarrow> jget j k = None \<longleftrightarrow> k \<notin> set (jkeys j)"
  by (cases j) (auto simp: map_of_eq_None_iff)

end
