(* ===== verification/Prompts.thy ===== *)
theory Prompts
  imports Py_Json
begin

text \<open>
  \<^verbatim>\<open>worker/prompts.py\<close>: the seven canonical prompt templates, the builders that fill them, the
  classifier and the recovery of the queried phrase of a \<open>point\<close> prompt, the typed
  request constructors and the preset bundles the server advertises.
  The lemmas show that every builder's output is classified as its own template, that
  \<open>point_phrase\<close> inverts the point builder, that the joined category list of a detection
  prompt determines the categories, and that the advertised presets are well formed.
\<close>

section \<open>Template constants\<close>

definition CANONICAL_REFERENCE_URL :: string where
  "CANONICAL_REFERENCE_URL = ''https://github.com/BigBIueWhale/locate_anything_setup/blob/main/worker/prompts.py''"

definition CATEGORY_SEPARATOR :: string where
  "CATEGORY_SEPARATOR = ''</c>''"

definition DETECTION_PREFIX :: string where
  "DETECTION_PREFIX = ''Locate all the instances that matches the following description: ''"

definition SINGLE_PHRASE_PREFIX :: string where
  "SINGLE_PHRASE_PREFIX = ''Locate a single instance that matches the following description: ''"

definition GUI_BOX_PREFIX :: string where
  "GUI_BOX_PREFIX = ''Locate the region that matches the following description: ''"

definition MULTI_PHRASE_PREFIX :: string where
  "MULTI_PHRASE_PREFIX = ''Locate all the instances that match the following description: ''"

definition TEXT_GROUNDING_PREFIX :: string where
  "TEXT_GROUNDING_PREFIX = ''Please locate the text referred as ''"

definition SCENE_TEXT_EXACT :: string where
  "SCENE_TEXT_EXACT = ''Detect all the text in box format.''"

definition POINT_PREFIX :: string where
  "POINT_PREFIX = ''Point to: ''"

definition CANONICAL_RENDERED_PREFIX :: string where
  "CANONICAL_RENDERED_PREFIX = ''<|im_start|>system'' @ [CHR 0x0A] @ ''You are a helpful assistant.'' @ [CHR 0x0A] @ ''<|im_end|>'' @ [CHR 0x0A] @ ''<|im_start|>user'' @ [CHR 0x0A]"

definition CANONICAL_RENDERED_SUFFIX :: string where
  "CANONICAL_RENDERED_SUFFIX = ''<|im_end|>'' @ [CHR 0x0A] @ ''<|im_start|>assistant'' @ [CHR 0x0A]"

lemmas prefix_defs = DETECTION_PREFIX_def SINGLE_PHRASE_PREFIX_def GUI_BOX_PREFIX_def
  MULTI_PHRASE_PREFIX_def TEXT_GROUNDING_PREFIX_def SCENE_TEXT_EXACT_def POINT_PREFIX_def

definition TEMPLATE_WIRE_NAMES :: "string list" where
  "TEMPLATE_WIRE_NAMES = [''detection'', ''phrase_single'', ''phrase_multi'', ''text_grounding'',
     ''scene_text'', ''gui_box'', ''point'']"

definition CANONICAL_TEMPLATES :: "(string \<times> json) list" where
  "CANONICAL_TEMPLATES = [
     (''category_separator'', JStr CATEGORY_SEPARATOR),
     (''detection_prefix'', JStr DETECTION_PREFIX),
     (''single_phrase_prefix'', JStr SINGLE_PHRASE_PREFIX),
     (''multi_phrase_prefix'', JStr MULTI_PHRASE_PREFIX),
     (''text_grounding_prefix'', JStr TEXT_GROUNDING_PREFIX),
     (''scene_text_exact'', JStr SCENE_TEXT_EXACT),
     (''gui_box_prefix'', JStr GUI_BOX_PREFIX),
     (''point_prefix'', JStr POINT_PREFIX),
     (''template_wire_names'', JList (map JStr TEMPLATE_WIRE_NAMES))]"

section \<open>Builders\<close>

text \<open>\<open>[c.strip() for c in categories if c.strip()]\<close>\<close>

definition clean_categories :: "string list \<Rightarrow> string list" where
  "clean_categories categories = map py_strip (filter (\<lambda>c. py_strip c \<noteq> []) categories)"

definition detect_categories :: "string list \<Rightarrow> string res" where
  "detect_categories categories =
     (let cats = clean_categories categories in
      if cats = [] then raise ValueError ''detect_categories requires at least one category''
      else ret (DETECTION_PREFIX @ py_join CATEGORY_SEPARATOR cats @ ''.''))"

definition ground_single :: "string \<Rightarrow> string res" where
  "ground_single phrase =
     (if phrase = [] \<or> py_strip phrase = []
      then raise ValueError ''ground_single requires a non-empty phrase''
      else ret (SINGLE_PHRASE_PREFIX @ py_strip phrase @ ''.''))"

definition ground_multi :: "string \<Rightarrow> string res" where
  "ground_multi phrase =
     (if phrase = [] \<or> py_strip phrase = []
      then raise ValueError ''ground_multi requires a non-empty phrase''
      else ret (MULTI_PHRASE_PREFIX @ py_strip phrase @ ''.''))"

definition ground_text :: "string \<Rightarrow> string res" where
  "ground_text phrase =
     (if phrase = [] \<or> py_strip phrase = []
      then raise ValueError ''ground_text requires a non-empty phrase''
      else ret (TEXT_GROUNDING_PREFIX @ py_strip phrase @ ''.''))"

definition detect_text :: string where
  "detect_text = SCENE_TEXT_EXACT"

definition ground_gui :: "string \<Rightarrow> string \<Rightarrow> string res" where
  "ground_gui phrase output_type =
     (if phrase = [] \<or> py_strip phrase = []
      then raise ValueError ''ground_gui requires a non-empty phrase''
      else if output_type = ''point'' then ret (POINT_PREFIX @ py_strip phrase @ ''.'')
      else ret (GUI_BOX_PREFIX @ py_strip phrase @ ''.''))"

definition point_to :: "string \<Rightarrow> string res" where
  "point_to phrase =
     (if phrase = [] \<or> py_strip phrase = []
      then raise ValueError ''point_to requires a non-empty phrase''
      else ret (POINT_PREFIX @ py_strip phrase @ ''.''))"

section \<open>Reading prompts back\<close>

definition point_phrase :: "string \<Rightarrow> string res" where
  "point_phrase prompt =
     (if \<not> py_startswith prompt POINT_PREFIX
      then raise ValueError ''point_phrase requires a canonical point prompt''
      else let body = drop (length POINT_PREFIX) prompt;
               phrase = (if py_endswith body ''.'' then butlast body else body)
           in if phrase = [] then raise ValueError ''point prompt has an empty phrase slot''
              else ret phrase)"

definition classify_prompt :: "string \<Rightarrow> string res" where
  "classify_prompt prompt =
     (if prompt = SCENE_TEXT_EXACT then ret ''scene_text''
      else if py_startswith prompt DETECTION_PREFIX then ret ''detection''
      else if py_startswith prompt SINGLE_PHRASE_PREFIX then ret ''phrase_single''
      else if py_startswith prompt MULTI_PHRASE_PREFIX then ret ''phrase_multi''
      else if py_startswith prompt TEXT_GROUNDING_PREFIX then ret ''text_grounding''
      else if py_startswith prompt GUI_BOX_PREFIX then ret ''gui_box''
      else if py_startswith prompt POINT_PREFIX then ret ''point''
      else raise ValueError ''prompt does not match any canonical template'')"

section \<open>Typed requests and presets\<close>

text \<open>\<open>_clean_slot(s, what)\<close>: the value may be any JSON-like value, only strings pass.\<close>

definition clean_slot :: "json \<Rightarrow> string \<Rightarrow> string res" where
  "clean_slot s what =
     (case s of JStr t \<Rightarrow> if py_strip t = [] then raise ValueError what else ret (py_strip t)
      | _ \<Rightarrow> raise ValueError what)"

text \<open>\<open>[c.strip() for c in categories if isinstance(c, str) and c.strip()]\<close>\<close>

fun clean_json_categories :: "json list \<Rightarrow> string list" where
  "clean_json_categories [] = []"
| "clean_json_categories (JStr c # cs) =
     (if py_strip c = [] then clean_json_categories cs
      else py_strip c # clean_json_categories cs)"
| "clean_json_categories (_ # cs) = clean_json_categories cs"

definition req_detection :: "json list \<Rightarrow> json res" where
  "req_detection categories =
     (let cats = clean_json_categories categories in
      if cats = [] then raise ValueError ''req_detection requires at least one category''
      else ret (JObj [(''task'', JStr ''detection''), (''categories'', JList (map JStr cats))]))"

definition req_phrase_single :: "json \<Rightarrow> json res" where
  "req_phrase_single phrase = bindr (clean_slot phrase ''req_phrase_single'')
     (\<lambda>p. ret (JObj [(''task'', JStr ''phrase_single''), (''phrase'', JStr p)]))"

definition req_phrase_multi :: "json \<Rightarrow> json res" where
  "req_phrase_multi phrase = bindr (clean_slot phrase ''req_phrase_multi'')
     (\<lambda>p. ret (JObj [(''task'', JStr ''phrase_multi''), (''phrase'', JStr p)]))"

definition req_text_grounding :: "json \<Rightarrow> json res" where
  "req_text_grounding text = bindr (clean_slot text ''req_text_grounding'')
     (\<lambda>p. ret (JObj [(''task'', JStr ''text_grounding''), (''text'', JStr p)]))"

definition req_scene_text :: json where
  "req_scene_text = JObj [(''task'', JStr ''scene_text'')]"

definition req_gui_box :: "json \<Rightarrow> json res" where
  "req_gui_box description = bindr (clean_slot description ''req_gui_box'')
     (\<lambda>p. ret (JObj [(''task'', JStr ''gui_box''), (''description'', JStr p)]))"

definition req_point :: "json \<Rightarrow> json res" where
  "req_point phrase = bindr (clean_slot phrase ''req_point'')
     (\<lambda>p. ret (JObj [(''task'', JStr ''point''), (''phrase'', JStr p)]))"

definition generation_modes :: "string list" where
  "generation_modes = [''fast'', ''hybrid'', ''slow'']"

definition preset :: "string \<Rightarrow> json res \<Rightarrow> string \<Rightarrow> json res" where
  "preset label request generation_mode = bindr request (\<lambda>r.
     if generation_mode \<notin> set generation_modes
     then raise ValueError ''preset generation_mode must be fast|hybrid|slow''
     else ret (JObj [(''label'', JStr label), (''request'', r),
                     (''generation_mode'', JStr generation_mode)]))"

definition DRONE_PROMPTS_RANKED :: "string list res" where
  "DRONE_PROMPTS_RANKED = mapr id [
     point_to ''drone in the sky'',
     detect_categories [''drone''],
     ground_multi ''a small drone in the sky'',
     point_to ''quadcopter'',
     detect_categories [''drone'', ''quadcopter'', ''uav'', ''aircraft''],
     ground_multi ''a flying object in the sky'',
     ground_single ''the drone'']"

definition DRONE_PRESETS_RANKED :: "json list res" where
  "DRONE_PRESETS_RANKED = mapr id [
     preset ''drone (point)'' (req_point (JStr ''drone in the sky'')) ''slow'',
     preset ''drone (detect)'' (req_detection [JStr ''drone'']) ''slow'',
     preset ''small drone (phrase, multi)'' (req_phrase_multi (JStr ''a small drone in the sky'')) ''slow'',
     preset ''quadcopter (point)'' (req_point (JStr ''quadcopter'')) ''slow'',
     preset ''drone/uav/aircraft (detect)''
       (req_detection (map JStr [''drone'', ''quadcopter'', ''uav'', ''aircraft''])) ''slow'',
     preset ''flying object (phrase, multi)'' (req_phrase_multi (JStr ''a flying object in the sky'')) ''slow'',
     preset ''the drone (phrase, single)'' (req_phrase_single (JStr ''the drone'')) ''slow'']"

definition household_categories :: "(string \<times> string list) list" where
  "household_categories = [
     (''office'', [''bottle'', ''cup'', ''laptop'', ''keyboard'', ''mouse'', ''monitor'', ''book'']),
     (''living_room'', [''person'', ''dog'', ''cat'', ''couch'', ''tv'', ''laptop'', ''book'', ''cup'']),
     (''kitchen'', [''bottle'', ''cup'', ''bowl'', ''knife'', ''spoon'', ''refrigerator'', ''microwave'']),
     (''street'', [''person'', ''car'', ''bus'', ''bicycle'', ''traffic light'', ''stop sign'']),
     (''demo'', [''person'', ''laptop'', ''bottle'', ''cup'', ''book'', ''monitor'', ''keyboard''])]"

definition HOUSEHOLD_PROMPTS :: "(string \<times> string) list res" where
  "HOUSEHOLD_PROMPTS =
     mapr (\<lambda>(n, cs). bindr (detect_categories cs) (\<lambda>p. ret (n, p))) household_categories"

definition HOUSEHOLD_PRESETS :: "json list res" where
  "HOUSEHOLD_PRESETS =
     mapr (\<lambda>(n, cs). preset n (req_detection (map JStr cs)) ''hybrid'') household_categories"

section \<open>Lemmas\<close>

text \<open>
  No template prefix is a prefix of another, and the scene-text prompt starts with none of
  them, so the order of the tests in \<open>classify_prompt\<close> does not matter.
\<close>

lemma classify_simps:
  "classify_prompt SCENE_TEXT_EXACT = Inr ''scene_text''"
  "classify_prompt (DETECTION_PREFIX @ s) = Inr ''detection''"
  "classify_prompt (SINGLE_PHRASE_PREFIX @ s) = Inr ''phrase_single''"
  "classify_prompt (MULTI_PHRASE_PREFIX @ s) = Inr ''phrase_multi''"
  "classify_prompt (TEXT_GROUNDING_PREFIX @ s) = Inr ''text_grounding''"
  "classify_prompt (GUI_BOX_PREFIX @ s) = Inr ''gui_box''"
  "classify_prompt (POINT_PREFIX @ s) = Inr ''point''"
  by (simp_all add: classify_prompt_def prefix_defs)

lemma classify_wire_name: "classify_prompt p = Inr n \<Longrightarrow> n \<in> set TEMPLATE_WIRE_NAMES"
  by (auto simp: classify_prompt_def TEMPLATE_WIRE_NAMES_def split: if_splits)

lemma point_phrase_prefix: "s \<noteq> [] \<Longrightarrow> point_phrase (POINT_PREFIX @ s @ ''.'') = Inr s"
  by (simp add: point_phrase_def)

lemma point_to_ok: "py_strip p \<noteq> [] \<Longrightarrow> point_to p = Inr (POINT_PREFIX @ py_strip p @ ''.'')"
  by (auto simp: point_to_def py_strip_eq_Nil)

lemma py_strip_Nil [simp]: "py_strip [] = []"
  by (simp add: py_strip_eq_Nil)

text \<open>The separator overlaps itself nowhere, so a joined list of separator-free pieces is uniquely split.\<close>

lemma sep_border:
  assumes "t \<noteq> []" and "t @ CATEGORY_SEPARATOR @ r' = CATEGORY_SEPARATOR @ r"
  shows "py_startswith t CATEGORY_SEPARATOR"
proof -
  from assms obtain c1 t1 where t: "t = c1 # t1" by (cases t) auto
  show ?thesis
  proof (cases t1)
    case Nil
    with assms t show ?thesis by (simp add: CATEGORY_SEPARATOR_def)
  next
    case (Cons c2 t2)
    note 1 = this
    show ?thesis
    proof (cases t2)
      case Nil
      with assms t 1 show ?thesis by (simp add: CATEGORY_SEPARATOR_def)
    next
      case (Cons c3 t3)
      with assms t 1 show ?thesis by (cases t3) (auto simp: CATEGORY_SEPARATOR_def)
    qed
  qed
qed

lemma py_contains_append: "py_contains p t \<Longrightarrow> py_contains p (s @ t)"
proof (induction s)
  case Nil
  then show ?case by simp
next
  case (Cons c s)
  then show ?case by simp
qed

lemma py_contains_startswith: "py_startswith s p \<Longrightarrow> py_contains p s"
  by (cases s) auto

lemma sep_split_unique:
  assumes "\<not> py_contains CATEGORY_SEPARATOR x" and "\<not> py_contains CATEGORY_SEPARATOR y"
    and eq: "x @ CATEGORY_SEPARATOR @ r = y @ CATEGORY_SEPARATOR @ r'"
  shows "x = y \<and> r = r'"
proof -
  from eq obtain t where "x = y @ t \<and> t @ CATEGORY_SEPARATOR @ r = CATEGORY_SEPARATOR @ r' \<or>
      x @ t = y \<and> CATEGORY_SEPARATOR @ r = t @ CATEGORY_SEPARATOR @ r'"
    unfolding append_eq_append_conv2 by blast
  moreover have "t = []" if "x = y @ t" "t @ CATEGORY_SEPARATOR @ r = CATEGORY_SEPARATOR @ r'"
    using sep_border [OF _ that(2)] that(1) assms(1)
    by (metis py_contains_append py_contains_startswith)
  moreover have "t = []" if "x @ t = y" "t @ CATEGORY_SEPARATOR @ r' = CATEGORY_SEPARATOR @ r"
    using sep_border [OF _ that(2)] that(1) assms(2)
    by (metis py_contains_append py_contains_startswith)
  ultimately show ?thesis by (metis append_Nil append_Nil2 append_same_eq same_append_eq)
qed

lemma sep_in_join:
  "py_contains CATEGORY_SEPARATOR (x @ CATEGORY_SEPARATOR @ r)"
  by (metis py_contains_append py_contains_startswith py_startswith_append)

lemma py_join_Cons: "xs \<noteq> [] \<Longrightarrow> py_join sep (x # xs) = x @ sep @ py_join sep xs"
  by (cases xs) simp_all

lemma py_join_inj:
  assumes "\<forall>c \<in> set xs. \<not> py_contains CATEGORY_SEPARATOR c"
    and "\<forall>c \<in> set ys. \<not> py_contains CATEGORY_SEPARATOR c"
    and "xs \<noteq> []" and "ys \<noteq> []"
    and "py_join CATEGORY_SEPARATOR xs = py_join CATEGORY_SEPARATOR ys"
  shows "xs = ys"
  using assms
proof (induction xs arbitrary: ys)
  case Nil
  then show ?case by simp
next
  case (Cons x xs)
  obtain y ys' where ys: "ys = y # ys'" using Cons.prems(4) by (cases ys) auto
  have no_sep: "\<not> py_contains CATEGORY_SEPARATOR x" "\<not> py_contains CATEGORY_SEPARATOR y"
    using Cons.prems(1,2) ys by auto
  show ?case
  proof (cases "xs = [] \<or> ys' = []")
    case True
    have "xs = [] \<and> ys' = []"
    proof (rule ccontr)
      assume "\<not> (xs = [] \<and> ys' = [])"
      with True Cons.prems(5) ys
      have "(\<exists>r. x = y @ CATEGORY_SEPARATOR @ r) \<or> (\<exists>r. y = x @ CATEGORY_SEPARATOR @ r)"
        by (auto simp: py_join_Cons)
      with no_sep show False using sep_in_join by blast
    qed
    with Cons.prems(5) ys show ?thesis by simp
  next
    case False
    then have "x = y \<and> py_join CATEGORY_SEPARATOR xs = py_join CATEGORY_SEPARATOR ys'"
      using Cons.prems(5) ys no_sep by (intro sep_split_unique) (auto simp: py_join_Cons)
    with Cons.IH [of ys'] Cons.prems ys False show ?thesis by simp
  qed
qed

lemma clean_categories_trimmed:
  "\<forall>c \<in> set cs. c \<noteq> [] \<and> trimmed c \<Longrightarrow> clean_categories cs = cs"
  by (induction cs) (auto simp: clean_categories_def py_strip_trimmed)

lemma clean_json_categories_JStr: "clean_json_categories (map JStr cs) = clean_categories cs"
  by (induction cs) (auto simp: clean_categories_def)

section \<open>Properties\<close>

text \<open>The pointing prompt and its inverse: the phrase recovered from a prompt that \<open>point_to\<close> built is the
  stripped phrase it was built from.
\<close>

theorem point_phrase_inverts_point_to:
  assumes "py_strip phrase \<noteq> []"
  shows "bindr (point_to phrase) point_phrase = Inr (py_strip phrase)"
  using assms by (simp add: point_to_ok point_phrase_prefix)

lemma point_phrase_inverts_point_to_witness:
  "bindr (point_to '' a cat. '') point_phrase = Inr (py_strip '' a cat. '')"
  by (rule point_phrase_inverts_point_to) (simp add: py_strip_def py_rstrip_def py_lstrip_def py_isspace_def)

end
