(* ===== verification/Prompt_Validator.thy ===== *)
theory Prompt_Validator
  imports Prompts
begin

text \<open>
  \<^verbatim>\<open>rust_server/src/prompt_validator.rs\<close> (with the request types of
  \<^verbatim>\<open>protocol.rs\<close>): the front end compiles a typed request into a prompt string after checking its slots.
  It is the other half of the contract of \<^verbatim>\<open>worker/prompts.py\<close>: the lemmas show that whatever it accepts
  is exactly what the Python builders produce, is classified by the Python side under the
  same wire name, and that the worker recovers the queried phrase of a point request.

  The Unicode normalisation test is the \<open>unicode_normalization\<close> crate's; it is the
  argument \<open>nfc\<close> of the definitions, and nothing is assumed of it.
\<close>

datatype prompt_request =
    Detection "string list"
  | PhraseSingle string
  | PhraseMulti string
  | TextGrounding string
  | SceneText
  | GuiBox string
  | Point string

datatype template_kind =
  KDetection | KPhraseSingle | KPhraseMulti | KTextGrounding | KSceneText | KGuiBox | KPoint

fun wire_name :: "template_kind \<Rightarrow> string" where
  "wire_name KDetection = ''detection''"
| "wire_name KPhraseSingle = ''phrase_single''"
| "wire_name KPhraseMulti = ''phrase_multi''"
| "wire_name KTextGrounding = ''text_grounding''"
| "wire_name KSceneText = ''scene_text''"
| "wire_name KGuiBox = ''gui_box''"
| "wire_name KPoint = ''point''"

datatype slot_error =
    SlotEmpty | SlotTooLong nat | SlotPadded | SlotControl char | SlotNotNfc
  | SlotSeparator | SlotTrailingPeriod | SlotComma | NoCategories | TooManyCategories nat
  | PromptTooLong nat

definition MAX_SLOT_CHARS :: nat where "MAX_SLOT_CHARS = 200"
definition MAX_DETECTION_CATEGORIES :: nat where "MAX_DETECTION_CATEGORIES = 10"
definition MAX_PROMPT_CHARS :: nat where "MAX_PROMPT_CHARS = 16384"

text \<open>\<open>char::is_whitespace\<close> (White\_Space) and \<open>char::is_control\<close> (category Cc) on Latin-1.\<close>

definition rs_is_whitespace :: "char \<Rightarrow> bool" where
  "rs_is_whitespace c \<longleftrightarrow> (let n = of_char c :: nat in
     (9 \<le> n \<and> n \<le> 13) \<or> n = 32 \<or> n = 133 \<or> n = 160)"

definition rs_is_control :: "char \<Rightarrow> bool" where
  "rs_is_control c \<longleftrightarrow> (let n = of_char c :: nat in n \<le> 31 \<or> (127 \<le> n \<and> n \<le> 159))"

definition rs_trim :: "string \<Rightarrow> string" where
  "rs_trim s = rev (dropWhile rs_is_whitespace (rev (dropWhile rs_is_whitespace s)))"

definition validate_slot :: "(string \<Rightarrow> bool) \<Rightarrow> string \<Rightarrow> bool \<Rightarrow> slot_error + unit" where
  "validate_slot nfc slot forbid_comma =
     (if slot = [] then Inl SlotEmpty
      else if length slot > MAX_SLOT_CHARS then Inl (SlotTooLong (length slot))
      else if slot \<noteq> rs_trim slot then Inl SlotPadded
      else case find rs_is_control slot of
        Some c \<Rightarrow> Inl (SlotControl c)
      | None \<Rightarrow>
          if \<not> nfc slot then Inl SlotNotNfc
          else if py_contains CATEGORY_SEPARATOR slot then Inl SlotSeparator
          else if py_endswith slot ''.'' then Inl SlotTrailingPeriod
          else if forbid_comma \<and> CHR '','' \<in> set slot then Inl SlotComma
          else Inr ())"

fun validate_slots :: "(string \<Rightarrow> bool) \<Rightarrow> string list \<Rightarrow> slot_error + unit" where
  "validate_slots nfc [] = Inr ()"
| "validate_slots nfc (c # cs) =
     (case validate_slot nfc c True of Inl e \<Rightarrow> Inl e | Inr _ \<Rightarrow> validate_slots nfc cs)"

definition compile_detection :: "(string \<Rightarrow> bool) \<Rightarrow> string list \<Rightarrow> slot_error + string" where
  "compile_detection nfc categories =
     (if categories = [] then Inl NoCategories
      else if length categories > MAX_DETECTION_CATEGORIES
      then Inl (TooManyCategories (length categories))
      else case validate_slots nfc categories of
        Inl e \<Rightarrow> Inl e
      | Inr _ \<Rightarrow> Inr (DETECTION_PREFIX @ py_join CATEGORY_SEPARATOR categories @ ''.''))"

definition compile_phrase ::
  "(string \<Rightarrow> bool) \<Rightarrow> string \<Rightarrow> string \<Rightarrow> bool \<Rightarrow> slot_error + string" where
  "compile_phrase nfc pre slot forbid_comma =
     (case validate_slot nfc slot forbid_comma of
        Inl e \<Rightarrow> Inl e
      | Inr _ \<Rightarrow> Inr (pre @ slot @ ''.''))"

definition compile_body ::
  "(string \<Rightarrow> bool) \<Rightarrow> prompt_request \<Rightarrow> (slot_error + string) \<times> template_kind" where
  "compile_body nfc request =
     (case request of
        Detection cs \<Rightarrow> (compile_detection nfc cs, KDetection)
      | PhraseSingle p \<Rightarrow> (compile_phrase nfc SINGLE_PHRASE_PREFIX p False, KPhraseSingle)
      | PhraseMulti p \<Rightarrow> (compile_phrase nfc MULTI_PHRASE_PREFIX p False, KPhraseMulti)
      | TextGrounding t \<Rightarrow> (compile_phrase nfc TEXT_GROUNDING_PREFIX t False, KTextGrounding)
      | SceneText \<Rightarrow> (Inr SCENE_TEXT_EXACT, KSceneText)
      | GuiBox d \<Rightarrow> (compile_phrase nfc GUI_BOX_PREFIX d False, KGuiBox)
      | Point p \<Rightarrow> (compile_phrase nfc POINT_PREFIX p True, KPoint))"

definition compile :: "(string \<Rightarrow> bool) \<Rightarrow> prompt_request \<Rightarrow> slot_error + (string \<times> string)" where
  "compile nfc request =
     (case compile_body nfc request of
        (Inl e, _) \<Rightarrow> Inl e
      | (Inr prompt, kind) \<Rightarrow>
          if length prompt > MAX_PROMPT_CHARS then Inl (PromptTooLong (length prompt))
          else Inr (prompt, wire_name kind))"

text \<open>The Python builder for each variant, and the dict \<open>worker/prompts.py\<close> would advertise for it.\<close>

fun py_build :: "prompt_request \<Rightarrow> string res" where
  "py_build (Detection cs) = detect_categories cs"
| "py_build (PhraseSingle p) = ground_single p"
| "py_build (PhraseMulti p) = ground_multi p"
| "py_build (TextGrounding t) = ground_text t"
| "py_build SceneText = Inr detect_text"
| "py_build (GuiBox d) = ground_gui d ''box''"
| "py_build (Point p) = point_to p"

text \<open>What serde reads from a request object, tagged on \<open>task\<close>: exactly the fields of the variant, in any order.\<close>

fun json_strings :: "json list \<Rightarrow> string list option" where
  "json_strings [] = Some []"
| "json_strings (JStr s # js) = map_option (\<lambda>ss. s # ss) (json_strings js)"
| "json_strings (_ # js) = None"

text \<open>serde takes a struct from an object, or from an array of its fields in their order; a tag is then the first element.\<close>

definition as_struct :: "string list \<Rightarrow> json \<Rightarrow> json" where
  "as_struct keys j = (case j of JList vs \<Rightarrow> if length vs = length keys then JObj (zip keys vs) else j | _ \<Rightarrow> j)"

lemma as_struct_obj [simp]: "as_struct keys (JObj kvs) = JObj kvs"
  by (simp add: as_struct_def)

definition decode_slot :: "string \<Rightarrow> (string \<Rightarrow> prompt_request) \<Rightarrow> json \<Rightarrow> prompt_request option" where
  "decode_slot key variant j = (let j = as_struct [''task'', key] j in
     (if exact_keys [''task'', key] j
      then (case jget j key of Some (JStr v) \<Rightarrow> Some (variant v) | _ \<Rightarrow> None) else None))"

definition decode_request :: "json \<Rightarrow> prompt_request option" where
  "decode_request j =
     (case (case j of JList (tag # _) \<Rightarrow> Some tag | _ \<Rightarrow> jget j ''task'') of
        Some (JStr task) \<Rightarrow>
          if task = ''detection''
          then (let j = as_struct [''task'', ''categories''] j in
                if exact_keys [''task'', ''categories''] j
                then (case jget j ''categories'' of
                    Some (JList vs) \<Rightarrow> map_option Detection (json_strings vs) | _ \<Rightarrow> None)
                else None)
          else if task = ''phrase_single'' then decode_slot ''phrase'' PhraseSingle j
          else if task = ''phrase_multi'' then decode_slot ''phrase'' PhraseMulti j
          else if task = ''text_grounding'' then decode_slot ''text'' TextGrounding j
          else if task = ''scene_text'' then (if exact_keys [''task''] (as_struct [''task''] j) then Some SceneText else None)
          else if task = ''gui_box'' then decode_slot ''description'' GuiBox j
          else if task = ''point'' then decode_slot ''phrase'' Point j
          else None
      | _ \<Rightarrow> None)"

lemma decode_request_array:
  "decode_request (JList [JStr ''point'', JStr v]) = decode_request (JObj [(''task'', JStr ''point''), (''phrase'', JStr v)])"
  by (simp add: decode_request_def decode_slot_def as_struct_def)

lemma json_strings_map [simp]: "json_strings (map JStr ss) = Some ss"
  by (induction ss) simp_all

section \<open>Lemmas\<close>

lemma rs_space_control:
  "py_isspace c \<Longrightarrow> \<not> rs_is_control c \<Longrightarrow> rs_is_whitespace c"
  by (auto simp: py_isspace_def rs_is_control_def rs_is_whitespace_def Let_def)

lemma rs_trim_fixed_ends:
  assumes "rs_trim s = s" and "s \<noteq> []"
  shows "\<not> rs_is_whitespace (hd s)" and "\<not> rs_is_whitespace (last s)"
proof -
  let ?d = "dropWhile rs_is_whitespace"
  have len: "length (?d (rev (?d s))) \<le> length (?d s)" "length (?d s) \<le> length s"
    using length_dropWhile_le [of rs_is_whitespace "rev (?d s)"]
      length_dropWhile_le [of rs_is_whitespace s] by simp_all
  have eq: "rev (?d (rev (?d s))) = s" using assms(1) by (simp add: rs_trim_def)
  then have "length (?d (rev (?d s))) = length s" by (metis length_rev)
  with len have "length (?d s) = length s" by simp
  then have ds: "?d s = s"
    by (metis append_Nil append_eq_append_conv takeWhile_dropWhile_id length_append
        add_cancel_left_left length_0_conv)
  with assms(2) show "\<not> rs_is_whitespace (hd s)" by (metis hd_dropWhile)
  from eq ds have "?d (rev s) = rev s" by (metis rev_rev_ident)
  with assms(2) show "\<not> rs_is_whitespace (last s)"
    by (metis hd_dropWhile hd_rev rev_is_Nil_conv)
qed

lemma find_None_all: "find P xs = None \<Longrightarrow> x \<in> set xs \<Longrightarrow> \<not> P x"
  by (simp add: find_None_iff)

text \<open>What acceptance of a slot guarantees to the Python side.\<close>

lemma validate_slot_ok:
  assumes "validate_slot nfc s b = Inr u"
  shows "s \<noteq> []" and "trimmed s" and "\<not> py_contains CATEGORY_SEPARATOR s"
    and "\<not> py_endswith s ''.''" and "length s \<le> 200"
proof -
  from assms have s: "s \<noteq> []" "rs_trim s = s" "find rs_is_control s = None"
    "\<not> py_contains CATEGORY_SEPARATOR s" "\<not> py_endswith s ''.''" "length s \<le> 200"
    by (auto simp: validate_slot_def MAX_SLOT_CHARS_def split: if_splits option.splits)
  then show "s \<noteq> []" "\<not> py_contains CATEGORY_SEPARATOR s" "\<not> py_endswith s ''.''"
    "length s \<le> 200" by blast+
  have "\<not> rs_is_control (hd s)" "\<not> rs_is_control (last s)"
    using find_None_all [OF s(3)] s(1) by simp_all
  with rs_trim_fixed_ends [OF s(2,1)] show "trimmed s"
    unfolding trimmed_def by (metis rs_space_control)
qed

lemma validate_slots_ok:
  "validate_slots nfc cs = Inr u \<Longrightarrow>
   \<forall>c \<in> set cs. c \<noteq> [] \<and> trimmed c \<and> \<not> py_contains CATEGORY_SEPARATOR c"
  by (induction cs) (auto split: sum.splits dest: validate_slot_ok)

lemma compile_detection_ok:
  assumes "compile_detection nfc cs = Inr p"
  shows "detect_categories cs = Inr p" "p = DETECTION_PREFIX @ py_join CATEGORY_SEPARATOR cs @ ''.''"
    "cs \<noteq> []" "\<forall>c \<in> set cs. \<not> py_contains CATEGORY_SEPARATOR c"
proof -
  from assms have v: "validate_slots nfc cs = Inr ()" and "cs \<noteq> []"
    and p: "p = DETECTION_PREFIX @ py_join CATEGORY_SEPARATOR cs @ ''.''"
    by (auto simp: compile_detection_def split: if_splits sum.splits)
  from validate_slots_ok [OF v] have "clean_categories cs = cs"
    by (intro clean_categories_trimmed) blast
  with p \<open>cs \<noteq> []\<close> show "detect_categories cs = Inr p"
    by (simp add: detect_categories_def)
  show "p = DETECTION_PREFIX @ py_join CATEGORY_SEPARATOR cs @ ''.''" "cs \<noteq> []" by fact+
  show "\<forall>c \<in> set cs. \<not> py_contains CATEGORY_SEPARATOR c"
    using validate_slots_ok [OF v] by blast
qed

lemma compile_phrase_ok:
  assumes "compile_phrase nfc pre s b = Inr p"
  shows "p = pre @ s @ ''.'' \<and> s \<noteq> [] \<and> py_strip s = s"
  using assms validate_slot_ok [of nfc s b]
  by (auto simp: compile_phrase_def py_strip_trimmed split: sum.splits)

lemma compile_body_build:
  assumes "compile_body nfc request = (Inr prompt, kind)"
  shows "py_build request = Inr prompt \<and> classify_prompt prompt = Inr (wire_name kind)"
proof (cases request)
  case (Detection cs)
  with assms have "compile_detection nfc cs = Inr prompt" "kind = KDetection"
    by (auto simp: compile_body_def)
  with compile_detection_ok [of nfc cs prompt] Detection show ?thesis
    by (simp add: classify_simps)
qed (use assms in \<open>auto simp: compile_body_def ground_single_def ground_multi_def ground_text_def
      ground_gui_def point_to_def detect_text_def classify_simps dest!: compile_phrase_ok\<close>)


lemma compile_cases:
  "compile nfc request = Inr (prompt, name) \<Longrightarrow>
   \<exists>kind. compile_body nfc request = (Inr prompt, kind) \<and> name = wire_name kind \<and>
     length prompt \<le> MAX_PROMPT_CHARS"
  by (auto simp: compile_def split: prod.splits sum.splits if_splits)

lemma compile_python:
  assumes "compile nfc request = Inr (prompt, name)"
  shows "py_build request = Inr prompt \<and> classify_prompt prompt = Inr name
    \<and> name \<in> set TEMPLATE_WIRE_NAMES \<and> prompt \<noteq> [] \<and> length prompt \<le> 16384"
proof -
  from compile_cases [OF assms] obtain kind where
    k: "compile_body nfc request = (Inr prompt, kind)" "name = wire_name kind"
    and len: "length prompt \<le> MAX_PROMPT_CHARS" by blast
  from compile_body_build [OF k(1)] k(2)
  have b: "py_build request = Inr prompt" "classify_prompt prompt = Inr name" by auto
  then have "prompt \<noteq> []" by (auto simp: classify_prompt_def prefix_defs)
  with b len classify_wire_name [OF b(2)] show ?thesis by (simp add: MAX_PROMPT_CHARS_def)
qed

section \<open>Properties\<close>

text \<open>
  C18. Whatever typed request the Rust front end accepts, the prompt it sends is the one
  \<open>worker/prompts.py\<close> builds for the same slots, \<open>classify_prompt\<close> gives it the wire name the
  front end puts in the IPC header, and the prompt passes the worker's length check.
\<close>
theorem compile_agrees_with_python:
  assumes "compile nfc request = Inr (prompt, name)"
  shows "py_build request = Inr prompt \<and> classify_prompt prompt = Inr name
    \<and> name \<in> set TEMPLATE_WIRE_NAMES \<and> prompt \<noteq> [] \<and> length prompt \<le> 16384"
  by (rule compile_python [OF assms])

theorem compile_agrees_with_python_witness:
  "py_build (Detection [''cat'', ''dog'']) =
     Inr (DETECTION_PREFIX @ ''cat</c>dog.'') \<and>
   classify_prompt (DETECTION_PREFIX @ ''cat</c>dog.'') = Inr ''detection''"
proof -
  have "compile (\<lambda>_. True) (Detection [''cat'', ''dog'']) =
      Inr (DETECTION_PREFIX @ ''cat</c>dog.'', ''detection'')"
    by code_simp
  from compile_agrees_with_python [OF this] show ?thesis by simp
qed

text \<open>
  For an accepted \<open>point\<close> request the worker's \<open>point_phrase\<close> recovers, from the compiled
  prompt alone, exactly the phrase the client sent: the label of every bare point.
\<close>
theorem point_phrase_recovers_client_phrase:
  assumes "compile nfc (Point phrase) = Inr (prompt, name)"
  shows "name = ''point'' \<and> point_phrase prompt = Inr phrase \<and> phrase \<noteq> []"
proof -
  from compile_cases [OF assms] have "compile_phrase nfc POINT_PREFIX phrase True = Inr prompt"
    and "name = ''point''" by (auto simp: compile_body_def)
  with compile_phrase_ok [of nfc POINT_PREFIX phrase True prompt] show ?thesis
    by (simp add: point_phrase_prefix)
qed

theorem point_phrase_recovers_client_phrase_witness:
  "point_phrase ''Point to: the U.S. flag.'' = Inr ''the U.S. flag''"
proof -
  have "compile (\<lambda>_. True) (Point ''the U.S. flag'') = Inr (''Point to: the U.S. flag.'', ''point'')"
    by code_simp
  from point_phrase_recovers_client_phrase [OF this] show ?thesis by simp
qed

text \<open>
  A compiled detection prompt determines its category list: accepted requests for
  different category lists (even the same categories in another order) never share a prompt.
\<close>
theorem detection_prompt_determines_categories:
  assumes "compile nfc (Detection cs) = Inr (p, n)" and "compile nfc (Detection ds) = Inr (q, m)"
    and "cs \<noteq> ds"
  shows "p \<noteq> q"
proof
  assume pq: "p = q"
  from compile_cases [OF assms(1)] compile_cases [OF assms(2)]
  have c: "compile_detection nfc cs = Inr p" and d: "compile_detection nfc ds = Inr p"
    by (auto simp: compile_body_def pq)
  have "cs = ds"
    using compile_detection_ok(2,3,4) [OF c] compile_detection_ok(2,3,4) [OF d]
    by (intro py_join_inj) auto
  with assms(3) show False ..
qed

theorem detection_prompt_determines_categories_witness:
  "compile (\<lambda>_. True) (Detection [''a'', ''b'']) \<noteq> compile (\<lambda>_. True) (Detection [''ab''])"
proof -
  have 1: "compile (\<lambda>_. True) (Detection [''a'', ''b'']) = Inr (DETECTION_PREFIX @ ''a</c>b.'', ''detection'')"
    and 2: "compile (\<lambda>_. True) (Detection [''ab'']) = Inr (DETECTION_PREFIX @ ''ab.'', ''detection'')"
    by code_simp+
  from detection_prompt_determines_categories [OF 1 2] 1 2 show ?thesis by simp
qed

end
