(* ===== verification/Py_Float.thy ===== *)
theory Py_Float
  imports Py_Str Complex_Main "HOL-Library.Log_Nat"
begin

text \<open>
  Python's \<open>float\<close> (IEEE 754 binary64). A finite float is its exact value, a rational;
  \<open>fl x\<close> is the float nearest to the rational \<open>x\<close>, ties to the even significand, with
  gradual underflow at \<open>2 powi (-1074)\<close>. An arithmetic operation of the code is the exact operation
  followed by \<open>fl\<close>, which is what the hardware computes; \<open>int / int\<close> is \<open>fl (a / b)\<close>,
  as CPython's true division is correctly rounded. The numbers of this program stay far
  below \<open>2 ^ 1024\<close>, so overflow to infinity is not modelled, nor are NaNs, and the two
  signed zeros are one number.
  The lemmas give what the component proofs use: \<open>fl\<close> is monotone, leaves a float
  unchanged (in particular every integer up to \<open>2 ^ 53\<close>), and has a relative error of at
  most \<open>2 powi (-53)\<close>.
\<close>

section \<open>Rounding to an integer, ties to even\<close>

definition rne :: "rat \<Rightarrow> int" where
  "rne x = (let f = \<lfloor>x\<rfloor>; d = x - of_int f
            in if d < 1/2 \<or> (d = 1/2 \<and> even f) then f else f + 1)"

text \<open>\<open>int(x)\<close> truncates towards zero.\<close>

definition py_trunc :: "rat \<Rightarrow> int" where
  "py_trunc x = (if 0 \<le> x then \<lfloor>x\<rfloor> else \<lceil>x\<rceil>)"

section \<open>Rounding to binary64\<close>

text \<open>\<open>ilog2 x\<close> is the exponent of the leading bit of a positive rational.\<close>

definition ilog2 :: "rat \<Rightarrow> int" where
  "ilog2 x = (if 1 \<le> x then bitlen \<lfloor>x\<rfloor> - 1 else - bitlen (\<lceil>1 / x\<rceil> - 1))"

definition fexp :: "rat \<Rightarrow> int" where
  "fexp x = max (ilog2 \<bar>x\<bar> - 52) (- 1074)"

definition fl :: "rat \<Rightarrow> rat" where
  "fl x = (if x = 0 then 0
           else let u = 2 powi fexp x in of_int (rne (x / u)) * u)"

definition is_float :: "rat \<Rightarrow> bool" where
  "is_float x \<longleftrightarrow> fl x = x"

text \<open>\<open>round(x, n)\<close> on a float: correctly rounded to \<open>n\<close> decimals, then back to a float.\<close>

definition py_round :: "nat \<Rightarrow> rat \<Rightarrow> rat" where
  "py_round n x = fl (of_int (rne (x * 10 ^ n)) / 10 ^ n)"

text \<open>
  \<open>float(s)\<close>: blanks around, a sign, digits with an optional point, an optional exponent. The
  spellings of infinities and NaNs, which have no value here, are not accepted.
\<close>

definition digits_or_empty :: "string \<Rightarrow> string option" where
  "digits_or_empty s = (if s = [] then Some [] else underscore_digits s)"

definition py_float :: "string \<Rightarrow> rat res" where
  "py_float s = (case py_sign (py_strip s) of (sg, t) \<Rightarrow>
     let m = takeWhile (\<lambda>c. c \<noteq> CHR ''e'' \<and> c \<noteq> CHR ''E'') t;
         e = drop (length m) t;
         ip = takeWhile (\<lambda>c. c \<noteq> CHR ''.'') m;
         fp = drop (Suc (length ip)) m;
         ex = (case e of [] \<Rightarrow> Some 0
               | _ # es \<Rightarrow> (case py_sign es of (esg, ed) \<Rightarrow>
                   map_option (\<lambda>ds. esg * int (nat_of_digits ds)) (underscore_digits ed)))
     in (case (digits_or_empty ip, digits_or_empty fp, ex) of
           (Some i, Some f, Some x) \<Rightarrow>
             if i = [] \<and> f = [] then raise ValueError ''could not convert string to float''
             else ret (fl (of_int sg * of_nat (nat_of_digits (i @ f)) * 10 powi (x - int (length f))))
         | _ \<Rightarrow> raise ValueError ''could not convert string to float''))"

section \<open>Lemmas on rne\<close>

lemma rne_of_int [simp]: "rne (of_int n) = n"
  by (simp add: rne_def)

lemma rne_0 [simp]: "rne 0 = 0"
  using rne_of_int [of 0] by simp

lemma rne_ge_floor: "\<lfloor>x\<rfloor> \<le> rne x" and rne_le_floor: "rne x \<le> \<lfloor>x\<rfloor> + 1"
  by (simp_all add: rne_def Let_def)

lemma rne_mono: "x \<le> y \<Longrightarrow> rne x \<le> rne y"
proof (cases "\<lfloor>x\<rfloor> = \<lfloor>y\<rfloor>")
  case True
  assume "x \<le> y"
  with True show ?thesis by (auto simp: rne_def Let_def)
next
  case False
  assume "x \<le> y"
  then have "\<lfloor>x\<rfloor> \<le> \<lfloor>y\<rfloor>" by (rule floor_mono)
  with False rne_le_floor [of x] rne_ge_floor [of y] show ?thesis by linarith
qed

lemma rne_error: "\<bar>of_int (rne x) - x\<bar> \<le> 1 / 2"
proof -
  have "of_int \<lfloor>x\<rfloor> \<le> x" "x < of_int \<lfloor>x\<rfloor> + 1" by linarith+
  then show ?thesis by (auto simp: rne_def Let_def abs_le_iff)
qed

lemma rne_le_int: "x \<le> of_int n \<Longrightarrow> rne x \<le> n" and rne_ge_int: "of_int n \<le> x \<Longrightarrow> n \<le> rne x"
  using rne_mono [of x "of_int n"] rne_mono [of "of_int n" x] by simp_all

lemma rne_nonneg: "0 \<le> x \<Longrightarrow> 0 \<le> rne x"
  using rne_ge_int [of 0 x] by simp

lemma rne_minus: "rne (- x) = - rne x"
proof (cases "x = of_int \<lfloor>x\<rfloor>")
  case True
  then show ?thesis by (metis of_int_minus rne_of_int)
next
  case False
  then have f: "\<lfloor>- x\<rfloor> = - \<lfloor>x\<rfloor> - 1" by linarith
  have "x - of_int \<lfloor>x\<rfloor> < 1/2 \<longleftrightarrow> \<not> (- x - of_int \<lfloor>- x\<rfloor> < 1/2) \<and> - x - of_int \<lfloor>- x\<rfloor> \<noteq> 1/2"
    "x - of_int \<lfloor>x\<rfloor> = 1/2 \<longleftrightarrow> - x - of_int \<lfloor>- x\<rfloor> = 1/2"
    unfolding f by auto
  then show ?thesis using f by (simp add: rne_def Let_def)
qed

lemma rne_near: "\<bar>x - of_int n\<bar> < 1 / 2 \<Longrightarrow> rne x = n"
  using rne_error [of x] by linarith

section \<open>Lemmas on ilog2\<close>

lemma two_powi_pos [simp]: "0 < (2 :: rat) powi e" "(2 :: rat) powi e \<noteq> 0" "0 \<le> (2 :: rat) powi e"
  by simp_all

lemma two_powi_mono: "e \<le> e' \<Longrightarrow> (2 :: rat) powi e \<le> 2 powi e'"
  by (rule power_int_increasing) simp_all

lemma two_powi_less: "e < e' \<Longrightarrow> (2 :: rat) powi e < 2 powi e'"
  by (rule power_int_strict_increasing) simp_all

lemma two_powi_less_cancel: "(2 :: rat) powi e < 2 powi e' \<Longrightarrow> e < e'"
  by (metis leD leI two_powi_mono)

lemma two_powi_of_nat: "0 \<le> e \<Longrightarrow> (2 :: rat) powi e = of_int (2 ^ nat e)"
  by (simp add: power_int_def)

lemma ilog2_bounds:
  assumes "0 < x"
  shows "2 powi ilog2 x \<le> x" and "x < 2 powi (ilog2 x + 1)"
proof -
  have "2 powi ilog2 x \<le> x \<and> x < 2 powi (ilog2 x + 1)"
  proof (cases "1 \<le> x")
    case True
    let ?n = "\<lfloor>x\<rfloor>"
    from True have n: "1 \<le> ?n" by simp
    then have b: "2 ^ nat (bitlen ?n - 1) \<le> ?n" "?n < 2 ^ nat (bitlen ?n)"
      using bitlen_bounds [of ?n] by simp_all
    from n have b0: "1 \<le> bitlen ?n"
      by (metis bitlen_le_iff_power bitlen_nonneg int_one_le_iff_zero_less le_less nat_0
          not_le order_less_le power_0 zero_less_one)
    have "of_int (2 ^ nat (bitlen ?n - 1)) \<le> x" using b(1) by (meson le_floor_iff)
    moreover have "x < of_int (2 ^ nat (bitlen ?n))" using b(2) by (meson floor_less_iff)
    ultimately show ?thesis using True b0 by (simp add: ilog2_def two_powi_of_nat)
  next
    case False
    let ?c = "\<lceil>1 / x\<rceil> - 1"
    from False assms have "1 < 1 / x" by simp
    then have c: "1 \<le> ?c" by (simp add: less_ceiling_iff)
    then have b: "2 ^ nat (bitlen ?c - 1) \<le> ?c" "?c < 2 ^ nat (bitlen ?c)"
      using bitlen_bounds [of ?c] by simp_all
    from c have b0: "1 \<le> bitlen ?c"
      by (metis bitlen_le_iff_power bitlen_nonneg int_one_le_iff_zero_less le_less nat_0
          not_le order_less_le power_0 zero_less_one)
    have lo: "of_int (2 ^ nat (bitlen ?c - 1)) < 1 / x"
      using b(1) by (meson le_less_trans less_ceiling_iff zle_diff1_eq not_le)
    have hi: "1 / x \<le> of_int (2 ^ nat (bitlen ?c))"
    proof -
      from b(2) have "\<lceil>1 / x\<rceil> \<le> 2 ^ nat (bitlen ?c)" by linarith
      then show ?thesis by (simp only: ceiling_le_iff)
    qed
    have 1: "2 powi (bitlen ?c - 1) < 1 / x" and 2: "1 / x \<le> 2 powi bitlen ?c"
      using lo hi b0 by (simp_all add: two_powi_of_nat)
    have "2 powi (- bitlen ?c) = inverse (2 powi bitlen ?c :: rat)"
      by (rule power_int_minus)
    also have "\<dots> \<le> x" using 2 assms by (simp add: field_simps)
    finally have l: "2 powi (- bitlen ?c) \<le> x" .
    have "2 powi (- bitlen ?c + 1) = inverse (2 powi (bitlen ?c - 1) :: rat)"
      by (metis add.commute diff_minus_eq_add minus_diff_eq power_int_minus uminus_add_conv_diff)
    moreover have "x < inverse (2 powi (bitlen ?c - 1))" using 1 assms by (simp add: field_simps)
    ultimately have "x < 2 powi (- bitlen ?c + 1)" by simp
    with l False show ?thesis by (simp add: ilog2_def)
  qed
  then show "2 powi ilog2 x \<le> x" and "x < 2 powi (ilog2 x + 1)" by blast+
qed

lemma ilog2_unique:
  assumes "2 powi e \<le> x" and "x < 2 powi (e + 1)"
  shows "ilog2 x = e"
proof -
  from assms(1) have x: "0 < x" by (metis less_le_trans two_powi_pos(1))
  have "(2 :: rat) powi e < 2 powi (ilog2 x + 1)" "(2 :: rat) powi ilog2 x < 2 powi (e + 1)"
    using ilog2_bounds [OF x] assms by linarith+
  then show ?thesis using two_powi_less_cancel by (metis antisym zless_add1_eq less_le not_le)
qed

lemma ilog2_mono: "0 < x \<Longrightarrow> x \<le> y \<Longrightarrow> ilog2 x \<le> ilog2 y"
proof -
  assume "0 < x" "x \<le> y"
  then have "(2 :: rat) powi ilog2 x < 2 powi (ilog2 y + 1)"
    using ilog2_bounds [of x] ilog2_bounds [of y] by linarith
  then show ?thesis using two_powi_less_cancel by fastforce
qed


section \<open>Lemmas on fl\<close>

lemma fl_0 [simp]: "fl 0 = 0"
  by (simp add: fl_def)

lemma fexp_minus [simp]: "fexp (- x) = fexp x"
  by (simp add: fexp_def)

lemma fl_minus: "fl (- x) = - fl x"
  by (simp add: fl_def Let_def rne_minus)

lemma fexp_mono: "0 < x \<Longrightarrow> x \<le> y \<Longrightarrow> fexp x \<le> fexp y"
  using ilog2_mono [of x y] by (simp add: fexp_def)

lemma fl_nonneg: "0 \<le> x \<Longrightarrow> 0 \<le> fl x"
  by (auto simp: fl_def Let_def intro!: mult_nonneg_nonneg rne_nonneg)

lemma fl_nonpos: "x \<le> 0 \<Longrightarrow> fl x \<le> 0"
  using fl_nonneg [of "- x"] by (simp add: fl_minus)

text \<open>A multiple of a unit no smaller than the rounding unit is a float.\<close>

lemma two_powi_split: "e \<le> p \<Longrightarrow> (2 :: rat) powi p = of_int (2 ^ nat (p - e)) * 2 powi e"
proof -
  assume "e \<le> p"
  have "(2 :: rat) powi p = 2 powi (p - e) * 2 powi e" by (simp flip: power_int_add)
  with \<open>e \<le> p\<close> show ?thesis by (simp add: two_powi_of_nat)
qed

lemma fl_unit: "x \<noteq> 0 \<Longrightarrow> x = of_int k * 2 powi fexp x \<Longrightarrow> fl x = x"
proof -
  assume x0: "x \<noteq> 0" and x: "x = of_int k * 2 powi fexp x"
  define u where "u = (2 :: rat) powi fexp x"
  have "u \<noteq> 0" by (simp add: u_def)
  then have "x / u = of_int k" using x by (simp add: u_def [symmetric])
  then have "rne (x / u) = k" by simp
  moreover have "fl x = of_int (rne (x / u)) * u" using x0 by (simp add: fl_def Let_def u_def)
  ultimately show ?thesis using x by (simp add: u_def)
qed

lemma fl_grid:
  assumes "x = of_int m * 2 powi e" and "x \<noteq> 0" and "fexp x \<le> e"
  shows "fl x = x"
proof (rule fl_unit [OF assms(2)])
  show "x = of_int (m * 2 ^ nat (e - fexp x)) * 2 powi fexp x"
    using assms(1) two_powi_split [OF assms(3)] by (simp add: mult.assoc)
qed

lemma fl_powi: "- 1074 \<le> e \<Longrightarrow> fl (2 powi e) = 2 powi e"
proof (rule fl_grid [where m = 1])
  assume "- 1074 \<le> e"
  have "ilog2 (2 powi e) = e" by (rule ilog2_unique) (simp_all add: two_powi_less)
  with \<open>- 1074 \<le> e\<close> show "fexp (2 powi e) \<le> e" by (simp add: fexp_def)
qed simp_all

lemma fl_mono_pos:
  assumes "0 < x" and "x \<le> y"
  shows "fl x \<le> fl y"
proof (cases "fexp x = fexp y")
  case True
  have "x / 2 powi fexp x \<le> y / 2 powi fexp x" using assms by (simp add: divide_right_mono)
  with True assms show ?thesis
    by (auto simp: fl_def Let_def intro!: mult_right_mono rne_mono)
next
  case False
  with fexp_mono [OF assms] have less: "fexp x < fexp y" by simp
  from assms have y: "0 < y" by simp
  have fy: "fexp y = ilog2 y - 52" and ex: "ilog2 x - 52 \<le> fexp x"
    using less assms y by (auto simp: fexp_def)
  let ?p = "ilog2 y"
  have "ilog2 x + 1 \<le> ?p" using less fy ex by linarith
  then have xp: "x < 2 powi ?p"
    using ilog2_bounds(2) [OF assms(1)] two_powi_mono [of "ilog2 x + 1" ?p] by linarith
  have "x / 2 powi fexp x \<le> of_int (2 ^ nat (?p - fexp x))"
    using xp two_powi_split [of "fexp x" ?p] less fy
    by (simp add: pos_divide_le_eq del: of_int_power)
  then have "rne (x / 2 powi fexp x) \<le> 2 ^ nat (?p - fexp x)" by (rule rne_le_int)
  then have "(of_int (rne (x / 2 powi fexp x)) :: rat) \<le> of_int (2 ^ nat (?p - fexp x))"
    by (simp only: of_int_le_iff)
  then have "fl x \<le> of_int (2 ^ nat (?p - fexp x)) * 2 powi fexp x"
    using assms by (simp add: fl_def Let_def mult_right_mono del: of_int_power)
  also have "\<dots> = 2 powi ?p" using two_powi_split [of "fexp x" ?p] less fy by simp
  also have "\<dots> \<le> fl y"
  proof -
    have "of_int (2 ^ nat (?p - fexp y)) \<le> y / 2 powi fexp y"
      using ilog2_bounds(1) [OF y] two_powi_split [of "fexp y" ?p] fy
      by (simp add: pos_le_divide_eq del: of_int_power)
    then have "2 ^ nat (?p - fexp y) \<le> rne (y / 2 powi fexp y)" by (rule rne_ge_int)
    then have "(of_int (2 ^ nat (?p - fexp y)) :: rat) \<le> of_int (rne (y / 2 powi fexp y))"
      by (simp only: of_int_le_iff)
    then have "of_int (2 ^ nat (?p - fexp y)) * 2 powi fexp y \<le> fl y"
      using y by (simp add: fl_def Let_def mult_right_mono del: of_int_power)
    with two_powi_split [of "fexp y" ?p] fy show ?thesis by simp
  qed
  finally show ?thesis .
qed

lemma fl_mono [fl_bounds]: "x \<le> y \<Longrightarrow> fl x \<le> fl y"
proof -
  assume le: "x \<le> y"
  consider "0 < x" | "x \<le> 0" "0 \<le> y" | "y < 0" by linarith
  then show ?thesis
  proof cases
    case 1
    then show ?thesis using le by (rule fl_mono_pos)
  next
    case 2
    then show ?thesis using fl_nonpos [of x] fl_nonneg [of y] by linarith
  next
    case 3
    then show ?thesis using fl_mono_pos [of "- y" "- x"] le by (simp add: fl_minus)
  qed
qed


text \<open>The floats are exactly the integers of 53 bits scaled by a power of two.\<close>

lemma fl_rep:
  assumes "\<bar>m\<bar> \<le> 2 ^ 53" and "- 1074 \<le> e"
  shows "fl (of_int m * 2 powi e) = of_int m * 2 powi e"
proof -
  have pos: "fl (of_int m * 2 powi e) = of_int m * 2 powi e"
    if "0 < m" "m \<le> 2 ^ 53" for m :: int
  proof (cases "m = 2 ^ 53")
    case True
    have "(2 :: rat) powi (e + 53) = of_int m * 2 powi e"
      using two_powi_split [of e "e + 53"] True by simp
    with fl_powi [of "e + 53"] assms(2) show ?thesis by simp
  next
    case False
    let ?x = "of_int m * 2 powi e :: rat"
    have x: "0 < ?x" using that by simp
    have "m < 2 ^ 53" using that False by simp
    then have "(of_int m :: rat) < of_int (2 ^ 53)" by (simp only: of_int_less_iff)
    then have "?x < of_int (2 ^ nat (e + 53 - e)) * 2 powi e"
      by (intro mult_strict_right_mono) simp_all
    also have "\<dots> = 2 powi (e + 53)" by (rule two_powi_split [symmetric]) simp
    finally have "(2 :: rat) powi ilog2 ?x < 2 powi (e + 53)"
      using ilog2_bounds(1) [OF x] by linarith
    then have "ilog2 ?x < e + 53" by (rule two_powi_less_cancel)
    then have "fexp ?x \<le> e" using x assms(2) by (simp add: fexp_def)
    then show ?thesis using x by (intro fl_grid [where m = m and e = e]) auto
  qed
  consider "m = 0" | "0 < m" | "m < 0" by linarith
  then show ?thesis
  proof cases
    case 1
    then show ?thesis by simp
  next
    case 2
    then show ?thesis using pos assms by simp
  next
    case 3
    then show ?thesis using pos [of "- m"] assms by (simp add: fl_minus)
  qed
qed

lemma fl_unit_bound: "\<bar>rne (x / 2 powi fexp x)\<bar> \<le> 2 ^ 53"
proof (cases "x = 0")
  case True
  then show ?thesis by simp
next
  case False
  have "\<bar>x\<bar> < 2 powi (ilog2 \<bar>x\<bar> + 1)" using ilog2_bounds(2) [of "\<bar>x\<bar>"] False by simp
  also have "\<dots> \<le> 2 powi (fexp x + 53)" by (rule two_powi_mono) (simp add: fexp_def)
  also have "\<dots> = of_int (2 ^ 53) * 2 powi fexp x"
    using two_powi_split [of "fexp x" "fexp x + 53"] by simp
  finally have "\<bar>x / 2 powi fexp x\<bar> \<le> of_int (2 ^ 53)"
    by (simp add: abs_divide pos_divide_le_eq del: of_int_power)
  then have "x / 2 powi fexp x \<le> of_int (2 ^ 53)" "of_int (- (2 ^ 53)) \<le> x / 2 powi fexp x"
    unfolding of_int_minus by linarith+
  then show ?thesis using rne_le_int rne_ge_int by (metis abs_le_iff minus_le_iff)
qed

lemma fl_eq_rep: "\<exists>m e. \<bar>m\<bar> \<le> 2 ^ 53 \<and> - 1074 \<le> e \<and> fl x = of_int m * 2 powi e"
proof (intro exI conjI)
  show "\<bar>rne (x / 2 powi fexp x)\<bar> \<le> 2 ^ 53" by (rule fl_unit_bound)
  show "- 1074 \<le> fexp x" by (simp add: fexp_def)
  show "fl x = of_int (rne (x / 2 powi fexp x)) * 2 powi fexp x" by (simp add: fl_def Let_def)
qed

lemma fl_idem [simp, fl_exact]: "fl (fl x) = fl x"
  using fl_eq_rep [of x] by (auto simp: fl_rep)

lemma is_float_fl [simp, fl_exact]: "is_float (fl x)"
  by (simp add: is_float_def)

lemma is_float_0 [simp, fl_exact]: "is_float 0"
  by (simp add: is_float_def)

lemma is_float_rep:
  "is_float x \<longleftrightarrow> (\<exists>m e. \<bar>m\<bar> \<le> 2 ^ 53 \<and> - 1074 \<le> e \<and> x = of_int m * 2 powi e)"
  unfolding is_float_def by (metis fl_eq_rep fl_rep)

lemma fl_of_int [fl_exact]: "\<bar>n\<bar> \<le> 2 ^ 53 \<Longrightarrow> fl (of_int n) = of_int n"
  using fl_rep [of n 0] by simp

lemma fl_of_nat [fl_exact]: "n \<le> 2 ^ 53 \<Longrightarrow> fl (of_nat n) = of_nat n"
  using fl_of_int [of "int n"] by simp

lemma is_float_double [fl_exact]: "is_float x \<Longrightarrow> is_float (2 * x)"
proof -
  assume "is_float x"
  then obtain m e where m: "\<bar>m\<bar> \<le> 2 ^ 53" "- 1074 \<le> e" "x = of_int m * 2 powi e"
    by (auto simp: is_float_rep)
  have "2 * x = of_int m * 2 powi (e + 1)"
    using m(3) by (simp add: power_int_add)
  with m show ?thesis unfolding is_float_rep by (metis add_increasing2 zero_le_one)
qed

lemma fl_le_float: "x \<le> y \<Longrightarrow> is_float y \<Longrightarrow> fl x \<le> y"
  and fl_ge_float: "y \<le> x \<Longrightarrow> is_float y \<Longrightarrow> y \<le> fl x"
  using fl_mono [of x y] fl_mono [of y x] by (simp_all add: is_float_def)

text \<open>The relative error of a rounding, for numbers that are not subnormal.\<close>

lemma fl_error:
  assumes "2 powi (- 1022) \<le> \<bar>x\<bar>"
  shows "\<bar>fl x - x\<bar> \<le> \<bar>x\<bar> * 2 powi (- 53)"
proof -
  have x: "0 < \<bar>x\<bar>" using assms by (metis less_le_trans two_powi_pos(1))
  have "(2 :: rat) powi (- 1022) < 2 powi (ilog2 \<bar>x\<bar> + 1)"
    using assms ilog2_bounds(2) [OF x] by linarith
  then have e: "fexp x = ilog2 \<bar>x\<bar> - 52"
    using two_powi_less_cancel [of "- 1022" "ilog2 \<bar>x\<bar> + 1"] by (simp add: fexp_def)
  define u where "u = (2 :: rat) powi fexp x"
  have u: "0 < u" by (simp add: u_def)
  have "fl x - x = (of_int (rne (x / u)) - x / u) * u"
    using x u by (simp add: fl_def Let_def left_diff_distrib flip: u_def)
  then have "\<bar>fl x - x\<bar> \<le> (1 / 2) * u"
    using rne_error [of "x / u"] u by (simp add: abs_mult mult_right_mono)
  also have "\<dots> = 2 powi ilog2 \<bar>x\<bar> * 2 powi (- 53)"
  proof -
    have "2 powi ilog2 \<bar>x\<bar> * 2 powi (- 53) = (2 :: rat) powi (ilog2 \<bar>x\<bar> + (- 53))"
      by (rule power_int_add [symmetric]) simp
    also have "ilog2 \<bar>x\<bar> + (- 53) = fexp x - 1" by (simp add: e)
    also have "(2 :: rat) powi (fexp x - 1) = u / 2" by (simp add: u_def power_int_diff)
    finally show ?thesis by simp
  qed
  also have "\<dots> \<le> \<bar>x\<bar> * 2 powi (- 53)"
    using ilog2_bounds(1) [OF x] by (intro mult_right_mono) simp_all
  finally show ?thesis .
qed

end
