(* ===== verification/Tiling.thy ===== *)
theory Tiling
  imports Py_Float Py_Str "HOL-Library.Multiset"
begin

text \<open>
  \<^verbatim>\<open>worker/tiling.py\<close>: the tile grid, the mapping of a tile-local box to the image, the overlap ratio of
  two boxes and non-maximum suppression. Coordinates are binary64 values (theory Py_Float), every
  arithmetic operation rounds. A box is the 4-tuple its callers build; a detection for \<open>nms\<close> is its box
  and its label, which may be missing.
  The lemmas show that the tiles lie in the image and cover every pixel in spite of the rounding, that
  \<open>iou\<close> is a symmetric ratio between 0 and 1, and what \<open>nms\<close> keeps.
\<close>

section \<open>The grid\<close>

record tile =
  t_row :: int
  t_col :: int
  t_x0 :: int
  t_y0 :: int
  t_x1 :: int
  t_y1 :: int

definition tile_width :: "tile \<Rightarrow> int" where "tile_width t = t_x1 t - t_x0 t"
definition tile_height :: "tile \<Rightarrow> int" where "tile_height t = t_y1 t - t_y0 t"

text \<open>\<open>round(k * base)\<close> for an int \<open>k\<close>: the grid line before padding.\<close>

definition grid_line :: "rat \<Rightarrow> int \<Rightarrow> int" where
  "grid_line base k = rne (fl (fl (of_int k) * base))"

definition tile_at :: "int \<Rightarrow> int \<Rightarrow> rat \<Rightarrow> rat \<Rightarrow> int \<Rightarrow> int \<Rightarrow> int \<Rightarrow> int \<Rightarrow> tile" where
  "tile_at image_width image_height tile_w_base tile_h_base pad_x pad_y r c =
     \<lparr>t_row = r, t_col = c,
      t_x0 = max 0 (grid_line tile_w_base c - pad_x), t_y0 = max 0 (grid_line tile_h_base r - pad_y),
      t_x1 = min image_width (grid_line tile_w_base (c + 1) + pad_x),
      t_y1 = min image_height (grid_line tile_h_base (r + 1) + pad_y)\<rparr>"

definition grid :: "int \<Rightarrow> int \<Rightarrow> int \<Rightarrow> int \<Rightarrow> rat \<Rightarrow> tile list res" where
  "grid image_width image_height rows cols overlap_ratio =
     (if rows < 1 \<or> cols < 1 then raise ValueError ''rows and cols must be >= 1''
      else if \<not> (0 \<le> overlap_ratio \<and> overlap_ratio < 1 / 2)
      then raise ValueError ''overlap_ratio must be in [0.0, 0.5)''
      else
        let tile_w_base = fl (of_int image_width / of_int cols);
            tile_h_base = fl (of_int image_height / of_int rows);
            pad_x = rne (fl (tile_w_base * overlap_ratio));
            pad_y = rne (fl (tile_h_base * overlap_ratio))
        in ret (concat (map (\<lambda>r. map (\<lambda>c.
             tile_at image_width image_height tile_w_base tile_h_base pad_x pad_y r c)
             [0..cols - 1]) [0..rows - 1])))"

section \<open>Boxes\<close>

type_synonym bbox = "rat \<times> rat \<times> rat \<times> rat"

fun remap_box_to_global :: "bbox \<Rightarrow> tile \<Rightarrow> bbox" where
  "remap_box_to_global (x1, y1, x2, y2) t =
     (fl (fl (of_int (t_x0 t)) + x1), fl (fl (of_int (t_y0 t)) + y1),
      fl (fl (of_int (t_x0 t)) + x2), fl (fl (of_int (t_y0 t)) + y2))"

fun area :: "bbox \<Rightarrow> rat" where
  "area (x1, y1, x2, y2) = fl (max 0 (fl (x2 - x1)) * max 0 (fl (y2 - y1)))"

fun iou :: "bbox \<Rightarrow> bbox \<Rightarrow> rat" where
  "iou (ax1, ay1, ax2, ay2) (bx1, by1, bx2, by2) =
     (let ix1 = max ax1 bx1; iy1 = max ay1 by1; ix2 = min ax2 bx2; iy2 = min ay2 by2;
          iw = max 0 (fl (ix2 - ix1)); ih = max 0 (fl (iy2 - iy1));
          inter = fl (iw * ih)
      in if inter \<le> 0 then 0
         else let a_area = fl (max 0 (fl (ax2 - ax1)) * max 0 (fl (ay2 - ay1)));
                  b_area = fl (max 0 (fl (bx2 - bx1)) * max 0 (fl (by2 - by1)));
                  union = fl (fl (a_area + b_area) - inter)
              in if union \<le> 0 then 0 else fl (inter / union))"

section \<open>Non-maximum suppression\<close>

record nbox =
  nb_bbox :: bbox
  nb_label :: "string option"

definition is_dup :: "rat \<Rightarrow> bool \<Rightarrow> nbox \<Rightarrow> nbox \<Rightarrow> bool" where
  "is_dup iou_threshold label_aware b k \<longleftrightarrow>
     \<not> (label_aware \<and> nb_label b \<noteq> nb_label k) \<and> iou (nb_bbox b) (nb_bbox k) \<ge> iou_threshold"

text \<open>The loop over the sorted boxes, with the list kept so far.\<close>

fun nms_loop :: "rat \<Rightarrow> bool \<Rightarrow> nbox list \<Rightarrow> nbox list \<Rightarrow> nbox list" where
  "nms_loop thr aware keep [] = keep"
| "nms_loop thr aware keep (b # bs) =
     (if \<exists>k \<in> set keep. is_dup thr aware b k then nms_loop thr aware keep bs
      else nms_loop thr aware (keep @ [b]) bs)"

definition nms :: "nbox list \<Rightarrow> rat \<Rightarrow> bool \<Rightarrow> nbox list" where
  "nms boxes iou_threshold label_aware =
     nms_loop iou_threshold label_aware [] (sort_key (\<lambda>b. - area (nb_bbox b)) boxes)"

section \<open>Lemmas on the grid\<close>

text \<open>The base of a tile, times the number of tiles, is the image side up to an eighth of a pixel.\<close>

lemma fl_div_error:
  assumes "0 < W" "W \<le> 2 ^ 50" "0 < n" "n \<le> 2 ^ 50"
  shows "\<bar>of_int n * fl (of_int W / of_int n) - of_int W\<bar> \<le> (1 / 8 :: rat)"
proof -
  let ?q = "of_int W / of_int n :: rat"
  have n: "(0 :: rat) < of_int n" using assms(3) by simp
  have W: "(of_int W :: rat) \<le> 2 ^ 50"
    using assms(2) by (metis of_int_le_iff of_int_numeral of_int_power)
  have n50: "(of_int n :: rat) \<le> 2 ^ 50"
    using assms(4) by (metis of_int_le_iff of_int_numeral of_int_power)
  have W1: "(1 :: rat) \<le> of_int W" using assms(1) by simp
  have "(2 :: rat) powi (- 1022) \<le> 2 powi (- 50)" by (rule two_powi_mono) simp
  also have "\<dots> = 1 / 2 ^ 50" by (simp add: power_int_def power_divide)
  also have "\<dots> \<le> ?q"
    using n n50 W1 by (intro frac_le) simp_all
  finally have "2 powi (- 1022) \<le> ?q" .
  moreover have q: "0 < ?q" using assms by simp
  ultimately have big: "2 powi (- 1022) \<le> \<bar>?q\<bar>" by (simp only: abs_of_pos)
  have "\<bar>fl ?q - ?q\<bar> \<le> ?q * 2 powi (- 53)" using fl_error [OF big] q by simp
  then have "\<bar>fl ?q - ?q\<bar> * of_int n \<le> (?q * 2 powi (- 53)) * of_int n"
    using n by (intro mult_right_mono) simp_all
  also have "\<dots> = of_int W * 2 powi (- 53)" using n by simp
  also have "\<dots> \<le> 2 ^ 50 * 2 powi (- 53)" by (rule mult_right_mono) (use W in simp_all)
  also have "\<dots> = (1 / 8 :: rat)" by (simp add: power_int_def power_divide)
  finally have "\<bar>fl ?q - ?q\<bar> * of_int n \<le> 1 / 8" .
  moreover have "of_int n * fl ?q - of_int W = (fl ?q - ?q) * of_int n" using n by (simp add: field_simps)
  ultimately show ?thesis using n by (simp add: abs_mult)
qed

lemma grid_line_0 [simp]: "grid_line base 0 = 0"
  by (simp add: grid_line_def)

lemma grid_line_mono: "0 \<le> base \<Longrightarrow> j \<le> k \<Longrightarrow> grid_line base j \<le> grid_line base k"
  unfolding grid_line_def by (intro rne_mono fl_mono mult_right_mono) simp_all

lemma fl_eighth:
  assumes "\<bar>k\<bar> \<le> 2 ^ 53"
  shows "fl (of_int k / 8) = of_int k / 8"
  using fl_rep [of k "- 3"] assms by (simp add: power_int_def field_simps)

lemma grid_line_last:
  assumes "0 < W" "W \<le> 2 ^ 49" "0 < n" "n \<le> 2 ^ 49"
  shows "grid_line (fl (of_int W / of_int n)) n = W"
proof -
  let ?p = "of_int n * fl (of_int W / of_int n) :: rat"
  have n: "fl (of_int n) = of_int n" using assms by (intro fl_of_int) simp
  have e: "\<bar>?p - of_int W\<bar> \<le> 1 / 8" using fl_div_error [of W n] assms by simp
  have "of_int (8 * W - 1) / 8 = (of_int W - 1 / 8 :: rat)" "of_int (8 * W + 1) / 8 = (of_int W + 1 / 8 :: rat)"
    by simp_all
  then have lo: "of_int (8 * W - 1) / 8 \<le> ?p" and hi: "?p \<le> of_int (8 * W + 1) / 8"
    using e by linarith+
  have f: "fl (of_int (8 * W - 1) / 8) = of_int (8 * W - 1) / 8"
    "fl (of_int (8 * W + 1) / 8) = of_int (8 * W + 1) / 8"
    by (rule fl_eighth, use assms in simp)+
  have "of_int (8 * W - 1) / 8 \<le> fl ?p" using fl_mono [OF lo] unfolding f(1) .
  moreover have "fl ?p \<le> of_int (8 * W + 1) / 8" using fl_mono [OF hi] unfolding f(2) .
  ultimately have "\<bar>fl ?p - of_int W\<bar> < 1 / 2"
    using \<open>of_int (8 * W - 1) / 8 = of_int W - 1 / 8\<close> \<open>of_int (8 * W + 1) / 8 = of_int W + 1 / 8\<close>
    by linarith
  then show ?thesis unfolding grid_line_def n by (rule rne_near)
qed

text \<open>Between the first and the last grid line, some cell contains the coordinate.\<close>

lemma cell_exists:
  fixes L :: "int \<Rightarrow> int"
  assumes "L 0 \<le> x" "x < L (int n)"
  shows "\<exists>c. 0 \<le> c \<and> c < int n \<and> L c \<le> x \<and> x < L (c + 1)"
  using assms(2)
proof (induction n)
  case 0
  with assms(1) show ?case by simp
next
  case (Suc n)
  show ?case
  proof (cases "x < L (int n)")
    case True
    from Suc.IH [OF this] show ?thesis by auto
  next
    case False
    with Suc.prems show ?thesis by (intro exI [of _ "int n"]) (simp add: add.commute)
  qed
qed

definition grid_ok :: "int \<Rightarrow> int \<Rightarrow> bool" where
  "grid_ok W n \<longleftrightarrow> 0 < W \<and> W \<le> 2 ^ 49 \<and> 0 < n \<and> n \<le> 2 ^ 49"

lemma axis_cover:
  assumes "grid_ok W n" "0 \<le> x" "x < W" "0 \<le> pad"
  shows "\<exists>c. 0 \<le> c \<and> c < n \<and> max 0 (grid_line (fl (of_int W / of_int n)) c - pad) \<le> x \<and>
    x < min W (grid_line (fl (of_int W / of_int n)) (c + 1) + pad)"
proof -
  have "\<exists>c. 0 \<le> c \<and> c < int (nat n) \<and> grid_line (fl (of_int W / of_int n)) c \<le> x \<and>
      x < grid_line (fl (of_int W / of_int n)) (c + 1)"
    by (rule cell_exists) (use assms grid_line_last in \<open>simp_all add: grid_ok_def\<close>)
  then show ?thesis using assms by (auto simp: grid_ok_def)
qed

lemma axis_inside:
  assumes "grid_ok W n" "0 \<le> c" "c < n" "0 \<le> pad"
  shows "max 0 (grid_line (fl (of_int W / of_int n)) c - pad) \<le>
    min W (grid_line (fl (of_int W / of_int n)) (c + 1) + pad)"
proof -
  let ?L = "grid_line (fl (of_int W / of_int n))"
  have base: "0 \<le> fl (of_int W / of_int n)" using assms by (intro fl_nonneg) (simp add: grid_ok_def)
  have "?L n = W" using grid_line_last assms by (simp add: grid_ok_def)
  then have "?L c \<le> ?L (c + 1)" "?L c \<le> W" "0 \<le> ?L (c + 1)"
    using grid_line_mono [OF base, of c "c + 1"] grid_line_mono [OF base, of c n]
      grid_line_mono [OF base, of 0 "c + 1"] assms by simp_all
  then show ?thesis using assms by (simp add: grid_ok_def)
qed

lemma pad_nonneg: "0 \<le> W \<Longrightarrow> 0 < n \<Longrightarrow> 0 \<le> ratio \<Longrightarrow> 0 \<le> rne (fl (fl (of_int W / of_int n) * ratio))"
  by (intro rne_nonneg fl_nonneg mult_nonneg_nonneg) simp_all

section \<open>Lemmas on iou\<close>

lemma iou_sym: "iou a b = iou b a"
proof (cases a; cases b)
  fix ax1 ay1 ax2 ay2 bx1 by1 bx2 by2
  assume "a = (ax1, ay1, ax2, ay2)" "b = (bx1, by1, bx2, by2)"
  moreover have "max bx1 ax1 = max ax1 bx1" "max by1 ay1 = max ay1 by1"
    "min bx2 ax2 = min ax2 bx2" "min by2 ay2 = min ay2 by2"
    by (simp_all only: max.commute min.commute)
  moreover have "fl (max 0 (fl (bx2 - bx1)) * max 0 (fl (by2 - by1))) + fl (max 0 (fl (ax2 - ax1)) * max 0 (fl (ay2 - ay1))) =
      fl (max 0 (fl (ax2 - ax1)) * max 0 (fl (ay2 - ay1))) + fl (max 0 (fl (bx2 - bx1)) * max 0 (fl (by2 - by1)))"
    by (rule add.commute)
  ultimately show "iou a b = iou b a" by (simp only: iou.simps Let_def)
qed

lemma side_mono: "x1 \<le> x1' \<Longrightarrow> x2' \<le> x2 \<Longrightarrow> max 0 (fl (x2' - x1')) \<le> max 0 (fl (x2 - x1))"
  using fl_mono [of "x2' - x1'" "x2 - x1"] by auto

lemma iou_range: "0 \<le> iou a b \<and> iou a b \<le> 1"
proof (cases a; cases b)
  fix ax1 ay1 ax2 ay2 bx1 by1 bx2 by2
  assume ab: "a = (ax1, ay1, ax2, ay2)" "b = (bx1, by1, bx2, by2)"
  define inter where "inter = fl (max 0 (fl (min ax2 bx2 - max ax1 bx1)) * max 0 (fl (min ay2 by2 - max ay1 by1)))"
  define A where "A = fl (max 0 (fl (ax2 - ax1)) * max 0 (fl (ay2 - ay1)))"
  define B where "B = fl (max 0 (fl (bx2 - bx1)) * max 0 (fl (by2 - by1)))"
  define union where "union = fl (fl (A + B) - inter)"
  have eq: "iou a b = (if inter \<le> 0 then 0 else if union \<le> 0 then 0 else fl (inter / union))"
    by (simp add: ab inter_def A_def B_def union_def Let_def)
  have "inter \<le> A" unfolding inter_def A_def by (intro fl_mono mult_mono side_mono) simp_all
  moreover have "inter \<le> B" unfolding inter_def B_def by (intro fl_mono mult_mono side_mono) simp_all
  ultimately have "2 * inter \<le> fl (A + B)"
    by (intro fl_ge_float is_float_double) (simp_all add: inter_def)
  then have "fl inter \<le> union" unfolding union_def by (intro fl_mono) simp
  moreover have "fl inter = inter" by (simp add: inter_def)
  ultimately have u: "inter \<le> union" by simp
  show "0 \<le> iou a b \<and> iou a b \<le> 1"
  proof (cases "inter \<le> 0 \<or> union \<le> 0")
    case True
    then show ?thesis by (auto simp: eq)
  next
    case False
    then have "0 \<le> inter / union" "inter / union \<le> 1" using u by simp_all
    then have "0 \<le> fl (inter / union)" "fl (inter / union) \<le> 1"
      using fl_nonneg [of "inter / union"] fl_mono [of "inter / union" 1] fl_of_int [of 1] by simp_all
    with False show ?thesis by (simp add: eq)
  qed
qed

section \<open>Lemmas on nms\<close>

lemma is_dup_sym: "is_dup thr aware b k \<longleftrightarrow> is_dup thr aware k b"
  by (auto simp: is_dup_def iou_sym)

lemma nms_loop_prefix: "\<exists>ks. nms_loop thr aware keep bs = keep @ ks \<and> set ks \<subseteq> set bs \<and> subseq ks bs"
proof (induction bs arbitrary: keep)
  case Nil
  then show ?case by simp
next
  case (Cons b bs)
  show ?case
  proof (cases "\<exists>k \<in> set keep. is_dup thr aware b k")
    case True
    obtain ks where "nms_loop thr aware keep bs = keep @ ks" "set ks \<subseteq> set bs" "subseq ks bs"
      using Cons.IH by blast
    with True show ?thesis by auto
  next
    case False
    obtain ks where "nms_loop thr aware (keep @ [b]) bs = (keep @ [b]) @ ks" "set ks \<subseteq> set bs" "subseq ks bs"
      using Cons.IH by blast
    with False show ?thesis by (intro exI [of _ "b # ks"]) auto
  qed
qed

lemma nms_loop_separated:
  "sorted_wrt (\<lambda>k b. \<not> is_dup thr aware b k) keep \<Longrightarrow>
   sorted_wrt (\<lambda>k b. \<not> is_dup thr aware b k) (nms_loop thr aware keep bs)"
  by (induction bs arbitrary: keep) (auto simp: sorted_wrt_append)

lemma nms_loop_covers:
  "b \<in> set bs \<Longrightarrow> sorted_wrt (\<lambda>k b. area (nb_bbox b) \<le> area (nb_bbox k)) (keep @ bs) \<Longrightarrow>
   b \<notin> set (nms_loop thr aware keep bs) \<Longrightarrow>
   \<exists>k \<in> set (nms_loop thr aware keep bs). is_dup thr aware b k \<and> area (nb_bbox b) \<le> area (nb_bbox k)"
proof (induction bs arbitrary: keep)
  case Nil
  then show ?case by simp
next
  case (Cons c bs)
  have keep: "set keep' \<subseteq> set (nms_loop thr aware keep' bs)" for keep'
    using nms_loop_prefix [of thr aware keep' bs] by auto
  show ?case
  proof (cases "\<exists>k \<in> set keep. is_dup thr aware c k")
    case True
    have sorted: "sorted_wrt (\<lambda>k b. area (nb_bbox b) \<le> area (nb_bbox k)) (keep @ bs)"
      using Cons.prems(2) by (auto simp: sorted_wrt_append)
    show ?thesis
    proof (cases "b \<in> set bs")
      case True
      with Cons.IH [OF True sorted] Cons.prems(3) \<open>\<exists>k \<in> set keep. _\<close> show ?thesis by simp
    next
      case False
      with Cons.prems(1) have "b = c" by simp
      from True obtain k where k: "k \<in> set keep" "is_dup thr aware c k" by blast
      moreover have "area (nb_bbox c) \<le> area (nb_bbox k)"
        using Cons.prems(2) k(1) by (auto simp: sorted_wrt_append)
      ultimately show ?thesis using \<open>b = c\<close> True keep [of keep] by auto
    qed
  next
    case False
    then have eq: "nms_loop thr aware keep (c # bs) = nms_loop thr aware (keep @ [c]) bs" by simp
    have "b \<noteq> c" using Cons.prems(3) keep [of "keep @ [c]"] eq by auto
    then show ?thesis
      using Cons.IH [of "keep @ [c]"] Cons.prems eq by simp
  qed
qed

lemma nms_loop_id:
  "sorted_wrt (\<lambda>k b. \<not> is_dup thr aware b k) (keep @ bs) \<Longrightarrow> nms_loop thr aware keep bs = keep @ bs"
proof (induction bs arbitrary: keep)
  case Nil
  then show ?case by simp
next
  case (Cons b bs)
  from Cons.prems have "\<not> (\<exists>k \<in> set keep. is_dup thr aware b k)" by (auto simp: sorted_wrt_append)
  with Cons.IH [of "keep @ [b]"] Cons.prems show ?case by simp
qed

lemma sorted_by_area: "sorted_wrt (\<lambda>k b. area (nb_bbox b) \<le> area (nb_bbox k)) (sort_key (\<lambda>b. - area (nb_bbox b)) bs)"
  using sorted_sort_key [of "\<lambda>b. - area (nb_bbox b)" bs] by (simp add: sorted_wrt_map)

lemma subseq_set: "subseq xs ys \<Longrightarrow> set xs \<subseteq> set ys"
  by (induction rule: list_emb.induct) auto

lemma subseq_sorted_wrt: "subseq xs ys \<Longrightarrow> sorted_wrt P ys \<Longrightarrow> sorted_wrt P xs"
proof (induction rule: list_emb.induct)
  case (list_emb_Cons2 x y xs ys)
  then show ?case by (auto dest: subseq_set)
qed auto

lemma nms_facts:
  shows "subseq (nms bs thr aware) (sort_key (\<lambda>b. - area (nb_bbox b)) bs)"
    and "sorted_wrt (\<lambda>k b. \<not> is_dup thr aware b k) (nms bs thr aware)"
    and "sorted_wrt (\<lambda>k b. area (nb_bbox b) \<le> area (nb_bbox k)) (nms bs thr aware)"
proof -
  show sub: "subseq (nms bs thr aware) (sort_key (\<lambda>b. - area (nb_bbox b)) bs)"
    using nms_loop_prefix [of thr aware "[]"] unfolding nms_def by fastforce
  show "sorted_wrt (\<lambda>k b. \<not> is_dup thr aware b k) (nms bs thr aware)"
    unfolding nms_def by (rule nms_loop_separated) simp
  show "sorted_wrt (\<lambda>k b. area (nb_bbox b) \<le> area (nb_bbox k)) (nms bs thr aware)"
    by (rule subseq_sorted_wrt [OF sub sorted_by_area])
qed

section \<open>Properties\<close>

text \<open>C27.
  The grid covers the image: for an image of positive sides and at least one row and column (all up to
  2^49) and an overlap below one half, \<open>grid\<close> returns rows times columns tiles, row by row, every tile
  lies in the image, and every pixel lies in some tile, whatever the rounding of the tile base and of
  the grid lines does.
\<close>

theorem grid_covers_image:
  assumes "grid_ok W cols" "grid_ok H rows" "0 \<le> overlap" "overlap < 1 / 2"
  shows "\<exists>ts. grid W H rows cols overlap = Inr ts \<and> int (length ts) = rows * cols \<and>
    (\<forall>t \<in> set ts. 0 \<le> t_x0 t \<and> t_x0 t \<le> t_x1 t \<and> t_x1 t \<le> W \<and> 0 \<le> t_y0 t \<and> t_y0 t \<le> t_y1 t \<and> t_y1 t \<le> H) \<and>
    (\<forall>x y. 0 \<le> x \<longrightarrow> x < W \<longrightarrow> 0 \<le> y \<longrightarrow> y < H \<longrightarrow>
       (\<exists>t \<in> set ts. t_x0 t \<le> x \<and> x < t_x1 t \<and> t_y0 t \<le> y \<and> y < t_y1 t))"
proof -
  define bx where "bx = fl (of_int W / of_int cols)"
  define bh where "bh = fl (of_int H / of_int rows)"
  define px where "px = rne (fl (bx * overlap))"
  define py where "py = rne (fl (bh * overlap))"
  define ts where "ts = concat (map (\<lambda>r. map (\<lambda>c. tile_at W H bx bh px py r c) [0..cols - 1]) [0..rows - 1])"
  have pos: "0 < W" "0 < H" "0 < cols" "0 < rows" using assms by (simp_all add: grid_ok_def)
  have pads: "0 \<le> px" "0 \<le> py" using pad_nonneg pos assms by (simp_all add: px_def py_def bx_def bh_def)
  have g: "grid W H rows cols overlap = Inr ts"
    using pos assms by (simp add: grid_def ts_def bx_def bh_def px_def py_def Let_def)
  have mem: "t \<in> set ts \<longleftrightarrow> (\<exists>r c. 0 \<le> r \<and> r < rows \<and> 0 \<le> c \<and> c < cols \<and> t = tile_at W H bx bh px py r c)" for t
    unfolding ts_def by (simp, simp only: Bex_def image_iff atLeastAtMost_iff) force
  have len: "int (length ts) = rows * cols"
  proof -
    have "length ts = sum_list (map (\<lambda>r. nat cols) [0..rows - 1])"
      using pos by (simp add: ts_def length_concat comp_def)
    then show ?thesis using pos by (simp add: sum_list_triv)
  qed
  have inside: "\<forall>t \<in> set ts. 0 \<le> t_x0 t \<and> t_x0 t \<le> t_x1 t \<and> t_x1 t \<le> W \<and> 0 \<le> t_y0 t \<and> t_y0 t \<le> t_y1 t \<and> t_y1 t \<le> H"
    using axis_inside [OF assms(1) _ _ pads(1)] axis_inside [OF assms(2) _ _ pads(2)]
    by (auto simp: mem tile_at_def bx_def bh_def)
  have cover: "\<exists>t \<in> set ts. t_x0 t \<le> x \<and> x < t_x1 t \<and> t_y0 t \<le> y \<and> y < t_y1 t"
    if pixel: "0 \<le> x" "x < W" "0 \<le> y" "y < H" for x y
  proof -
    obtain c r where "0 \<le> c" "c < cols" "0 \<le> r" "r < rows"
      and c: "max 0 (grid_line bx c - px) \<le> x" "x < min W (grid_line bx (c + 1) + px)"
      and r: "max 0 (grid_line bh r - py) \<le> y" "y < min H (grid_line bh (r + 1) + py)"
      using axis_cover [OF assms(1) pixel(1,2) pads(1)] axis_cover [OF assms(2) pixel(3,4) pads(2)]
      unfolding bx_def bh_def by blast
    then have "tile_at W H bx bh px py r c \<in> set ts" unfolding mem by blast
    then show ?thesis by (rule rev_bexI) (use c r in \<open>simp add: tile_at_def\<close>)
  qed
  show ?thesis using g len inside cover by blast
qed

lemma grid_covers_image_witness:
  "\<exists>ts. grid 1920 1080 2 3 (1 / 8) = Inr ts \<and> int (length ts) = 2 * 3 \<and>
    (\<forall>t \<in> set ts. 0 \<le> t_x0 t \<and> t_x0 t \<le> t_x1 t \<and> t_x1 t \<le> 1920 \<and> 0 \<le> t_y0 t \<and> t_y0 t \<le> t_y1 t \<and> t_y1 t \<le> 1080) \<and>
    (\<forall>x y. 0 \<le> x \<longrightarrow> x < 1920 \<longrightarrow> 0 \<le> y \<longrightarrow> y < 1080 \<longrightarrow>
       (\<exists>t \<in> set ts. t_x0 t \<le> x \<and> x < t_x1 t \<and> t_y0 t \<le> y \<and> y < t_y1 t))"
  by (rule grid_covers_image) (simp_all add: grid_ok_def)

text \<open>\<open>iou\<close> is symmetric and a ratio: between 0 and 1 for any two boxes of floats, degenerate or reversed
  ones included, although intersection, areas and union are each rounded.
\<close>

theorem iou_symmetric_ratio: "iou a b = iou b a \<and> 0 \<le> iou a b \<and> iou a b \<le> 1"
  using iou_sym iou_range by blast

text \<open>C17.
  What \<open>nms\<close> keeps: boxes of the input, in order of decreasing area, no two of them duplicates of each
  other; every input box that is dropped is a duplicate of a kept one of at least its area (and of its
  label, when labels count); and running it again changes nothing.
\<close>

theorem nms_correct:
  shows "set (nms bs thr aware) \<subseteq> set bs \<and>
    sorted_wrt (\<lambda>k b. area (nb_bbox b) \<le> area (nb_bbox k)) (nms bs thr aware) \<and>
    sorted_wrt (\<lambda>k b. \<not> is_dup thr aware b k \<and> \<not> is_dup thr aware k b) (nms bs thr aware) \<and>
    (\<forall>b \<in> set bs - set (nms bs thr aware). \<exists>k \<in> set (nms bs thr aware).
       is_dup thr aware b k \<and> area (nb_bbox b) \<le> area (nb_bbox k)) \<and>
    nms (nms bs thr aware) thr aware = nms bs thr aware"
proof (intro conjI)
  let ?s = "sort_key (\<lambda>b. - area (nb_bbox b)) bs"
  show "set (nms bs thr aware) \<subseteq> set bs" using subseq_set [OF nms_facts(1)] by fastforce
  show sorted: "sorted_wrt (\<lambda>k b. area (nb_bbox b) \<le> area (nb_bbox k)) (nms bs thr aware)" by (rule nms_facts)
  show "sorted_wrt (\<lambda>k b. \<not> is_dup thr aware b k \<and> \<not> is_dup thr aware k b) (nms bs thr aware)"
    using nms_facts(2) [of thr aware bs] by (rule sorted_wrt_mono_rel [rotated]) (auto simp: is_dup_sym)
  show "\<forall>b \<in> set bs - set (nms bs thr aware). \<exists>k \<in> set (nms bs thr aware).
       is_dup thr aware b k \<and> area (nb_bbox b) \<le> area (nb_bbox k)"
    using nms_loop_covers [of _ ?s "[]" thr aware] sorted_by_area [of bs] by (auto simp: nms_def)
  have "sort_key (\<lambda>b. - area (nb_bbox b)) (nms bs thr aware) = nms bs thr aware"
    using sorted by (intro sort_key_id_if_sorted) (simp add: sorted_wrt_map)
  then show "nms (nms bs thr aware) thr aware = nms bs thr aware"
    using nms_loop_id [of thr aware "[]" "nms bs thr aware"] nms_facts(2) [of thr aware bs]
    by (simp add: nms_def [of "nms bs thr aware"])
qed

text \<open>Two copies of a box and a third one apart: the copy is dropped, for the kept one.\<close>

definition demo_boxes :: "nbox list" where
  "demo_boxes = [\<lparr>nb_bbox = (0, 0, 4, 4), nb_label = Some ''cat''\<rparr>, \<lparr>nb_bbox = (0, 0, 4, 4), nb_label = Some ''cat''\<rparr>,
     \<lparr>nb_bbox = (8, 8, 16, 16), nb_label = Some ''cat''\<rparr>]"

lemma nms_correct_witness:
  "set (nms demo_boxes (1 / 2) True) \<subseteq> set demo_boxes \<and>
    sorted_wrt (\<lambda>k b. area (nb_bbox b) \<le> area (nb_bbox k)) (nms demo_boxes (1 / 2) True) \<and>
    nms (nms demo_boxes (1 / 2) True) (1 / 2) True = nms demo_boxes (1 / 2) True"
  using nms_correct [of demo_boxes "1 / 2" True] by blast

end
