(* ===== verification/Gpu_Lock.thy ===== *)
theory Gpu_Lock
  imports LA_Prelude
begin

text \<open>
  The serialization of the GPU in \<^verbatim>\<open>worker/la_worker.py\<close>: \<open>WorkerApp.lock\<close>, taken by \<open>_infer\<close> with \<open>async with\<close>
  around \<open>wait_for(to_thread(engine.run))\<close>, and the way a timeout or an out-of-memory error takes from the
  lock to the hard exit in \<open>handle_connection\<close>.

  Many connections share the lock, so the system is a step relation. A step is what runs between two
  suspension points of the event loop, or an event of a worker thread. \<open>asyncio.Lock\<close> keeps its waiters
  in a queue: a task that asks for the lock joins the queue, the head gets the lock when it is free, and
  a newcomer never overtakes a waiter. On expiry the lock is released while the thread goes on; the task
  then writes its farewell reply, and calls \<open>os._exit\<close> when that write is over. Whether the write can
  suspend (its \<open>drain()\<close> waits for a peer that does not read) is the parameter \<open>suspends\<close>.

  Two fields are history: the tasks in the order they asked, and in the order they were served. Left out is the one
  waiter that can give up: the drain of the shutdown asks for the lock too, for 60 seconds at most, and when those are over
  it leaves the queue (\<open>serve_socket\<close> of theory Main_Boot has the drain with its outcome).
\<close>

record gpu_state =
  waiters :: "nat list"
  lock_holder :: "nat option"
  gpu_threads :: "nat set"
  leaving :: "nat set"
  process_alive :: bool
  asked :: "nat list"
  served :: "nat list"

definition gpu_init :: gpu_state where
  "gpu_init = \<lparr>waiters = [], lock_holder = None, gpu_threads = {}, leaving = {}, process_alive = True,
     asked = [], served = []\<rparr>"

text \<open>The event loop runs other tasks only while no farewell is under way that cannot suspend.\<close>

definition loop_free :: "bool \<Rightarrow> gpu_state \<Rightarrow> bool" where
  "loop_free suspends s \<longleftrightarrow> process_alive s \<and> (suspends \<or> leaving s = {})"

inductive gpu_step :: "bool \<Rightarrow> gpu_state \<Rightarrow> gpu_state \<Rightarrow> bool" for suspends where
  ask: "loop_free suspends s \<Longrightarrow> i \<notin> set (asked s) \<Longrightarrow>
     gpu_step suspends s (s\<lparr>waiters := waiters s @ [i], asked := asked s @ [i]\<rparr>)"
| acquire: "loop_free suspends s \<Longrightarrow> lock_holder s = None \<Longrightarrow> waiters s = i # rest \<Longrightarrow>
     gpu_step suspends s (s\<lparr>waiters := rest, lock_holder := Some i, gpu_threads := insert i (gpu_threads s),
       served := served s @ [i]\<rparr>)"
| return_result: "loop_free suspends s \<Longrightarrow> lock_holder s = Some i \<Longrightarrow>
     gpu_step suspends s (s\<lparr>lock_holder := None, gpu_threads := gpu_threads s - {i}\<rparr>)"
| out_of_memory: "loop_free suspends s \<Longrightarrow> lock_holder s = Some i \<Longrightarrow>
     gpu_step suspends s (s\<lparr>lock_holder := None, gpu_threads := gpu_threads s - {i}, leaving := insert i (leaving s)\<rparr>)"
| time_out: "loop_free suspends s \<Longrightarrow> lock_holder s = Some i \<Longrightarrow>
     gpu_step suspends s (s\<lparr>lock_holder := None, leaving := insert i (leaving s)\<rparr>)"
| orphan_ends: "process_alive s \<Longrightarrow> i \<in> gpu_threads s \<Longrightarrow> lock_holder s \<noteq> Some i \<Longrightarrow>
     gpu_step suspends s (s\<lparr>gpu_threads := gpu_threads s - {i}\<rparr>)"
| hard_exit: "process_alive s \<Longrightarrow> i \<in> leaving s \<Longrightarrow>
     gpu_step suspends s (s\<lparr>process_alive := False, gpu_threads := {}, lock_holder := None, waiters := []\<rparr>)"

abbreviation gpu_reachable :: "bool \<Rightarrow> gpu_state \<Rightarrow> bool" where
  "gpu_reachable suspends \<equiv> reachable (gpu_step suspends) gpu_init"

inductive_cases gpu_stepE: "gpu_step suspends s t"

lemma dead_process_stops: "gpu_step suspends s t \<Longrightarrow> process_alive s"
  by (erule gpu_stepE) (auto simp: loop_free_def)

section \<open>Invariants\<close>

text \<open>The queue discipline: served and waiting tasks together are the tasks in the order they asked.\<close>

definition in_order :: "gpu_state \<Rightarrow> bool" where
  "in_order s \<longleftrightarrow> (process_alive s \<longrightarrow> asked s = served s @ waiters s) \<and>
     (\<exists>later. asked s = served s @ later) \<and> distinct (asked s) \<and>
     (\<forall>i. lock_holder s = Some i \<longrightarrow> served s \<noteq> [] \<and> last (served s) = i)"

text \<open>Who is on the GPU: the holder of the lock, and orphans of tasks that are leaving.\<close>

definition gpu_owners :: "gpu_state \<Rightarrow> bool" where
  "gpu_owners s \<longleftrightarrow> gpu_threads s \<subseteq> set_option (lock_holder s) \<union> leaving s \<and>
     (\<forall>i. lock_holder s = Some i \<longrightarrow> i \<in> gpu_threads s)"

text \<open>When farewells do not suspend, the first fatal task is the last one to run.\<close>

definition one_leaves :: "gpu_state \<Rightarrow> bool" where
  "one_leaves s \<longleftrightarrow> leaving s = {} \<or> (\<exists>i. leaving s = {i} \<and> lock_holder s = None)"

interpretation order: step_invariant "gpu_step suspends" gpu_init in_order for suspends
proof
  show "in_order gpu_init" by (simp add: in_order_def gpu_init_def)
  show "in_order t" if "in_order s" "gpu_step suspends s t" for s t
    using that(2,1) by (induction rule: gpu_step.induct) (auto simp: in_order_def loop_free_def)
qed

interpretation owners: step_invariant "gpu_step suspends" gpu_init gpu_owners for suspends
proof
  show "gpu_owners gpu_init" by (simp add: gpu_owners_def gpu_init_def)
  show "gpu_owners t" if "gpu_owners s" "gpu_step suspends s t" for s t
    using that(2,1) by (induction rule: gpu_step.induct) (auto simp: gpu_owners_def)
qed

interpretation single: step_invariant "gpu_step False" gpu_init one_leaves
proof
  show "one_leaves gpu_init" by (simp add: one_leaves_def gpu_init_def)
  show "one_leaves t" if "one_leaves s" "gpu_step False s t" for s t
    using that(2,1) by (induction rule: gpu_step.induct) (auto simp: one_leaves_def loop_free_def)
qed

section \<open>Properties\<close>

text \<open>The lock is a fair queue: requests are served in the order they asked, each once; while the process
  lives nobody who asked is forgotten, and when the lock is free and the event loop runs, the first
  waiter can take it.
\<close>

theorem requests_served_in_order:
  assumes "gpu_reachable suspends s"
  shows "distinct (asked s) \<and> (\<exists>later. asked s = served s @ later) \<and>
    (process_alive s \<longrightarrow> asked s = served s @ waiters s) \<and>
    (loop_free suspends s \<and> lock_holder s = None \<and> waiters s \<noteq> [] \<longrightarrow>
       (\<exists>t. gpu_step suspends s t \<and> lock_holder t = Some (hd (waiters s))))"
proof -
  have "in_order s" using order.always [OF assms] .
  moreover have "\<exists>t. gpu_step suspends s t \<and> lock_holder t = Some (hd (waiters s))"
    if l: "loop_free suspends s" "lock_holder s = None" "waiters s \<noteq> []"
  proof -
    obtain i rest where w: "waiters s = i # rest" using l(3) by (cases "waiters s") auto
    from gpu_step.acquire [OF l(1,2) w] w show ?thesis by (intro exI conjI) (assumption, simp)
  qed
  ultimately show ?thesis by (auto simp: in_order_def)
qed

text \<open>C14.
  One inference at a time: when farewell writes never suspend, and with writes that may suspend as long as no task is
  leaving after a fatal error, at most one thread uses the GPU. If the lock is held, there is exactly one, and it is the
  holder's. If nobody holds the lock, a thread that still runs is the orphan of a timed-out task, which is
  on its way to the hard exit; while no task is leaving there is none.
\<close>

theorem gpu_is_exclusive:
  assumes "gpu_reachable suspends s" and "suspends \<longrightarrow> leaving s = {}"
  shows "\<exists>i. gpu_threads s \<subseteq> {i} \<and> (lock_holder s \<noteq> None \<longrightarrow> lock_holder s = Some i \<and> i \<in> gpu_threads s) \<and>
    (lock_holder s = None \<longrightarrow> gpu_threads s \<subseteq> leaving s)"
proof -
  have o: "gpu_owners s" using owners.always [OF assms(1)] .
  have "one_leaves s"
  proof (cases suspends)
    case True
    with assms(2) show ?thesis by (simp add: one_leaves_def)
  next
    case False
    with assms(1) show ?thesis using single.always by simp
  qed
  with o show ?thesis by (cases "lock_holder s") (auto simp: gpu_owners_def one_leaves_def)
qed

text \<open>C32.
  A gap of the hard-recovery contract: while the farewell write of a timed-out task waits for a peer that
  does not read, the released lock lets the next waiter start a second inference beside the orphan.
\<close>

theorem orphan_can_share_the_gpu:
  "\<exists>s. gpu_reachable True s \<and> process_alive s \<and> gpu_threads s = {1, 2} \<and> lock_holder s = Some 2"
proof -
  define s1 where "s1 = gpu_init\<lparr>waiters := [1], asked := [1]\<rparr>"
  define s2 where "s2 = s1\<lparr>waiters := [1, 2], asked := [1, 2]\<rparr>"
  define s3 where "s3 = s2\<lparr>waiters := [2], lock_holder := Some 1, gpu_threads := {1}, served := [1]\<rparr>"
  define s4 where "s4 = s3\<lparr>lock_holder := None, leaving := {1}\<rparr>"
  define s5 where "s5 = s4\<lparr>waiters := [], lock_holder := Some 2, gpu_threads := {2, 1}, served := [1, 2]\<rparr>"
  note defs = s1_def s2_def s3_def s4_def s5_def gpu_init_def loop_free_def
  have "gpu_step True gpu_init s1" using gpu_step.ask [of True gpu_init 1] by (simp add: defs)
  moreover have "gpu_step True s1 s2" using gpu_step.ask [of True s1 2] by (simp add: defs)
  moreover have "gpu_step True s2 s3" using gpu_step.acquire [of True s2 1 "[2]"] by (simp add: defs)
  moreover have "gpu_step True s3 s4" using gpu_step.time_out [of True s3 1] by (simp add: defs)
  moreover have "gpu_step True s4 s5" using gpu_step.acquire [of True s4 2 "[]"] by (simp add: defs)
  ultimately have "gpu_reachable True s5" by (meson reachable.intros)
  moreover have "process_alive s5" "gpu_threads s5 = {1, 2}" "lock_holder s5 = Some 2" by (auto simp: defs)
  ultimately show ?thesis by blast
qed

text \<open>A run for the witnesses: one task asks, gets the lock, and its inference expires.\<close>

lemma demo_expired:
  "\<exists>s. gpu_reachable False s \<and> gpu_threads s = {1} \<and> lock_holder s = None \<and> leaving s = {1} \<and> asked s = [1]"
proof -
  define s1 where "s1 = gpu_init\<lparr>waiters := [1], asked := [1]\<rparr>"
  define s2 where "s2 = s1\<lparr>waiters := [], lock_holder := Some 1, gpu_threads := {1}, served := [1]\<rparr>"
  define s3 where "s3 = s2\<lparr>lock_holder := None, leaving := {1}\<rparr>"
  note defs = s1_def s2_def s3_def gpu_init_def loop_free_def
  have "gpu_step False gpu_init s1" using gpu_step.ask [of False gpu_init 1] by (simp add: defs)
  moreover have "gpu_step False s1 s2" using gpu_step.acquire [of False s1 1 "[]"] by (simp add: defs)
  moreover have "gpu_step False s2 s3" using gpu_step.time_out [of False s2 1] by (simp add: defs)
  ultimately have "gpu_reachable False s3" by (meson reachable.intros)
  moreover have "gpu_threads s3 = {1}" "lock_holder s3 = None" "leaving s3 = {1}" "asked s3 = [1]" by (auto simp: defs)
  ultimately show ?thesis by blast
qed

lemma requests_served_in_order_witness:
  "\<exists>s. gpu_reachable False s \<and> asked s = [1] \<and> distinct (asked s) \<and> (\<exists>later. asked s = served s @ later)"
proof -
  obtain s where s: "gpu_reachable False s" "asked s = [1]" using demo_expired by blast
  from requests_served_in_order [OF s(1)] s show ?thesis by blast
qed

lemma gpu_is_exclusive_witness:
  "\<exists>s. gpu_reachable False s \<and> leaving s \<noteq> {} \<and> (\<exists>i. gpu_threads s \<subseteq> {i})"
proof -
  obtain s where s: "gpu_reachable False s" "leaving s = {1}" using demo_expired by blast
  have "False \<longrightarrow> leaving s = {}" by simp
  from gpu_is_exclusive [OF s(1) this] s show ?thesis by blast
qed

section \<open>Refinement of a fair one-place server\<close>

text \<open>The abstract service: a queue of requests, at most one of them in service, and a stop from which nothing
  returns. The mediator function forgets the threads and the farewells of the concrete state.\<close>

record fair_server =
  queue :: "nat list"
  in_service :: "nat option"
  stopped :: bool

inductive fair_step :: "fair_server \<Rightarrow> fair_server \<Rightarrow> bool" where
  enqueue: "\<not> stopped a \<Longrightarrow> fair_step a (a\<lparr>queue := queue a @ [i]\<rparr>)"
| start: "\<not> stopped a \<Longrightarrow> in_service a = None \<Longrightarrow> queue a = i # rest \<Longrightarrow>
    fair_step a (a\<lparr>queue := rest, in_service := Some i\<rparr>)"
| complete: "\<not> stopped a \<Longrightarrow> in_service a = Some i \<Longrightarrow> fair_step a (a\<lparr>in_service := None\<rparr>)"
| fail_stop: "\<not> stopped a \<Longrightarrow> in_service a = Some i \<Longrightarrow> fair_step a \<lparr>queue = [], in_service = None, stopped = True\<rparr>"

definition service :: "gpu_state \<Rightarrow> fair_server" where
  "service s =
     (if process_alive s \<and> leaving s = {} then \<lparr>queue = waiters s, in_service = lock_holder s, stopped = False\<rparr>
      else \<lparr>queue = [], in_service = None, stopped = True\<rparr>)"

lemma service_running [simp]:
  "process_alive s \<Longrightarrow> leaving s = {} \<Longrightarrow> service s = \<lparr>queue = waiters s, in_service = lock_holder s, stopped = False\<rparr>"
  by (simp add: service_def)

lemma service_stopped [simp]:
  "leaving s \<noteq> {} \<Longrightarrow> service s = \<lparr>queue = [], in_service = None, stopped = True\<rparr>"
  "\<not> process_alive s \<Longrightarrow> service s = \<lparr>queue = [], in_service = None, stopped = True\<rparr>"
  by (simp_all add: service_def)

lemma step_simulated:
  assumes "gpu_step False s t"
  shows "fair_step (service s) (service t) \<or> service t = service s"
  using assms
proof cases
  case (ask i)
  with fair_step.enqueue [of "service s" i] show ?thesis by (simp add: loop_free_def)
next
  case (acquire i rest)
  with fair_step.start [of "service s" i rest] show ?thesis by (simp add: loop_free_def)
next
  case (return_result i)
  with fair_step.complete [of "service s" i] show ?thesis by (simp add: loop_free_def)
next
  case (out_of_memory i)
  with fair_step.fail_stop [of "service s" i] show ?thesis by (simp add: loop_free_def)
next
  case (time_out i)
  with fair_step.fail_stop [of "service s" i] show ?thesis by (simp add: loop_free_def)
next
  case (orphan_ends i)
  then show ?thesis by (cases "leaving s = {}") simp_all
next
  case (hard_exit i)
  then have "leaving s \<noteq> {}" by auto
  with hard_exit show ?thesis by simp
qed

text \<open>C15.
  Provided that farewell writes do not suspend (\<open>gpu_step False\<close>), the lock refines a fair one-place server that stops for
  good when a request fails fatally: every step of the event loop and of the inference threads is a step of the server or
  invisible, and while the service has not stopped the threads on the GPU are exactly the request in service. The
  condition is needed: with a farewell write that suspends, the next request is served after the stop, as in the run
  that ends with two threads on the GPU above.
\<close>

theorem lock_refines_fair_server:
  assumes "gpu_reachable False s" and "gpu_step False s t"
  shows "(fair_step (service s) (service t) \<or> service t = service s) \<and>
    (stopped (service s) \<or> gpu_threads s = set_option (in_service (service s)))"
proof -
  have o: "gpu_owners s" using owners.always [OF assms(1)] .
  have "gpu_threads s = set_option (lock_holder s)" if "leaving s = {}"
    using o that by (auto simp: gpu_owners_def)
  then have "stopped (service s) \<or> gpu_threads s = set_option (in_service (service s))"
    by (simp add: service_def)
  with step_simulated [OF assms(2)] show ?thesis by blast
qed

lemma lock_refines_fair_server_witness:
  "\<exists>s t. gpu_reachable False s \<and> gpu_step False s t \<and> fair_step (service s) (service t)"
proof -
  let ?t = "gpu_init\<lparr>waiters := [1], asked := [1]\<rparr>"
  have t: "gpu_step False gpu_init ?t"
    using gpu_step.ask [of False gpu_init 1] by (simp add: gpu_init_def loop_free_def)
  have "service ?t \<noteq> service gpu_init" by (simp add: gpu_init_def)
  with lock_refines_fair_server [OF reachable.here t] have "fair_step (service gpu_init) (service ?t)" by simp
  then show ?thesis using t by (intro exI conjI) (rule reachable.here)
qed

end
