(* ===== verification/Framing.thy ===== *)
theory Framing
  imports LA_Prelude "HOL-Library.Word"
begin

text \<open>
  The framing of \<^verbatim>\<open>worker/la_worker.py\<close>: \<open>read_frame\<close> and \<open>write_frame\<close>, the 4-byte big-endian length prefix
  and the 16 MiB cap. A stream is the bytes that arrive before its end; \<open>readexactly\<close> raises
  \<open>IncompleteReadError\<close> when too few are left. A writer is its transport: what was sent so far, how often
  it was asked to send, and how it answers the n-th time (\<open>is_closing()\<close>, the exception of \<open>drain()\<close>).
  The same prefix is used by the clients and by the Rust side. The lemmas give the round trip and
  that a stream of frames is read back as the list of its payloads.
\<close>

type_synonym byte = "8 word"

definition LEN_PREFIX :: nat where "LEN_PREFIX = 4"
definition MAX_FRAME_BYTES :: nat where "MAX_FRAME_BYTES = 16 * 1024 * 1024"

section \<open>struct.pack and struct.unpack\<close>

text \<open>\<open>struct.pack(">I", n)\<close> and its inverse. The code packs only lengths it has checked against the cap, far
  below the \<open>2 ^ 32\<close> at which \<open>pack\<close> would raise.\<close>

definition pack_u32 :: "nat \<Rightarrow> byte list" where
  "pack_u32 n = [of_nat (n div 16777216 mod 256), of_nat (n div 65536 mod 256), of_nat (n div 256 mod 256),
                 of_nat (n mod 256)]"

definition unpack_u32 :: "byte list \<Rightarrow> nat" where
  "unpack_u32 bs = foldl (\<lambda>a b. 256 * a + unat b) 0 bs"

section \<open>Reading\<close>

definition readexactly :: "nat \<Rightarrow> byte list \<Rightarrow> (byte list \<times> byte list) res" where
  "readexactly n stream = (if length stream < n then raise IncompleteReadError ''incomplete read''
     else ret (take n stream, drop n stream))"

definition read_frame :: "byte list \<Rightarrow> (byte list \<times> byte list) res" where
  "read_frame stream =
     bindr (readexactly LEN_PREFIX stream) (\<lambda>(header, stream).
     let size = unpack_u32 header in
     if size > MAX_FRAME_BYTES then raise ValueError ''frame too large''
     else if size = 0 then ret ([], stream)
     else readexactly size stream)"

section \<open>Writing\<close>

record writer =
  sent :: "byte list"
  attempts :: nat
  closing :: "nat \<Rightarrow> bool"
  drain_error :: "nat \<Rightarrow> py_exc option"

definition frame_bytes :: "byte list \<Rightarrow> byte list" where
  "frame_bytes data = pack_u32 (length data) @ data"

definition write_frame :: "writer \<Rightarrow> byte list \<Rightarrow> unit res \<times> writer" where
  "write_frame wr data =
     (let n = attempts wr; wr = wr\<lparr>attempts := Suc n\<rparr> in
      if closing wr n then (raise ConnectionError ''writer is closing'', wr)
      else if length data > MAX_FRAME_BYTES then (raise ValueError ''outbound frame too large'', wr)
      else let wr = wr\<lparr>sent := sent wr @ frame_bytes data\<rparr>
           in (case drain_error wr n of None \<Rightarrow> ret () | Some e \<Rightarrow> Inl e, wr))"

section \<open>Lemmas\<close>

lemma length_pack_u32 [simp]: "length (pack_u32 n) = 4"
  by (simp add: pack_u32_def)

lemma unat_byte [simp]: "unat (of_nat (n mod 256) :: byte) = n mod 256"
  by (simp add: unat_of_nat)

lemma unpack_pack_u32: "n < 2 ^ 32 \<Longrightarrow> unpack_u32 (pack_u32 n) = n"
proof -
  assume "n < 2 ^ 32"
  then have "n div 16777216 < 256" by (simp add: less_mult_imp_div_less)
  moreover have "n = 256 * (n div 256) + n mod 256" by simp
  moreover have "n div 256 = 256 * (n div 65536) + n div 256 mod 256"
    using div_mult_mod_eq [of "n div 256" 256] by (simp add: div_mult2_eq [symmetric])
  moreover have "n div 65536 = 256 * (n div 16777216) + n div 65536 mod 256"
    using div_mult_mod_eq [of "n div 65536" 256] by (simp add: div_mult2_eq [symmetric])
  ultimately show ?thesis by (simp add: unpack_u32_def pack_u32_def unat_of_nat)
qed

lemma unpack_u32_less: "length bs = 4 \<Longrightarrow> unpack_u32 bs < 2 ^ 32"
proof -
  assume "length bs = 4"
  then obtain a b c d where bs: "bs = [a, b, c, d]" by (auto simp: numeral_eq_Suc length_Suc_conv)
  have "unat x < 256" for x :: byte using unsigned_less [of x, where ?'a = nat] by simp
  from this [of a] this [of b] this [of c] this [of d] show ?thesis by (simp add: bs unpack_u32_def)
qed

lemma readexactly_append [simp]: "readexactly (length d) (d @ s) = Inr (d, s)"
  by (simp add: readexactly_def)

lemma read_frame_append:
  assumes "length data \<le> MAX_FRAME_BYTES"
  shows "read_frame (frame_bytes data @ rest) = Inr (data, rest)"
proof -
  have "length data < 2 ^ 32" using assms by (simp add: MAX_FRAME_BYTES_def)
  moreover have "readexactly 4 (pack_u32 (length data) @ data @ rest) = Inr (pack_u32 (length data), data @ rest)"
    using readexactly_append [of "pack_u32 (length data)"] by simp
  ultimately show ?thesis
    using assms by (auto simp: read_frame_def frame_bytes_def LEN_PREFIX_def unpack_pack_u32)
qed

lemma read_frame_Inr:
  assumes "read_frame stream = Inr (data, rest)"
  shows "length data \<le> MAX_FRAME_BYTES \<and> length stream = 4 + length data + length rest"
  using assms
  by (auto simp: read_frame_def readexactly_def LEN_PREFIX_def bindr_eq_Inr Let_def split: if_splits)

lemma read_frame_shorter: "read_frame stream = Inr (data, rest) \<Longrightarrow> length rest < length stream"
  using read_frame_Inr by force

text \<open>Reading all frames of a stream.\<close>

function read_frames :: "byte list \<Rightarrow> byte list list" where
  "read_frames stream = (case read_frame stream of Inl _ \<Rightarrow> [] | Inr (d, rest) \<Rightarrow> d # read_frames rest)"
  by pat_completeness auto
termination by (relation "measure length") (auto dest: read_frame_shorter)

declare read_frames.simps [simp del]

lemma read_frames_concat:
  "\<forall>d \<in> set ds. length d \<le> MAX_FRAME_BYTES \<Longrightarrow> read_frames (concat (map frame_bytes ds)) = ds"
proof (induction ds)
  case Nil
  show ?case by (subst read_frames.simps) (simp add: read_frame_def readexactly_def LEN_PREFIX_def)
next
  case (Cons d ds)
  then show ?case by (subst read_frames.simps) (simp add: read_frame_append)
qed

lemma write_frame_ok:
  assumes "write_frame wr data = (Inr u, wr')"
  shows "sent wr' = sent wr @ frame_bytes data \<and> length data \<le> MAX_FRAME_BYTES"
  using assms by (auto simp: write_frame_def Let_def split: if_splits option.splits)

lemma write_frame_sent:
  "write_frame wr data = (r, wr') \<Longrightarrow> sent wr' = sent wr \<or> sent wr' = sent wr @ frame_bytes data \<and> length data \<le> MAX_FRAME_BYTES"
  by (auto simp: write_frame_def Let_def split: if_splits)

section \<open>Properties\<close>

text \<open>Framing round trip: whatever successful writes put on the wire, frame after frame, the reader on the
  other side reads back as exactly the list of payloads, and every payload is within the cap.
\<close>

theorem frames_read_back:
  assumes "\<forall>d \<in> set ds. length d \<le> MAX_FRAME_BYTES"
  shows "read_frames (concat (map frame_bytes ds)) = ds \<and>
    (\<forall>d \<in> set ds. \<forall>rest. read_frame (frame_bytes d @ rest) = Inr (d, rest))"
  using assms read_frames_concat read_frame_append by blast

lemma frames_read_back_witness:
  "read_frames (concat (map frame_bytes [[1, 2, 3], [], [4]])) = [[1, 2, 3], [], [4]] \<and>
    read_frame (frame_bytes [4] @ [9]) = Inr ([4], [9])"
  using frames_read_back [of "[[1, 2, 3], [], [4]]"] by (simp add: MAX_FRAME_BYTES_def)

end
