(* ===== verification/Jpeg_Header.thy ===== *)
theory Jpeg_Header
  imports Framing
begin

text \<open>
  \<^verbatim>\<open>rust_server/src/jpeg.rs\<close>: the scan of a JPEG's marker segments for the EXIF orientation, and the dimensions the
  worker will see after PIL's \<open>exif_transpose\<close>. An index or slice outside the buffer panics in Rust (and the release
  build aborts), so \<open>idx\<close> and \<open>slice\<close> return an option whose \<open>None\<close> is the panic; the scan is a loop, and its
  \<open>None\<close> is also not to return. The lemmas show that neither happens, for every byte string.
  \<open>usize\<close> has 64 bits, so the sums of offsets below do not wrap around.
\<close>

section \<open>Access to the buffer\<close>

definition idx :: "byte list \<Rightarrow> nat \<Rightarrow> byte option" where
  "idx b i = (if i < length b then Some (b ! i) else None)"

definition slice :: "byte list \<Rightarrow> nat \<Rightarrow> nat \<Rightarrow> byte list option" where
  "slice b lo hi = (if lo \<le> hi \<and> hi \<le> length b then Some (take (hi - lo) (drop lo b)) else None)"

definition is_jpeg :: "byte list \<Rightarrow> bool" where
  "is_jpeg b \<longleftrightarrow> length b \<ge> 3 \<and> b ! 0 = 0xFF \<and> b ! 1 = 0xD8 \<and> b ! 2 = 0xFF"

text \<open>\<open>from_be_bytes\<close> and \<open>from_le_bytes\<close>.\<close>

definition be_value :: "byte list \<Rightarrow> nat" where "be_value bs = foldl (\<lambda>a b. 256 * a + unat b) 0 bs"

definition endian_value :: "bool \<Rightarrow> byte list \<Rightarrow> nat" where
  "endian_value little bs = be_value (if little then rev bs else bs)"

section \<open>The TIFF block\<close>

text \<open>\<open>tiff.get(off..off + n)?\<close>: out of range is \<open>None\<close>, an ordinary result here.\<close>

definition tiff_at :: "bool \<Rightarrow> byte list \<Rightarrow> nat \<Rightarrow> nat \<Rightarrow> nat option" where
  "tiff_at little tiff n off = map_option (endian_value little) (slice tiff off (off + n))"

text \<open>The loop over the entries of IFD0.\<close>

fun ifd_scan :: "bool \<Rightarrow> byte list \<Rightarrow> nat \<Rightarrow> nat \<Rightarrow> nat option" where
  "ifd_scan little tiff 0 e = None"
| "ifd_scan little tiff (Suc n) e = (case tiff_at little tiff 2 e of
     None \<Rightarrow> None
   | Some tag \<Rightarrow> if tag = 0x0112 then tiff_at little tiff 2 (e + 8) else ifd_scan little tiff n (e + 12))"

definition tiff_entries :: "bool \<Rightarrow> byte list \<Rightarrow> nat option" where
  "tiff_entries little tiff =
     (if tiff_at little tiff 2 2 \<noteq> Some 0x002A then None
      else Option.bind (tiff_at little tiff 4 4) (\<lambda>ifd0.
           Option.bind (tiff_at little tiff 2 ifd0) (\<lambda>n_entries. ifd_scan little tiff n_entries (ifd0 + 2))))"

definition tiff_orientation :: "byte list \<Rightarrow> nat option option" where
  "tiff_orientation tiff =
     (if length tiff < 8 then Some None
      else Option.bind (slice tiff 0 2) (\<lambda>order.
        Some (if order = [0x49, 0x49] then tiff_entries True tiff
              else if order = [0x4D, 0x4D] then tiff_entries False tiff
              else None)))"

section \<open>The marker segments\<close>

definition is_exif :: "byte list \<Rightarrow> bool" where
  "is_exif payload \<longleftrightarrow> length payload \<ge> 6 \<and> take 6 payload = [0x45, 0x78, 0x69, 0x66, 0, 0]"

partial_function (option) exif_scan :: "byte list \<Rightarrow> nat \<Rightarrow> nat option option" where
  "exif_scan b i =
     (if i + 4 > length b then Some None
      else Option.bind (idx b i) (\<lambda>ff. if ff \<noteq> 0xFF then Some None
      else Option.bind (idx b (i + 1)) (\<lambda>marker. if marker = 0xDA \<or> marker = 0xD9 then Some None
      else Option.bind (idx b (i + 2)) (\<lambda>l1. Option.bind (idx b (i + 3)) (\<lambda>l0.
      let seg_len = be_value [l1, l0]; segment_end = i + 2 + seg_len in
      if seg_len < 2 then Some None
      else if segment_end > length b then Some None
      else if marker = 0xE1 then Option.bind (slice b (i + 4) segment_end) (\<lambda>payload.
        if is_exif payload then tiff_orientation (drop 6 payload) else exif_scan b segment_end)
      else exif_scan b segment_end)))))"

definition exif_orientation :: "byte list \<Rightarrow> nat option option" where
  "exif_orientation b =
     (if length b < 2 \<or> b ! 0 \<noteq> 0xFF \<or> b ! 1 \<noteq> 0xD8 then Some None else exif_scan b 2)"

text \<open>\<open>read_dimensions_blocking\<close>: \<open>read_info\<close> is the decoder's header parse, an error message or the stored size.\<close>

definition read_dimensions_blocking ::
  "(byte list \<Rightarrow> string + int \<times> int) \<Rightarrow> byte list \<Rightarrow> (string + int \<times> int) option" where
  "read_dimensions_blocking read_info bytes = (case read_info bytes of
     Inl e \<Rightarrow> Some (Inl e)
   | Inr (width, height) \<Rightarrow> Option.bind (exif_orientation bytes) (\<lambda>orientation.
       Some (Inr (case orientation of
          None \<Rightarrow> (width, height)
        | Some o' \<Rightarrow> if o' \<in> {5, 6, 7, 8} then (height, width) else (width, height)))))"

section \<open>Lemmas\<close>

lemma idx_inside [simp]: "i < length b \<Longrightarrow> idx b i = Some (b ! i)"
  by (simp add: idx_def)

lemma slice_inside [simp]: "lo \<le> hi \<Longrightarrow> hi \<le> length b \<Longrightarrow> slice b lo hi = Some (take (hi - lo) (drop lo b))"
  by (simp add: slice_def)

lemma tiff_orientation_returns: "\<exists>r. tiff_orientation tiff = Some r"
  by (auto simp: tiff_orientation_def)

lemma exif_scan_returns: "\<exists>r. exif_scan b i = Some r"
proof (induction "length b - i" arbitrary: i rule: less_induct)
  case less
  show ?case
  proof (cases "i + 4 \<le> length b")
    case True
    then have in_range: "i < length b" "Suc i < length b" "Suc (Suc i) < length b" "Suc (Suc (Suc i)) < length b"
      by simp_all
    have next_segment: "\<exists>r. exif_scan b (Suc (Suc (i + n))) = Some r" if "n \<ge> 2" "Suc (Suc (i + n)) \<le> length b" for n
      using less [of "Suc (Suc (i + n))"] that in_range by simp
    from in_range True next_segment tiff_orientation_returns show ?thesis
      by (subst exif_scan.simps) (simp add: Let_def numeral_2_eq_2 numeral_3_eq_3)
  qed (subst exif_scan.simps, simp)
qed

lemma exif_orientation_returns: "\<exists>r. exif_orientation b = Some r"
  by (simp add: exif_orientation_def exif_scan_returns)

section \<open>Properties\<close>

text \<open>The EXIF block that the tests of \<^verbatim>\<open>jpeg.rs\<close> build, in either byte order.\<close>

definition u16_bytes :: "bool \<Rightarrow> nat \<Rightarrow> byte list" where
  "u16_bytes little n = (let bs = [of_nat (n div 256 mod 256), of_nat (n mod 256)] in if little then rev bs else bs)"

definition orientation_tiff :: "bool \<Rightarrow> nat \<Rightarrow> byte list" where
  "orientation_tiff little o' =
     (if little then [0x49, 0x49] else [0x4D, 0x4D]) @ u16_bytes little 0x002A @
     (if little then [8, 0, 0, 0] else [0, 0, 0, 8]) @ u16_bytes little 1 @ u16_bytes little 0x0112 @
     u16_bytes little 3 @ (if little then [1, 0, 0, 0] else [0, 0, 0, 1]) @ u16_bytes little o' @ [0, 0]"

definition jpeg_with_orientation :: "bool \<Rightarrow> nat \<Rightarrow> byte list \<Rightarrow> byte list" where
  "jpeg_with_orientation little o' rest =
     [0xFF, 0xD8, 0xFF, 0xE1, 0, 30, 0x45, 0x78, 0x69, 0x66, 0, 0] @ orientation_tiff little o' @ rest"

lemma u16_digits: "o' < 65536 \<Longrightarrow> 256 * (o' div 256 mod 256) + o' mod 256 = (o' :: nat)"
  by simp

lemma ifd_scan_one:
  "ifd_scan little tiff (Suc 0) e = (case tiff_at little tiff 2 e of
     None \<Rightarrow> None | Some tag \<Rightarrow> if tag = 0x0112 then tiff_at little tiff 2 (e + 8) else None)"
  by (simp split: option.split)

lemma tiff_orientation_block:
  assumes "o' < 65536"
  shows "tiff_orientation (orientation_tiff little o') = Some (Some o')"
proof -
  let ?t = "orientation_tiff little o'"
  note defs = orientation_tiff_def u16_bytes_def tiff_at_def slice_def endian_value_def be_value_def
  have "tiff_at little ?t 2 2 = Some 0x002A" by (cases little) (simp_all add: defs)
  moreover have "tiff_at little ?t 4 4 = Some 8" by (cases little) (simp_all add: defs)
  moreover have "tiff_at little ?t 2 8 = Some (Suc 0)" by (cases little) (simp_all add: defs)
  moreover have "tiff_at little ?t 2 10 = Some 0x0112" by (cases little) (simp_all add: defs)
  moreover have "tiff_at little ?t 2 18 = Some o'" by (cases little) (simp_all add: defs u16_digits [OF assms])
  ultimately have "tiff_entries little ?t = Some o'" by (simp add: tiff_entries_def ifd_scan_one)
  moreover have "length ?t = 22" "take 2 ?t = (if little then [0x49, 0x49] else [0x4D, 0x4D])"
    by (cases little, simp_all add: defs)
  ultimately show ?thesis by (cases little) (simp_all add: tiff_orientation_def)
qed

lemma exif_orientation_block:
  assumes "o' < 65536"
  shows "exif_orientation (jpeg_with_orientation little o' rest) = Some (Some o')"
proof -
  have len: "length (orientation_tiff little o') = 22"
    by (cases little) (simp_all add: orientation_tiff_def u16_bytes_def)
  have "exif_scan (jpeg_with_orientation little o' rest) 2 = tiff_orientation (orientation_tiff little o')"
    by (subst exif_scan.simps)
       (simp add: jpeg_with_orientation_def len idx_def slice_def be_value_def is_exif_def nth_append)
  then show ?thesis
    using tiff_orientation_block [OF assms] by (simp add: exif_orientation_def jpeg_with_orientation_def)
qed

text \<open>The header scan of the edge always returns and never panics, on any bytes a client may send: the loop over the
  marker segments ends, every index and slice is inside the buffer, and the result is the decoder's own error, or its
  dimensions as stored, or with the axes exchanged.
\<close>

theorem dimension_scan_total:
  "case read_info bytes of
     Inl e \<Rightarrow> read_dimensions_blocking read_info bytes = Some (Inl e)
   | Inr (w, h) \<Rightarrow> \<exists>wh. read_dimensions_blocking read_info bytes = Some (Inr wh) \<and> wh \<in> {(w, h), (h, w)}"
  using exif_orientation_returns [of bytes]
  by (auto simp: read_dimensions_blocking_def split: sum.split option.split)

text \<open>The orientation tag is read back in both byte orders, whatever follows the block, so the axes are exchanged exactly
  for the transposing orientations 5 to 8.
\<close>

theorem orientation_read_back:
  assumes "o' < 65536" and "read_info (jpeg_with_orientation little o' rest) = Inr (w, h)"
  shows "exif_orientation (jpeg_with_orientation little o' rest) = Some (Some o') \<and>
    read_dimensions_blocking read_info (jpeg_with_orientation little o' rest) =
      Some (Inr (if 5 \<le> o' \<and> o' \<le> 8 then (h, w) else (w, h)))"
proof -
  have "o' \<in> {5, 6, 7, 8} \<longleftrightarrow> 5 \<le> o' \<and> o' \<le> 8" by auto
  then show ?thesis
    using exif_orientation_block [OF assms(1)] assms(2) by (simp add: read_dimensions_blocking_def del: insert_iff)
qed

lemma orientation_read_back_witness:
  "read_dimensions_blocking (\<lambda>_. Inr (640, 480)) (jpeg_with_orientation False 6 []) = Some (Inr (480, 640))"
  using orientation_read_back [of 6 "\<lambda>_. Inr (640, 480)" False "[]" 640 480] by simp

end
