(* ===== verification/Py_Re.thy ===== *)
theory Py_Re
  imports Py_Str
begin

text \<open>
  The part of Python's \<open>re\<close> module the parser uses: single-character classes, sequences,
  greedy and lazy repetition, capture groups; \<open>match\<close> at a position, \<open>search\<close>,
  \<open>finditer\<close> and \<open>fullmatch\<close>. A matcher returns the list of all ways to match at a
  position in the order the backtracking engine tries them, so the match Python reports is
  the first element; a greedy repetition tries one more round first, a lazy one tries to stop first.

  The states carry the absolute position, the rest of the subject and the captures (start
  and text of each group). The number of rounds of a repetition is bounded by the length of
  the rest, which is enough because a round that takes no character is not repeated, so every
  round that counts takes one. After an empty match \<open>finditer\<close> moves one character on; the
  patterns of the program never match the empty string.

  The last two sections give the theory the parser's proofs use: rewriting rules for the
  shapes its patterns have, with no backtracking left in them, and that \<open>finditer\<close> reports
  disjoint matches from left to right that cover every position where the pattern matches.
\<close>

section \<open>Patterns and the backtracking matcher\<close>

datatype rx =
    Ch "char \<Rightarrow> bool"
  | Eps
  | Cat rx rx
  | Star rx
  | LazyStar rx
  | Grp nat rx

type_synonym caps = "nat \<Rightarrow> (nat \<times> string) option"
type_synonym mstate = "nat \<times> string \<times> caps"

fun star_g :: "(mstate \<Rightarrow> mstate list) \<Rightarrow> nat \<Rightarrow> mstate \<Rightarrow> mstate list" where
  "star_g f 0 st = [st]"
| "star_g f (Suc k) st =
     concat (map (star_g f k) (filter (\<lambda>st'. fst st < fst st') (f st))) @ [st]"

fun star_l :: "(mstate \<Rightarrow> mstate list) \<Rightarrow> nat \<Rightarrow> mstate \<Rightarrow> mstate list" where
  "star_l f 0 st = [st]"
| "star_l f (Suc k) st =
     st # concat (map (star_l f k) (filter (\<lambda>st'. fst st < fst st') (f st)))"

primrec mt :: "rx \<Rightarrow> mstate \<Rightarrow> mstate list" where
  "mt (Ch p) st = (case st of (i, rest, c) \<Rightarrow>
     (case rest of [] \<Rightarrow> [] | x # xs \<Rightarrow> if p x then [(Suc i, xs, c)] else []))"
| "mt Eps st = [st]"
| "mt (Cat r1 r2) st = concat (map (mt r2) (mt r1 st))"
| "mt (Star r) st = star_g (mt r) (length (fst (snd st))) st"
| "mt (LazyStar r) st = star_l (mt r) (length (fst (snd st))) st"
| "mt (Grp n r) st =
     map (\<lambda>(j, rest, c). (j, rest, c(n \<mapsto> (fst st, take (j - fst st) (fst (snd st)))))) (mt r st)"

text \<open>Literals, \<open>r+\<close> and the usual classes.\<close>

definition lit :: "string \<Rightarrow> rx" where
  "lit s = foldr (\<lambda>c r. Cat (Ch (\<lambda>x. x = c)) r) s Eps"

definition plus :: "rx \<Rightarrow> rx" where
  "plus r = Cat r (Star r)"

definition cls_any :: rx where "cls_any = Ch (\<lambda>_. True)"
definition cls_digit :: rx where "cls_digit = Ch py_isdigit"
definition cls_space :: rx where "cls_space = Ch py_isspace"

section \<open>match, search, finditer, fullmatch\<close>

record rmatch =
  m_start :: nat
  m_end :: nat
  m_text :: string
  m_caps :: caps

definition match_at :: "rx \<Rightarrow> nat \<Rightarrow> string \<Rightarrow> (nat \<times> string \<times> caps) option" where
  "match_at r i rest = (case mt r (i, rest, Map.empty) of [] \<Rightarrow> None | m # _ \<Rightarrow> Some m)"

fun search_from :: "rx \<Rightarrow> nat \<Rightarrow> string \<Rightarrow> (rmatch \<times> string) option" where
  "search_from r i rest =
     (case match_at r i rest of
        Some (j, rest', c) \<Rightarrow>
          Some (\<lparr>m_start = i, m_end = j, m_text = take (j - i) rest, m_caps = c\<rparr>, rest')
      | None \<Rightarrow> (case rest of [] \<Rightarrow> None | x # xs \<Rightarrow> search_from r (Suc i) xs))"

declare search_from.simps [simp del]

lemma mt_adv:
  "(j, rest', c') \<in> set (mt r (i, rest, c)) \<Longrightarrow>
   i \<le> j \<and> j - i \<le> length rest \<and> rest' = drop (j - i) rest"
proof (induction r arbitrary: i rest c j rest' c')
  case (Ch p)
  then show ?case by (auto split: list.splits if_splits)
next
  case Eps
  then show ?case by simp
next
  case (Cat r1 r2)
  then obtain k rest1 c1 where 1: "(k, rest1, c1) \<in> set (mt r1 (i, rest, c))"
    and 2: "(j, rest', c') \<in> set (mt r2 (k, rest1, c1))"
    by auto
  from Cat.IH(1) [OF 1] Cat.IH(2) [OF 2] show ?case by (auto simp: add.commute)
next
  case (Star r)
  have "(j, rest', c') \<in> set (star_g (mt r) n (i, rest, c)) \<Longrightarrow>
      i \<le> j \<and> j - i \<le> length rest \<and> rest' = drop (j - i) rest" for n
  proof (induction n arbitrary: i rest c)
    case 0
    then show ?case by simp
  next
    case (Suc n)
    show ?case
    proof (cases "(j, rest', c') = (i, rest, c)")
      case True
      then show ?thesis by simp
    next
      case False
      with Suc.prems obtain k rest1 c1 where 1: "(k, rest1, c1) \<in> set (mt r (i, rest, c))"
        and 2: "(j, rest', c') \<in> set (star_g (mt r) n (k, rest1, c1))" by auto
      from Star.IH [OF 1] Suc.IH [OF 2] show ?thesis by (auto simp: add.commute)
    qed
  qed
  with Star.prems show ?case by simp
next
  case (LazyStar r)
  have "(j, rest', c') \<in> set (star_l (mt r) n (i, rest, c)) \<Longrightarrow>
      i \<le> j \<and> j - i \<le> length rest \<and> rest' = drop (j - i) rest" for n
  proof (induction n arbitrary: i rest c)
    case 0
    then show ?case by simp
  next
    case (Suc n)
    show ?case
    proof (cases "(j, rest', c') = (i, rest, c)")
      case True
      then show ?thesis by simp
    next
      case False
      with Suc.prems obtain k rest1 c1 where 1: "(k, rest1, c1) \<in> set (mt r (i, rest, c))"
        and 2: "(j, rest', c') \<in> set (star_l (mt r) n (k, rest1, c1))" by auto
      from LazyStar.IH [OF 1] Suc.IH [OF 2] show ?thesis by (auto simp: add.commute)
    qed
  qed
  with LazyStar.prems show ?case by simp
next
  case (Grp n r)
  then show ?case by fastforce
qed

lemma match_at_adv:
  assumes "match_at r i rest = Some (j, rest', c)"
  shows "i \<le> j \<and> j - i \<le> length rest \<and> rest' = drop (j - i) rest"
proof -
  from assms have "(j, rest', c) \<in> set (mt r (i, rest, Map.empty))"
    by (auto simp: match_at_def split: list.splits)
  then show ?thesis by (rule mt_adv)
qed

lemma search_from_adv:
  "search_from r i rest = Some (m, rest') \<Longrightarrow>
   i \<le> m_start m \<and> m_start m \<le> m_end m \<and> m_end m - i \<le> length rest \<and>
   rest' = drop (m_end m - i) rest \<and> m_text m = take (m_end m - m_start m) (drop (m_start m - i) rest) \<and>
   match_at r (m_start m) (drop (m_start m - i) rest) = Some (m_end m, rest', m_caps m)"
proof (induction r i rest rule: search_from.induct)
  case (1 r i rest)
  show ?case
  proof (cases "match_at r i rest")
    case (Some x)
    then obtain j rest1 c where x: "match_at r i rest = Some (j, rest1, c)" by (cases x) auto
    with "1.prems" match_at_adv [OF x] show ?thesis by (auto simp: search_from.simps)
  next
    case None
    with "1.prems" obtain x xs where rest: "rest = x # xs"
      and s: "search_from r (Suc i) xs = Some (m, rest')"
      by (auto simp: search_from.simps split: list.splits)
    from "1.IH" [OF None rest s]
    show ?thesis by (auto simp: rest Suc_diff_le Suc_diff_Suc drop_Cons' Suc_le_eq)
  qed
qed

function finditer_from :: "rx \<Rightarrow> nat \<Rightarrow> string \<Rightarrow> rmatch list" where
  "finditer_from r i rest =
     (case search_from r i rest of
        None \<Rightarrow> []
      | Some (m, rest') \<Rightarrow>
          m # (if m_start m < m_end m then finditer_from r (m_end m) rest'
               else case rest' of [] \<Rightarrow> [] | x # xs \<Rightarrow> finditer_from r (Suc (m_end m)) xs))"
  by pat_completeness auto
termination
proof (relation "measure (\<lambda>(r, i, rest). length rest)", goal_cases)
  case 1
  show ?case by simp
next
  case (2 r i rest x m rest')
  then show ?case using search_from_adv [of r i rest m rest'] by auto
next
  case (3 r i rest x m rest' y ys)
  then show ?case using search_from_adv [of r i rest m rest'] by (auto dest: arg_cong [where f = length])
qed

declare finditer_from.simps [simp del]

definition finditer :: "rx \<Rightarrow> string \<Rightarrow> rmatch list" where
  "finditer r s = finditer_from r 0 s"

definition re_search :: "rx \<Rightarrow> string \<Rightarrow> bool" where
  "re_search r s \<longleftrightarrow> search_from r 0 s \<noteq> None"

definition fullmatch :: "rx \<Rightarrow> string \<Rightarrow> bool" where
  "fullmatch r s \<longleftrightarrow> find (\<lambda>(j, rest, c). rest = []) (mt r (0, s, Map.empty)) \<noteq> None"

text \<open>\<open>m.group(n)\<close> and \<open>m.start(n)\<close> of a group that took part in the match.\<close>

definition m_group :: "rmatch \<Rightarrow> nat \<Rightarrow> string" where
  "m_group m n = (case m_caps m n of Some (i, t) \<Rightarrow> t | None \<Rightarrow> [])"

definition m_gstart :: "rmatch \<Rightarrow> nat \<Rightarrow> nat" where
  "m_gstart m n = (case m_caps m n of Some (i, t) \<Rightarrow> i | None \<Rightarrow> 0)"

section \<open>Rules for the shapes the patterns of the program have\<close>

definition first :: "'a list \<Rightarrow> 'a option" where
  "first xs = (case xs of [] \<Rightarrow> None | x # _ \<Rightarrow> Some x)"

lemma first_simps [simp]: "first [] = None" "first (x # xs) = Some x"
  by (simp_all add: first_def)

lemma first_append: "first (xs @ ys) = (case first xs of None \<Rightarrow> first ys | Some a \<Rightarrow> Some a)"
  by (cases xs) simp_all

lemma first_map [simp]: "first (map f xs) = map_option f (first xs)"
  by (cases xs) simp_all

lemma first_None [simp]: "first xs = None \<longleftrightarrow> xs = []"
  by (cases xs) simp_all

lemma match_at_first: "match_at r i rest = first (mt r (i, rest, Map.empty))"
  by (simp add: match_at_def first_def)

lemma mt_Cat_assoc [re_simps]: "mt (Cat (Cat a b) r) st = mt (Cat a (Cat b r)) st"
proof -
  have "concat (map f (concat (map g xs))) = concat (map (\<lambda>x. concat (map f (g x))) xs)"
    for f g and xs :: "mstate list"
    by (induction xs) simp_all
  moreover have "mt (Cat b r) = (\<lambda>st. concat (map (mt r) (mt b st)))" by (rule ext) simp
  ultimately show ?thesis by simp
qed

lemma mt_lit [re_simps]:
  "mt (lit s) (i, rest, c) =
   (if py_startswith rest s then [(i + length s, drop (length s) rest, c)] else [])"
proof (induction s arbitrary: i rest)
  case Nil
  then show ?case by (simp add: lit_def)
next
  case (Cons x s)
  have "lit (x # s) = Cat (Ch (\<lambda>y. y = x)) (lit s)" by (simp add: lit_def)
  then show ?case using Cons by (cases rest) auto
qed

lemma mt_Cat_lit [re_simps]:
  "mt (Cat (lit s) r) (i, rest, c) =
   (if py_startswith rest s then mt r (i + length s, drop (length s) rest, c) else [])"
  by (simp add: mt_lit)

lemma rev_upt_Suc_map: "rev [0..<Suc (Suc m)] = map Suc (rev [0..<Suc m]) @ [0]"
  by (simp only: upt_conv_Cons [of 0 "Suc (Suc m)"] map_Suc_upt rev_map [symmetric] rev.simps
      zero_less_Suc)

lemma star_g_Ch:
  "length rest \<le> n \<Longrightarrow> star_g (mt (Ch p)) n (i, rest, c) =
   map (\<lambda>k. (i + k, drop k rest, c)) (rev [0..<Suc (length (takeWhile p rest))])"
proof (induction rest arbitrary: i n)
  case Nil
  then show ?case by (cases n) simp_all
next
  case (Cons x xs)
  then obtain n' where n: "n = Suc n'" "length xs \<le> n'" by (cases n) auto
  show ?case
  proof (cases "p x")
    case True
    then show ?thesis
      using Cons.IH [OF n(2), of "Suc i"] n(1) by (simp add: rev_upt_Suc_map del: upt_Suc)
  next
    case False
    then show ?thesis using n by simp
  qed
qed

lemma star_l_Ch:
  "length rest \<le> n \<Longrightarrow> star_l (mt (Ch p)) n (i, rest, c) =
   map (\<lambda>k. (i + k, drop k rest, c)) [0..<Suc (length (takeWhile p rest))]"
proof (induction rest arbitrary: i n)
  case Nil
  then show ?case by (cases n) simp_all
next
  case (Cons x xs)
  then obtain n' where n: "n = Suc n'" "length xs \<le> n'" by (cases n) auto
  have upt: "[0..<Suc (Suc m)] = 0 # map Suc [0..<Suc m]" for m
    by (simp only: upt_conv_Cons [of 0 "Suc (Suc m)"] map_Suc_upt zero_less_Suc)
  show ?case
  proof (cases "p x")
    case True
    then show ?thesis
      using Cons.IH [OF n(2), of "Suc i"] n(1) by (simp add: upt del: upt_Suc)
  next
    case False
    then show ?thesis using n by simp
  qed
qed

lemma mt_Star_Ch:
  "mt (Star (Ch p)) (i, rest, c) =
   map (\<lambda>k. (i + k, drop k rest, c)) (rev [0..<Suc (length (takeWhile p rest))])"
  by (simp add: star_g_Ch del: upt_Suc mt.simps(1))

lemma mt_LazyStar_Ch:
  "mt (LazyStar (Ch p)) (i, rest, c) =
   map (\<lambda>k. (i + k, drop k rest, c)) [0..<Suc (length (takeWhile p rest))]"
  by (simp add: star_l_Ch del: upt_Suc mt.simps(1))

lemma mt_plus_Ch:
  "mt (plus (Ch p)) (i, rest, c) =
   map (\<lambda>k. (i + k, drop k rest, c)) (rev [1..<Suc (length (takeWhile p rest))])"
proof (cases rest)
  case Nil
  then show ?thesis by (simp add: plus_def)
next
  case (Cons x xs)
  have upt: "rev [Suc 0..<Suc (Suc m)] = map Suc (rev [0..<Suc m])" for m
    by (simp only: rev_map [symmetric] map_Suc_upt)
  show ?thesis
    using Cons by (simp add: plus_def star_g_Ch upt del: upt_Suc)
qed

text \<open>
  A run of characters of one class before a literal that starts outside of it: whether the
  run is greedy or lazy, only its full length lets the literal match.
\<close>

lemma stop_short:
  assumes "\<not> p q" and "k < length (takeWhile p rest)"
  shows "\<not> py_startswith (drop k rest) (q # s)"
proof -
  from assms(2) have "k < length rest"
    by (meson length_takeWhile_le less_le_trans)
  then have "drop k rest = rest ! k # drop (Suc k) rest" by (simp add: Cons_nth_drop_Suc)
  moreover have "p (rest ! k)" using assms(2) by (metis nth_mem set_takeWhileD takeWhile_nth)
  ultimately show ?thesis using assms(1) by auto
qed

lemma concat_map_nils: "(\<And>x. x \<in> set xs \<Longrightarrow> f x = []) \<Longrightarrow> concat (map f xs) = []"
  by (induction xs) simp_all

lemma mt_plus_lit [re_simps]:
  assumes "\<not> p q"
  shows "mt (Cat (Grp g (plus (Ch p))) (Cat (lit (q # s)) r)) (i, rest, c) =
    (let w = takeWhile p rest in
     if w = [] then []
     else mt (Cat (lit (q # s)) r) (i + length w, drop (length w) rest, c(g \<mapsto> (i, w))))"
proof -
  define m where "m = length (takeWhile p rest)"
  define f where "f = (\<lambda>k. mt (Cat (lit (q # s)) r) (i + k, drop k rest, c(g \<mapsto> (i, take k rest))))"
  have lhs: "mt (Cat (Grp g (plus (Ch p))) (Cat (lit (q # s)) r)) (i, rest, c) =
      concat (map f (rev [1..<Suc m]))"
    by (simp add: mt_plus_Ch f_def m_def comp_def del: upt_Suc mt.simps(3))
       (simp add: mt_plus_Ch comp_def del: upt_Suc)
  have short: "f k = []" if "k < m" for k
    using stop_short [of p q k rest s] assms that by (simp add: f_def m_def mt_Cat_lit del: mt.simps)
  show ?thesis
  proof (cases "m = 0")
    case True
    then show ?thesis using lhs by (simp add: m_def)
  next
    case False
    then have "rev [1..<Suc m] = m # rev [1..<m]" by simp
    moreover have "concat (map f (rev [1..<m])) = []"
      by (rule concat_map_nils) (auto intro: short)
    ultimately have "concat (map f (rev [1..<Suc m])) = f m" by simp
    moreover have "take m rest = takeWhile p rest"
      by (metis m_def takeWhile_eq_take)
    ultimately show ?thesis using lhs False by (simp add: f_def m_def Let_def del: mt.simps)
  qed
qed

lemma mt_Star_lit [re_simps]:
  assumes "\<not> p q"
  shows "mt (Cat (Star (Ch p)) (Cat (lit (q # s)) r)) (i, rest, c) =
    mt (Cat (lit (q # s)) r) (i + length (takeWhile p rest), dropWhile p rest, c)"
proof -
  define m where "m = length (takeWhile p rest)"
  define f where "f = (\<lambda>k. mt (Cat (lit (q # s)) r) (i + k, drop k rest, c))"
  have lhs: "mt (Cat (Star (Ch p)) (Cat (lit (q # s)) r)) (i, rest, c) =
      concat (map f (rev [0..<Suc m]))"
    by (simp only: mt.simps(3) [of "Star (Ch p)"] mt_Star_Ch m_def f_def map_map comp_def)
  have short: "f k = []" if "k < m" for k
    using stop_short [of p q k rest s] assms that by (simp add: f_def m_def mt_Cat_lit del: mt.simps)
  have "rev [0..<Suc m] = m # rev [0..<m]" by simp
  moreover have "concat (map f (rev [0..<m])) = []"
    by (rule concat_map_nils) (auto intro: short)
  ultimately have "concat (map f (rev [0..<Suc m])) = f m" by simp
  then show ?thesis using lhs by (simp only: f_def m_def dropWhile_eq_drop)
qed

lemma mt_Lazy_lit [re_simps]:
  assumes "\<not> p q"
  shows "mt (Cat (Grp g (LazyStar (Ch p))) (Cat (lit (q # s)) r)) (i, rest, c) =
    mt (Cat (lit (q # s)) r)
      (i + length (takeWhile p rest), dropWhile p rest, c(g \<mapsto> (i, takeWhile p rest)))"
proof -
  define m where "m = length (takeWhile p rest)"
  define f where "f = (\<lambda>k. mt (Cat (lit (q # s)) r) (i + k, drop k rest, c(g \<mapsto> (i, take k rest))))"
  have lhs: "mt (Cat (Grp g (LazyStar (Ch p))) (Cat (lit (q # s)) r)) (i, rest, c) =
      concat (map f [0..<Suc m])"
    by (simp only: mt.simps(3) [of "Grp g (LazyStar (Ch p))"] mt.simps(6) mt_LazyStar_Ch m_def f_def
        map_map comp_def prod.case fst_conv snd_conv add_diff_cancel_left')
  have short: "f k = []" if "k < m" for k
    using stop_short [of p q k rest s] assms that by (simp add: f_def m_def mt_Cat_lit del: mt.simps)
  have "concat (map f [0..<m]) = []"
    by (rule concat_map_nils) (auto intro: short)
  then have "concat (map f [0..<Suc m]) = f m" by simp
  moreover have "take m rest = takeWhile p rest"
    by (metis m_def takeWhile_eq_take)
  ultimately show ?thesis using lhs by (simp only: f_def m_def dropWhile_eq_drop)
qed

text \<open>The least number of characters a match takes.\<close>

primrec min_len :: "rx \<Rightarrow> nat" where
  "min_len (Ch p) = 1"
| "min_len Eps = 0"
| "min_len (Cat a b) = min_len a + min_len b"
| "min_len (Star r) = 0"
| "min_len (LazyStar r) = 0"
| "min_len (Grp n r) = min_len r"

lemma min_len_lit [simp]: "min_len (lit s) = length s"
  by (induction s) (simp_all add: lit_def)

lemma min_len_plus [simp]: "min_len (plus r) = min_len r"
  by (simp add: plus_def)

lemma mt_min_len: "(j, rest', c') \<in> set (mt r (i, rest, c)) \<Longrightarrow> i + min_len r \<le> j"
proof (induction r arbitrary: i rest c j rest' c')
  case (Cat r1 r2)
  then obtain k rest1 c1 where 1: "(k, rest1, c1) \<in> set (mt r1 (i, rest, c))"
    and 2: "(j, rest', c') \<in> set (mt r2 (k, rest1, c1))"
    by auto
  from Cat.IH(1) [OF 1] Cat.IH(2) [OF 2] show ?case by simp
next
  case (Star r)
  then show ?case using mt_adv [OF Star.prems] by simp
next
  case (LazyStar r)
  then show ?case using mt_adv [OF LazyStar.prems] by simp
next
  case (Grp n r)
  then show ?case by fastforce
qed (auto split: list.splits if_splits)

text \<open>
  The first way a greedy repetition matches is to repeat the first way its body matches, as
  long as there is one: the engine never has to take a round back when nothing follows.
\<close>

fun iter_first :: "(mstate \<Rightarrow> mstate option) \<Rightarrow> nat \<Rightarrow> mstate \<Rightarrow> mstate" where
  "iter_first f 0 st = st"
| "iter_first f (Suc n) st = (case f st of None \<Rightarrow> st | Some st' \<Rightarrow> iter_first f n st')"

lemma first_star_g:
  assumes "\<And>st st'. st' \<in> set (f st) \<Longrightarrow> fst st < fst st'"
  shows "first (star_g f n st) = Some (iter_first (\<lambda>st. first (f st)) n st)"
proof (induction n arbitrary: st)
  case 0
  then show ?case by simp
next
  case (Suc n)
  have "filter (\<lambda>st'. fst st < fst st') (f st) = f st"
    by (rule filter_True) (simp add: assms)
  then show ?case by (cases "f st") (simp_all add: first_append Suc.IH)
qed

lemma first_plus:
  assumes "0 < min_len r"
  shows "first (mt (plus r) (i, rest, c)) =
    (case first (mt r (i, rest, c)) of None \<Rightarrow> None
     | Some (j, rest', c') \<Rightarrow>
         Some (iter_first (\<lambda>st. first (mt r st)) (length rest') (j, rest', c')))"
proof -
  have progress: "fst st < fst st'" if "st' \<in> set (mt r st)" for st st'
  proof -
    obtain i rest c j rest' c' where "st = (i, rest, c)" "st' = (j, rest', c')"
      by (cases st; cases st') auto
    with that mt_min_len [of j rest' c' r i rest c] assms show ?thesis by simp
  qed
  show ?thesis
    by (cases "mt r (i, rest, c)")
       (auto simp: plus_def first_append first_star_g [OF progress] split: prod.splits)
qed

text \<open>\<open>.*?\<close> (with DOTALL) before a literal takes everything up to its first occurrence.\<close>

fun py_find :: "string \<Rightarrow> string \<Rightarrow> nat option" where
  "py_find p s = (if py_startswith s p then Some 0
     else case s of [] \<Rightarrow> None | x # xs \<Rightarrow> map_option Suc (py_find p xs))"

declare py_find.simps [simp del]

lemma py_find_Some:
  "py_find p s = Some k \<longleftrightarrow> k \<le> length s \<and> py_startswith (drop k s) p \<and>
     (\<forall>j < k. \<not> py_startswith (drop j s) p)"
proof (induction s arbitrary: k)
  case Nil
  show ?case by (subst py_find.simps) auto
next
  case (Cons x s)
  show ?case
    by (subst py_find.simps) (cases k; auto simp: Cons.IH less_Suc_eq_0_disj)
qed

lemma py_find_None: "py_find p s = None \<longleftrightarrow> (\<forall>k \<le> length s. \<not> py_startswith (drop k s) p)"
proof (induction s)
  case Nil
  show ?case by (subst py_find.simps) auto
next
  case (Cons x s)
  have "(\<forall>k \<le> length (x # s). \<not> py_startswith (drop k (x # s)) p) \<longleftrightarrow>
      \<not> py_startswith (x # s) p \<and> (\<forall>k \<le> length s. \<not> py_startswith (drop k s) p)"
    by (simp add: all_le_Suc_iff)
  then show ?case by (subst py_find.simps) (simp add: Cons.IH)
qed

lemma first_lazy_any:
  "first (mt (Cat (LazyStar cls_any) (lit s)) (i, rest, c)) =
   map_option (\<lambda>k. (i + k + length s, drop (k + length s) rest, c)) (py_find s rest)"
proof -
  have "first (concat (map (mt (lit s)) (map (\<lambda>k. (i + k, drop k rest, c)) [0..<Suc (length rest)]))) =
    map_option (\<lambda>k. (i + k + length s, drop (k + length s) rest, c)) (py_find s rest)"
  proof (induction rest arbitrary: i)
    case Nil
    show ?case by (subst py_find.simps) (simp add: mt_lit)
  next
    case (Cons x xs)
    have upt: "[0..<Suc (length (x # xs))] = 0 # map Suc [0..<Suc (length xs)]"
      by (simp only: list.size add_Suc_right add_0_right upt_Suc_Suc)
    show ?case
      unfolding upt using Cons.IH [of "Suc i"]
      by (subst py_find.simps) (simp add: mt_lit comp_def option.map_comp del: upt_Suc)
  qed
  moreover have "takeWhile (\<lambda>_. True) rest = rest" by (simp add: takeWhile_eq_all_conv)
  ultimately show ?thesis by (simp only: cls_any_def mt.simps(3) mt_LazyStar_Ch)
qed

section \<open>finditer\<close>

lemma search_from_None:
  "search_from r i rest = None \<longleftrightarrow> (\<forall>k \<le> length rest. match_at r (i + k) (drop k rest) = None)"
proof (induction r i rest rule: search_from.induct)
  case (1 r i rest)
  show ?case
  proof (cases "match_at r i rest")
    case None
    show ?thesis
    proof (cases rest)
      case Nil
      with None show ?thesis by (subst search_from.simps) simp
    next
      case (Cons x xs)
      have "(\<forall>k \<le> length rest. match_at r (i + k) (drop k rest) = None) \<longleftrightarrow>
          (\<forall>k \<le> length xs. match_at r (Suc i + k) (drop k xs) = None)"
        using None Cons by (simp add: all_le_Suc_iff)
      moreover have "search_from r i rest = search_from r (Suc i) xs"
        using None Cons by (subst search_from.simps) simp
      ultimately show ?thesis using "1.IH" [OF None Cons] by (simp only:)
    qed
  next
    case (Some a)
    obtain j rest' c where a: "a = (j, rest', c)" by (cases a) auto
    have "search_from r i rest \<noteq> None"
      unfolding search_from.simps [of r i rest] Some a by simp
    moreover have "match_at r (i + 0) (drop 0 rest) \<noteq> None"
      unfolding add_0_right drop_0 Some by simp
    ultimately show ?thesis by (metis zero_le)
  qed
qed

lemma search_from_leftmost:
  "search_from r i rest = Some (m, rest') \<Longrightarrow> i + k < m_start m \<Longrightarrow>
   match_at r (i + k) (drop k rest) = None"
proof (induction r i rest arbitrary: k rule: search_from.induct)
  case (1 r i rest)
  show ?case
  proof (cases "match_at r i rest")
    case None
    with "1.prems"(1) obtain x xs where rest: "rest = x # xs"
      and s: "search_from r (Suc i) xs = Some (m, rest')"
      by (auto simp: search_from.simps split: list.splits)
    show ?thesis
      using "1.IH" [OF None rest s, of "k - 1"] "1.prems"(2) None rest by (cases k) simp_all
  next
    case (Some a)
    with "1.prems" show ?thesis by (auto simp: search_from.simps split: prod.splits)
  qed
qed

lemma match_at_min_len: "match_at r i rest = Some (j, rest', c) \<Longrightarrow> i + min_len r \<le> j"
  unfolding match_at_def
  by (rule mt_min_len [of j rest' c r i rest Map.empty]) (simp split: list.splits)

lemma finditer_unfold:
  assumes "0 < min_len r"
  shows "finditer_from r i rest = (case search_from r i rest of None \<Rightarrow> []
     | Some (m, rest') \<Rightarrow> m # finditer_from r (m_end m) rest')"
proof (cases "search_from r i rest")
  case None
  then show ?thesis by (simp add: finditer_from.simps)
next
  case (Some a)
  then obtain m rest' where a: "search_from r i rest = Some (m, rest')" by (cases a) auto
  from search_from_adv [OF a] match_at_min_len assms have "m_start m < m_end m" by fastforce
  with a show ?thesis by (subst finditer_from.simps) simp
qed

lemma finditer_None: "search_from r i rest = None \<Longrightarrow> finditer_from r i rest = []"
  by (simp add: finditer_from.simps)

lemma finditer_Some:
  "0 < min_len r \<Longrightarrow> search_from r i rest = Some (m, rest') \<Longrightarrow>
   finditer_from r i rest = m # finditer_from r (m_end m) rest'"
  by (simp add: finditer_unfold [of r i rest])

lemma finditer_induct [consumes 1, case_names None Some]:
  assumes "0 < min_len r"
    and "\<And>i rest. search_from r i rest = None \<Longrightarrow> P i rest"
    and "\<And>i rest m rest'. search_from r i rest = Some (m, rest') \<Longrightarrow> P (m_end m) rest' \<Longrightarrow> P i rest"
  shows "P i rest"
proof (induction "length rest" arbitrary: i rest rule: less_induct)
  case less
  show ?case
  proof (cases "search_from r i rest")
    case None
    then show ?thesis by (rule assms(2))
  next
    case (Some a)
    then obtain m rest' where a: "search_from r i rest = Some (m, rest')" by (cases a) auto
    from search_from_adv [OF a] match_at_min_len assms(1) have "m_start m < m_end m" by fastforce
    with search_from_adv [OF a] have "length rest' < length rest" by auto
    from assms(3) [OF a less [OF this]] show ?thesis .
  qed
qed

text \<open>What a reported match is: a match of the pattern at its start, with its text and captures.\<close>

definition is_match :: "rx \<Rightarrow> nat \<Rightarrow> string \<Rightarrow> rmatch \<Rightarrow> bool" where
  "is_match r i rest m \<longleftrightarrow> i \<le> m_start m \<and> m_start m < m_end m \<and> m_end m - i \<le> length rest \<and>
     match_at r (m_start m) (drop (m_start m - i) rest) =
       Some (m_end m, drop (m_end m - i) rest, m_caps m) \<and>
     m_text m = take (m_end m - m_start m) (drop (m_start m - i) rest)"

lemma finditer_sound:
  assumes "0 < min_len r" and "m \<in> set (finditer_from r i rest)"
  shows "is_match r i rest m"
  using assms
proof (induction i rest rule: finditer_induct)
  case (None i rest)
  then show ?case by (simp add: finditer_None)
next
  case (Some i rest m' rest')
  note a = search_from_adv [OF Some.hyps]
  have len: "m_start m' < m_end m'" using a match_at_min_len assms(1) by fastforce
  from Some.prems Some.hyps consider "m = m'" | "m \<in> set (finditer_from r (m_end m') rest')"
    by (auto simp: finditer_Some [OF assms(1) Some.hyps])
  then show ?case
  proof cases
    case 1
    then show ?thesis using a len by (auto simp: is_match_def)
  next
    case 2
    from Some.IH [OF 2] a len show ?thesis by (auto simp: is_match_def)
  qed
qed

lemma finditer_length:
  assumes "0 < min_len r"
  shows "length (finditer_from r i rest) \<le> length rest"
  using assms
proof (induction i rest rule: finditer_induct)
  case (None i rest)
  then show ?case by (simp add: finditer_None)
next
  case (Some i rest m rest')
  note a = search_from_adv [OF Some.hyps]
  have "m_start m < m_end m" using a match_at_min_len assms by fastforce
  with a have "length rest' < length rest" by auto
  with Some.IH show ?case by (simp add: finditer_Some [OF assms Some.hyps])
qed

lemma finditer_sorted:
  assumes "0 < min_len r"
  shows "sorted_wrt (\<lambda>m m'. m_end m \<le> m_start m') (finditer_from r i rest)"
  using assms
proof (induction i rest rule: finditer_induct)
  case (None i rest)
  then show ?case by (simp add: finditer_None)
next
  case (Some i rest m rest')
  then show ?case
    using finditer_sound [OF assms] by (auto simp: finditer_Some [OF assms(1) Some.hyps] is_match_def)
qed

lemma finditer_covers:
  assumes "0 < min_len r" and "match_at r (i + k) (drop k rest) \<noteq> None" and "k \<le> length rest"
  shows "\<exists>m \<in> set (finditer_from r i rest). m_start m \<le> i + k \<and> i + k < m_end m"
  using assms
proof (induction i rest arbitrary: k rule: finditer_induct)
  case (None i rest)
  then show ?case by (simp add: search_from_None)
next
  case (Some i rest m rest')
  note a = search_from_adv [OF Some.hyps]
  have start: "m_start m \<le> i + k"
    using search_from_leftmost [OF Some.hyps] Some.prems(1) by (meson not_less)
  show ?case
  proof (cases "i + k < m_end m")
    case True
    with start Some.hyps show ?thesis by (auto simp: finditer_Some [OF assms(1) Some.hyps])
  next
    case False
    have "m_end m + (i + k - m_end m) = i + k" using False by simp
    moreover have "drop (i + k - m_end m) rest' = drop k rest"
      using a False by (simp add: add.commute)
    moreover have "i + k - m_end m \<le> length rest'" using a False Some.prems(2) by simp
    ultimately show ?thesis
      using Some.IH [of "i + k - m_end m"] Some.prems(1) Some.hyps
      by (auto simp: finditer_Some [OF assms(1) Some.hyps])
  qed
qed

lemma finditer_eq_Nil:
  assumes "0 < min_len r"
  shows "finditer_from r i rest = [] \<longleftrightarrow> (\<forall>k \<le> length rest. match_at r (i + k) (drop k rest) = None)"
proof (cases "search_from r i rest")
  case None
  then show ?thesis by (simp add: finditer_None search_from_None [symmetric])
next
  case (Some a)
  then obtain m rest' where a: "search_from r i rest = Some (m, rest')" by (cases a) auto
  then show ?thesis by (simp add: finditer_Some [OF assms a] search_from_None [symmetric])
qed

lemma finditer_distinct: "0 < min_len r \<Longrightarrow> distinct (finditer_from r i rest)"
proof -
  assume r: "0 < min_len r"
  have "sorted_wrt (\<lambda>m m'. m \<noteq> m') (finditer_from r i rest)"
    by (rule sorted_wrt_mono_rel [OF _ finditer_sorted [OF r]])
       (use finditer_sound [OF r] in \<open>force simp: is_match_def\<close>)
  moreover have "sorted_wrt (\<lambda>m m'. m \<noteq> m') ms \<Longrightarrow> distinct ms" for ms :: "rmatch list"
    by (induction ms) auto
  ultimately show ?thesis by blast
qed

end
