(* ===== verification/Parsing.thy ===== *)
theory Parsing
  imports Py_Re Py_Json Py_Float
begin

text \<open>
  \<^verbatim>\<open>worker/parsing.py\<close>: the parser of the model's answer text. The five patterns are
  the regular expressions of the file, term by term; \<open>parse_boxes\<close>, \<open>parse_points\<close>,
  \<open>count_malformed_geometry\<close> and \<open>has_abstention\<close> are its functions. \<open>int()\<close> of a captured numeral may
  raise (more than 4300 digits), so the parsers return results.

  The lemmas first turn each pattern into the text it matches (\<open>block_text\<close> for
  the coordinate blocks, \<open>run_len\<close> for a reference run), then show that coordinate blocks never
  overlap and lie within the run they touch, which gives the accounting theorems: every
  coordinate block of the answer is emitted or counted, exactly once.
\<close>

section \<open>Patterns\<close>

definition seq :: "rx list \<Rightarrow> rx" where
  "seq rs = foldr Cat rs Eps"

definition REF_RUN_RE :: rx where
  "REF_RUN_RE = seq [
     lit ''<ref>'', Grp 1 (LazyStar (Ch (\<lambda>c. c \<noteq> CHR ''<''))), lit ''</ref>'',
     Grp 2 (plus (seq [Star cls_space, lit ''<box>'', LazyStar cls_any, lit ''</box>'']))]"

definition BOX_RE :: rx where
  "BOX_RE = seq [
     lit ''<box><'', Grp 1 (plus cls_digit), lit ''><'', Grp 2 (plus cls_digit), lit ''><'',
     Grp 3 (plus cls_digit), lit ''><'', Grp 4 (plus cls_digit), lit ''></box>'']"

definition POINT_RE :: rx where
  "POINT_RE = seq [
     lit ''<box><'', Grp 1 (plus cls_digit), lit ''><'', Grp 2 (plus cls_digit), lit ''></box>'']"

definition NONE_RE :: rx where
  "NONE_RE = seq [lit ''<box>'', Ch (\<lambda>c. c = CHR ''N'' \<or> c = CHR ''n''), lit ''one</box>'']"

definition ANY_BOX_RE :: rx where
  "ANY_BOX_RE = seq [lit ''<box>'', LazyStar cls_any, lit ''</box>'']"

section \<open>Geometry\<close>

record detection =
  d_label :: string
  bbox_norm :: "int list"
  bbox_px :: "rat list"

record point =
  p_label :: string
  point_norm :: "int list"
  point_px :: "rat list"

definition detection_to_json :: "detection \<Rightarrow> json" where
  "detection_to_json d = JObj [(''label'', JStr (d_label d)),
     (''bbox_norm'', JList (map JInt (bbox_norm d))), (''bbox_px'', JList (map JFloat (bbox_px d)))]"

definition point_to_json :: "point \<Rightarrow> json" where
  "point_to_json p = JObj [(''label'', JStr (p_label p)),
     (''point_norm'', JList (map JInt (point_norm p))), (''point_px'', JList (map JFloat (point_px p)))]"

definition clamp_coord :: "int \<Rightarrow> int" where
  "clamp_coord c = (if c < 0 then 0 else if c > 1000 then 1000 else c)"

text \<open>\<open>round(c / 1000.0 * extent, 2)\<close> in binary64 arithmetic.\<close>

definition scale_px :: "int \<Rightarrow> int \<Rightarrow> rat" where
  "scale_px c extent = py_round 2 (fl (fl (of_int c / 1000) * fl (of_int extent)))"

definition make_box :: "string \<Rightarrow> int \<Rightarrow> int \<Rightarrow> int \<Rightarrow> int \<Rightarrow> int \<Rightarrow> int \<Rightarrow> detection" where
  "make_box label x1 y1 x2 y2 image_width image_height =
     (let x_lo = min (clamp_coord x1) (clamp_coord x2); x_hi = max (clamp_coord x1) (clamp_coord x2);
          y_lo = min (clamp_coord y1) (clamp_coord y2); y_hi = max (clamp_coord y1) (clamp_coord y2)
      in \<lparr>d_label = label, bbox_norm = [x_lo, y_lo, x_hi, y_hi],
          bbox_px = [scale_px x_lo image_width, scale_px y_lo image_height,
                     scale_px x_hi image_width, scale_px y_hi image_height]\<rparr>)"

definition make_point :: "string \<Rightarrow> int \<Rightarrow> int \<Rightarrow> int \<Rightarrow> int \<Rightarrow> point" where
  "make_point label x y image_width image_height =
     (let xc = clamp_coord x; yc = clamp_coord y
      in \<lparr>p_label = label, point_norm = [xc, yc],
          point_px = [scale_px xc image_width, scale_px yc image_height]\<rparr>)"

section \<open>The parsers\<close>

text \<open>\<open>a.start < b.end AND b.start < a.end\<close>\<close>

definition overlaps :: "nat \<times> nat \<Rightarrow> nat \<times> nat \<Rightarrow> bool" where
  "overlaps a b \<longleftrightarrow> fst a < snd b \<and> fst b < snd a"

definition span :: "rmatch \<Rightarrow> nat \<times> nat" where
  "span m = (m_start m, m_end m)"

definition group_ints :: "rmatch \<Rightarrow> nat list \<Rightarrow> int list res" where
  "group_ints m ks = mapr (\<lambda>k. py_int_digits (m_group m k)) ks"

text \<open>One iteration of the first pass: the detections of a run and its off-contract count.\<close>

definition boxes_of_run :: "int \<Rightarrow> int \<Rightarrow> rmatch \<Rightarrow> (detection list \<times> nat) res" where
  "boxes_of_run image_width image_height m =
     (let label = py_strip (m_group m 1);
          boxes_in_run = finditer BOX_RE (m_group m 2)
      in if label = [] then ret ([], length boxes_in_run)
         else bindr (mapr (\<lambda>bm. bindr (group_ints bm [1, 2, 3, 4]) (\<lambda>c.
                  ret (make_box label (c ! 0) (c ! 1) (c ! 2) (c ! 3) image_width image_height)))
                boxes_in_run) (\<lambda>ds. ret (ds, 0)))"

definition parse_boxes :: "string \<Rightarrow> int \<Rightarrow> int \<Rightarrow> (detection list \<times> nat) res" where
  "parse_boxes answer image_width image_height =
     (let runs = finditer REF_RUN_RE answer;
          consumed_intervals = map span runs
      in bindr (mapr (boxes_of_run image_width image_height) runs) (\<lambda>rs.
         ret (concat (map fst rs),
              sum_list (map snd rs) +
              length (filter (\<lambda>m. \<not> (\<exists>iv \<in> set consumed_intervals. overlaps (span m) iv))
                        (finditer BOX_RE answer)))))"

text \<open>The points of a run that no box overlaps, with their absolute spans.\<close>

definition run_point_matches :: "(nat \<times> nat) list \<Rightarrow> rmatch \<Rightarrow> (rmatch \<times> nat \<times> nat) list" where
  "run_point_matches box_spans m =
     (let boxes_offset = m_gstart m 2 in
      filter (\<lambda>(pm, sp). \<not> (\<exists>iv \<in> set box_spans. overlaps sp iv))
        (map (\<lambda>pm. (pm, boxes_offset + m_start pm, boxes_offset + m_end pm))
           (finditer POINT_RE (m_group m 2))))"

definition point_of_match :: "string \<Rightarrow> int \<Rightarrow> int \<Rightarrow> rmatch \<Rightarrow> point res" where
  "point_of_match label image_width image_height pm =
     bindr (group_ints pm [1, 2]) (\<lambda>c. ret (make_point label (c ! 0) (c ! 1) image_width image_height))"

definition points_of_run :: "int \<Rightarrow> int \<Rightarrow> (nat \<times> nat) list \<Rightarrow> rmatch \<Rightarrow> (point list \<times> nat) res" where
  "points_of_run image_width image_height box_spans m =
     (let label = py_strip (m_group m 1);
          pms = map fst (run_point_matches box_spans m)
      in if label = [] then ret ([], length pms)
         else bindr (mapr (point_of_match label image_width image_height) pms) (\<lambda>ps. ret (ps, 0)))"

text \<open>\<open>point_label\<close> is None for a box task; an empty label is false as None is.\<close>

definition parse_points :: "string \<Rightarrow> int \<Rightarrow> int \<Rightarrow> string option \<Rightarrow> (point list \<times> nat) res" where
  "parse_points answer image_width image_height point_label =
     (let box_spans = map span (finditer BOX_RE answer);
          runs = finditer REF_RUN_RE answer;
          consumed_point_spans = concat (map (\<lambda>m. map snd (run_point_matches box_spans m)) runs);
          bare = filter (\<lambda>m. \<not> (\<exists>iv \<in> set box_spans. overlaps (span m) iv) \<and>
                             \<not> (\<exists>iv \<in> set consumed_point_spans. overlaps (span m) iv))
                   (finditer POINT_RE answer)
      in bindr (mapr (points_of_run image_width image_height box_spans) runs) (\<lambda>rs.
         case point_label of
           Some (l # ls) \<Rightarrow> bindr (mapr (point_of_match (l # ls) image_width image_height) bare) (\<lambda>ps.
             ret (concat (map fst rs) @ ps, sum_list (map snd rs)))
         | _ \<Rightarrow> ret (concat (map fst rs), sum_list (map snd rs) + length bare)))"

definition count_malformed_geometry :: "string \<Rightarrow> nat" where
  "count_malformed_geometry answer =
     length (filter (\<lambda>m. let block = m_text m in
         \<not> (fullmatch BOX_RE block \<or> fullmatch POINT_RE block \<or> fullmatch NONE_RE block))
       (finditer ANY_BOX_RE answer))"

definition has_abstention :: "string \<Rightarrow> bool" where
  "has_abstention answer \<longleftrightarrow> re_search NONE_RE answer"

section \<open>Coordinate blocks\<close>

definition numeral_str :: "string \<Rightarrow> bool" where
  "numeral_str w \<longleftrightarrow> w \<noteq> [] \<and> (\<forall>c \<in> set w. py_isdigit c)"

definition block_text :: "string list \<Rightarrow> string" where
  "block_text ds = ''<box>'' @ concat (map (\<lambda>d. ''<'' @ d @ ''>'') ds) @ ''</box>''"

text \<open>The subject starts with a block of \<open>n\<close> coordinates.\<close>

definition coords_at :: "nat \<Rightarrow> string list \<Rightarrow> string \<Rightarrow> string \<Rightarrow> bool" where
  "coords_at n ds rest r \<longleftrightarrow>
     length ds = n \<and> (\<forall>d \<in> set ds. numeral_str d) \<and> rest = block_text ds @ r"

lemma mt_Eps_right: "mt (Cat a Eps) st = mt a st"
proof -
  have "concat (map (\<lambda>x. [x]) xs) = xs" for xs :: "mstate list" by (induction xs) simp_all
  moreover have "mt Eps = (\<lambda>st. [st])" by (rule ext) simp
  ultimately show ?thesis by simp
qed

lemma gt_not_digit [simp]: "\<not> py_isdigit CHR ''>''" and lt_not_digit [simp]: "\<not> py_isdigit CHR ''<''"
  and lt_not_space [simp]: "\<not> py_isspace CHR ''<''"
  by (simp_all add: py_isdigit_def py_isspace_def)

lemma num_step:
  assumes "numeral_str w"
  shows "mt (Cat (Grp g (plus cls_digit)) (Cat (lit (CHR ''>'' # s)) R)) (i, w @ CHR ''>'' # s @ r, c) =
         mt R (i + length w + length s + 1, r, c(g \<mapsto> (i, w)))"
proof -
  have "takeWhile py_isdigit (w @ CHR ''>'' # s @ r) = w"
    using assms by (intro takeWhile_append_stop) (simp_all add: numeral_str_def)
  then show ?thesis
    using assms
    by (simp only: cls_digit_def mt_plus_lit [where p = py_isdigit and q = "CHR ''>''", OF gt_not_digit] mt_Cat_lit Let_def drop_length_append)
       (simp add: numeral_str_def add.assoc del: mt.simps)
qed

lemma num_step_inv:
  assumes "mt (Cat (Grp g (plus cls_digit)) (Cat (lit (CHR ''>'' # s)) R)) (i, rest, c) \<noteq> []"
  obtains w r where "numeral_str w" "rest = w @ CHR ''>'' # s @ r"
    "mt R (i + length w + length s + 1, r, c(g \<mapsto> (i, w))) \<noteq> []"
proof -
  define w where "w = takeWhile py_isdigit rest"
  have rest: "rest = w @ drop (length w) rest"
    by (metis w_def takeWhile_dropWhile_id dropWhile_eq_drop)
  from assms have w: "w \<noteq> []" and sw: "py_startswith (drop (length w) rest) (CHR ''>'' # s)"
    unfolding cls_digit_def mt_plus_lit [where p = py_isdigit and q = "CHR ''>''", OF gt_not_digit] mt_Cat_lit Let_def w_def [symmetric]
    by (metis, metis)
  from sw obtain r where r: "drop (length w) rest = (CHR ''>'' # s) @ r"
    unfolding py_startswith_iff by blast
  have num: "numeral_str w"
    using w by (auto simp: numeral_str_def w_def dest: set_takeWhileD)
  have eq: "rest = w @ CHR ''>'' # s @ r" using rest r by simp
  with assms num_step [OF num] have "mt R (i + length w + length s + 1, r, c(g \<mapsto> (i, w))) \<noteq> []"
    by (simp del: mt.simps)
  with num eq that show thesis by blast
qed

lemma BOX_mt:
  assumes "numeral_str a" "numeral_str b" "numeral_str d" "numeral_str e"
  shows "mt BOX_RE (i, block_text [a, b, d, e] @ r, c) =
    [(i + length (block_text [a, b, d, e]), r, c(1 \<mapsto> (i + 6, a), 2 \<mapsto> (i + length a + 8, b),
       3 \<mapsto> (i + length a + length b + 10, d), 4 \<mapsto> (i + length a + length b + length d + 12, e)))]"
proof -
  have t: "block_text [a, b, d, e] @ r =
      ''<box><'' @ a @ CHR ''>'' # ''<'' @ b @ CHR ''>'' # ''<'' @ d @ CHR ''>'' # ''<'' @
      e @ CHR ''>'' # ''</box>'' @ r"
    by (simp add: block_text_def)
  show ?thesis
    unfolding t BOX_RE_def seq_def foldr.simps comp_apply id_apply mt_Cat_lit
      py_startswith_append drop_length_append if_True num_step [OF assms(1)] num_step [OF assms(2)]
      num_step [OF assms(3)] num_step [OF assms(4)]
    by (simp add: block_text_def numeral_eq_Suc)
qed

lemma POINT_mt:
  assumes "numeral_str a" "numeral_str b"
  shows "mt POINT_RE (i, block_text [a, b] @ r, c) =
    [(i + length (block_text [a, b]), r, c(1 \<mapsto> (i + 6, a), 2 \<mapsto> (i + length a + 8, b)))]"
proof -
  have t: "block_text [a, b] @ r =
      ''<box><'' @ a @ CHR ''>'' # ''<'' @ b @ CHR ''>'' # ''</box>'' @ r"
    by (simp add: block_text_def)
  show ?thesis
    unfolding t POINT_RE_def seq_def foldr.simps comp_apply id_apply mt_Cat_lit
      py_startswith_append drop_length_append if_True num_step [OF assms(1)] num_step [OF assms(2)]
    by (simp add: block_text_def numeral_eq_Suc)
qed

lemma mt_Cat_lit_inv:
  assumes "mt (Cat (lit s) R) (i, rest, c) \<noteq> []"
  obtains r where "rest = s @ r" "mt R (i + length s, r, c) \<noteq> []"
proof -
  from assms have "py_startswith rest s" "mt R (i + length s, drop (length s) rest, c) \<noteq> []"
    by (simp_all only: mt_Cat_lit split: if_splits) simp
  with that show thesis by (auto simp: py_startswith_iff)
qed

lemma BOX_inv: "mt BOX_RE (i, rest, c) \<noteq> [] \<Longrightarrow> \<exists>ds r. coords_at 4 ds rest r"
  unfolding BOX_RE_def seq_def foldr.simps comp_apply id_apply
proof (elim mt_Cat_lit_inv num_step_inv, goal_cases)
  case (1 r0 a ra b rb d rd e re)
  then have "coords_at 4 [a, b, d, e] rest re" by (simp add: coords_at_def block_text_def)
  then show ?case by blast
qed

lemma POINT_inv: "mt POINT_RE (i, rest, c) \<noteq> [] \<Longrightarrow> \<exists>ds r. coords_at 2 ds rest r"
  unfolding POINT_RE_def seq_def foldr.simps comp_apply id_apply
proof (elim mt_Cat_lit_inv num_step_inv, goal_cases)
  case (1 r0 a ra b rb)
  then have "coords_at 2 [a, b] rest rb" by (simp add: coords_at_def block_text_def)
  then show ?case by blast
qed

text \<open>Every \<open><\<close> of the text is followed, within the text, by a character that satisfies \<open>Q\<close>.\<close>

primrec lt_next :: "(char \<Rightarrow> bool) \<Rightarrow> string \<Rightarrow> bool" where
  "lt_next Q [] = True"
| "lt_next Q (x # t) = ((x = CHR ''<'' \<longrightarrow> t \<noteq> [] \<and> Q (hd t)) \<and> lt_next Q t)"

lemma lt_next_append: "lt_next Q s \<Longrightarrow> lt_next Q t \<Longrightarrow> lt_next Q (s @ t)"
  by (induction s) auto

lemma lt_next_starts:
  "lt_next Q t \<Longrightarrow> k < length t \<Longrightarrow> drop k t @ r = CHR ''<'' # x # y \<Longrightarrow> Q x"
proof (induction t arbitrary: k)
  case Nil
  then show ?case by simp
next
  case (Cons c t)
  then show ?case by (cases k; cases t) auto
qed

lemma numeral_no_lt: "numeral_str d \<Longrightarrow> CHR ''<'' \<notin> set d"
  using lt_not_digit by (auto simp: numeral_str_def)

lemma lt_next_no_lt: "CHR ''<'' \<notin> set d \<Longrightarrow> lt_next Q d"
  by (induction d) auto

lemma lt_next_coords:
  assumes "\<forall>d \<in> set ds. numeral_str d" and "\<And>x. py_isdigit x \<Longrightarrow> Q x"
  shows "lt_next Q (concat (map (\<lambda>d. ''<'' @ d @ ''>'') ds))"
  using assms(1)
proof (induction ds)
  case Nil
  then show ?case by simp
next
  case (Cons d ds)
  then have d: "numeral_str d" by simp
  then have "d \<noteq> []" "Q (hd d)" using assms(2) by (auto simp: numeral_str_def)
  moreover have "lt_next Q (d @ ''>'')"
    using lt_next_append [OF lt_next_no_lt [OF numeral_no_lt [OF d]]] by simp
  ultimately have "lt_next Q (''<'' @ d @ ''>'')" by (cases d) auto
  with Cons show ?case using lt_next_append [of Q "''<'' @ d @ ''>''"] by simp
qed

lemma block_tail_lt:
  assumes "\<forall>d \<in> set ds. numeral_str d"
  shows "lt_next (\<lambda>x. x = CHR ''/'' \<or> py_isdigit x)
    (''box>'' @ concat (map (\<lambda>d. ''<'' @ d @ ''>'') ds) @ ''</box>'')"
  using lt_next_coords [OF assms, of "\<lambda>x. x = CHR ''/'' \<or> py_isdigit x"]
  by (intro lt_next_append) simp_all

lemma block_front_lt:
  assumes "\<forall>d \<in> set ds. numeral_str d"
  shows "lt_next (\<lambda>x. x = CHR ''b'' \<or> py_isdigit x) (''<box>'' @ concat (map (\<lambda>d. ''<'' @ d @ ''>'') ds))"
  using lt_next_coords [OF assms, of "\<lambda>x. x = CHR ''b'' \<or> py_isdigit x"]
  by (intro lt_next_append) simp_all

lemma char_not_digit [simp]: "\<not> py_isdigit CHR ''b''" "\<not> py_isdigit CHR ''/''" "\<not> py_isdigit CHR ''r''"
  by (simp_all add: py_isdigit_def)

text \<open>Inside a block, after its first character, no text starts with \<open><b\<close> or \<open><r\<close>.\<close>

lemma block_inside:
  assumes "coords_at n ds (drop p s) r" and "p < q" and "q < p + length (block_text ds)"
    and "drop q s = CHR ''<'' # x # y"
  shows "x = CHR ''/'' \<or> py_isdigit x"
proof -
  define t where "t = ''box>'' @ concat (map (\<lambda>d. ''<'' @ d @ ''>'') ds) @ ''</box>''"
  have bt: "block_text ds = CHR ''<'' # t" by (simp add: block_text_def t_def)
  have s: "drop p s = CHR ''<'' # (t @ r)" using assms(1) by (simp add: coords_at_def bt)
  have "drop q s = drop (q - p) (drop p s)" using assms(2) by simp
  also have "\<dots> = drop (q - p - 1) (t @ r)" using assms(2) s by (simp add: drop_Cons')
  also have "\<dots> = drop (q - p - 1) t @ r" using assms(2,3) by (simp add: bt)
  finally have "drop (q - p - 1) t @ r = CHR ''<'' # x # y" using assms(4) by simp
  moreover have "lt_next (\<lambda>x. x = CHR ''/'' \<or> py_isdigit x) t"
    unfolding t_def using assms(1) by (intro block_tail_lt) (simp add: coords_at_def)
  moreover have "q - p - 1 < length t" using assms(2,3) by (simp add: bt)
  ultimately show ?thesis using lt_next_starts by blast
qed

lemma block_starts: "coords_at n ds rest r \<Longrightarrow> \<exists>y. rest = CHR ''<'' # CHR ''b'' # y"
  by (simp add: coords_at_def block_text_def)

lemma blocks_disjoint:
  assumes "coords_at n ds (drop p s) r" and "coords_at n' ds' (drop q s) r'" and "p < q"
  shows "p + length (block_text ds) \<le> q"
proof (rule ccontr)
  assume "\<not> p + length (block_text ds) \<le> q"
  then have q: "q < p + length (block_text ds)" by simp
  obtain y where "drop q s = CHR ''<'' # CHR ''b'' # y" using block_starts [OF assms(2)] by blast
  from block_inside [OF assms(1,3) q this] show False by simp
qed

text \<open>A block ends at the only \<open></box>\<close> that starts in it.\<close>

lemma block_close:
  assumes "coords_at n ds (drop p s) r" and "p \<le> q" and "q < p + length (block_text ds)"
    and "drop q s = ''</box>'' @ y"
  shows "p + length (block_text ds) = q + 6"
proof -
  define t where "t = ''<box>'' @ concat (map (\<lambda>d. ''<'' @ d @ ''>'') ds)"
  have bt: "block_text ds = t @ ''</box>''" by (simp add: block_text_def t_def)
  have s: "drop p s = t @ ''</box>'' @ r" using assms(1) by (simp add: coords_at_def bt)
  have "drop q s = drop (q - p) (drop p s)" using assms(2) by simp
  then have q: "drop q s = drop (q - p) (t @ ''</box>'' @ r)" by (simp only: s)
  have lt: "lt_next (\<lambda>x. x = CHR ''b'' \<or> py_isdigit x) t"
    unfolding t_def using assms(1) by (intro block_front_lt) (simp add: coords_at_def)
  have "\<not> q - p < length t"
  proof
    assume less: "q - p < length t"
    then have "drop (q - p) t @ ''</box>'' @ r = CHR ''<'' # CHR ''/'' # ''box>'' @ y"
      using q assms(4) by simp
    from lt_next_starts [OF lt less this] show False by simp
  qed
  then obtain k where k: "q - p = length t + k" "k < 6"
    using assms(2,3) bt by (intro that [of "q - p - length t"]) auto
  then have "drop k (''</box>'' @ r) = ''</box>'' @ y" using q assms(4) by simp
  with k(2) have "k = 0" by (auto simp: less_Suc_eq numeral_eq_Suc)
  with k assms(2) show ?thesis by (simp add: bt)
qed

lemma coords_unique:
  assumes "coords_at n ds rest r" and "coords_at n' ds' rest r'"
  shows "ds = ds' \<and> r = r'"
proof -
  have inner: "concat (map (\<lambda>d. ''<'' @ d @ ''>'') ds) @ ''</box>'' @ r =
      concat (map (\<lambda>d. ''<'' @ d @ ''>'') ds') @ ''</box>'' @ r' \<Longrightarrow>
    \<forall>d \<in> set ds. numeral_str d \<Longrightarrow> \<forall>d \<in> set ds'. numeral_str d \<Longrightarrow> ds = ds' \<and> r = r'" for ds ds'
  proof (induction ds arbitrary: ds')
    case Nil
    then show ?case
      by (cases ds') (auto simp: numeral_str_def neq_Nil_conv append_eq_Cons_conv)
  next
    case (Cons d ds)
    then obtain d' ds'' where ds': "ds' = d' # ds''"
      by (cases ds') (auto simp: numeral_str_def neq_Nil_conv Cons_eq_append_conv)
    have num: "numeral_str d" "numeral_str d'" using Cons.prems ds' by simp_all
    let ?t = "\<lambda>ds r. concat (map (\<lambda>d. ''<'' @ d @ ''>'') ds) @ ''</box>'' @ r"
    have eq: "d @ CHR ''>'' # ?t ds r = d' @ CHR ''>'' # ?t ds'' r'"
      using Cons.prems(1) ds' by simp
    have "takeWhile py_isdigit (d @ CHR ''>'' # ?t ds r) = d"
      and "takeWhile py_isdigit (d' @ CHR ''>'' # ?t ds'' r') = d'"
      using num by (auto intro!: takeWhile_append_stop simp: numeral_str_def)
    with eq have "d = d'" by metis
    with eq Cons.IH [of ds''] Cons.prems ds' show ?case by simp
  qed
  show ?thesis by (rule inner) (use assms in \<open>auto simp: coords_at_def block_text_def\<close>)
qed

section \<open>The matches of a coordinate pattern\<close>

text \<open>Where blocks of \<open>n\<close> coordinates stand in a text.\<close>

definition occs :: "nat \<Rightarrow> string \<Rightarrow> nat set" where
  "occs n s = {p. p \<le> length s \<and> (\<exists>ds r. coords_at n ds (drop p s) r)}"

definition block_end :: "nat \<Rightarrow> string \<Rightarrow> nat" where
  "block_end p s = p + 6 + (case py_find ''</box>'' (drop p s) of Some k \<Rightarrow> k | None \<Rightarrow> 0)"

lemma finite_occs [simp]: "finite (occs n s)"
  by (rule finite_subset [of _ "{..length s}"]) (auto simp: occs_def)

lemma block_end_coords:
  assumes "coords_at n ds (drop p s) r"
  shows "block_end p s = p + length (block_text ds)"
proof -
  define L where "L = length (block_text ds) - 6"
  have L: "length (block_text ds) = L + 6" by (simp add: L_def block_text_def)
  have dr: "drop p s = (''<box>'' @ concat (map (\<lambda>d. ''<'' @ d @ ''>'') ds)) @ ''</box>'' @ r"
    using assms by (simp add: coords_at_def block_text_def)
  have Lt: "L = length (''<box>'' @ concat (map (\<lambda>d. ''<'' @ d @ ''>'') ds))"
    by (simp add: L_def block_text_def)
  have "py_find ''</box>'' (drop p s) = Some L"
    unfolding py_find_Some
  proof (intro conjI allI impI)
    show "L \<le> length (drop p s)" unfolding dr Lt by simp
    show "py_startswith (drop L (drop p s)) ''</box>''" unfolding dr Lt by simp
    fix j assume j: "j < L"
    show "\<not> py_startswith (drop j (drop p s)) ''</box>''"
    proof
      assume "py_startswith (drop j (drop p s)) ''</box>''"
      then obtain y where "drop (p + j) s = ''</box>'' @ y"
        by (auto simp: py_startswith_iff add.commute)
      from block_close [OF assms _ _ this] j L show False by simp
    qed
  qed
  with L show ?thesis by (simp add: block_end_def)
qed

locale coord_pattern =
  fixes rx :: rx and n :: nat
  assumes positive: "0 < min_len rx"
    and matches: "coords_at n ds rest r \<Longrightarrow>
      \<exists>c. match_at rx i rest = Some (i + length (block_text ds), r, c) \<and>
          (\<forall>k < n. \<exists>p. c (Suc k) = Some (p, ds ! k))"
    and inverts: "match_at rx i rest \<noteq> None \<Longrightarrow> \<exists>ds r. coords_at n ds rest r"
begin

lemma sound:
  assumes "m \<in> set (finditer rx s)"
  obtains ds r where "coords_at n ds (drop (m_start m) s) r" "m_start m \<le> length s"
    "m_end m = m_start m + length (block_text ds)" "\<And>k. k < n \<Longrightarrow> m_group m (Suc k) = ds ! k"
proof -
  from finditer_sound [OF positive] assms have im: "is_match rx 0 s m"
    unfolding finditer_def by blast
  then have ma: "match_at rx (m_start m) (drop (m_start m) s) =
      Some (m_end m, drop (m_end m) s, m_caps m)"
    by (simp add: is_match_def)
  with inverts [of "m_start m" "drop (m_start m) s"] obtain ds r
    where ds: "coords_at n ds (drop (m_start m) s) r" by auto
  from matches [OF ds, of "m_start m"] ma
  have e: "m_end m = m_start m + length (block_text ds)"
    and c: "\<forall>k < n. \<exists>p. m_caps m (Suc k) = Some (p, ds ! k)" by auto
  show thesis
  proof (rule that [OF ds _ e])
    show "m_start m \<le> length s" using im by (simp add: is_match_def)
    show "\<And>k. k < n \<Longrightarrow> m_group m (Suc k) = ds ! k" using c by (auto simp: m_group_def)
  qed
qed

lemma starts: "m_start ` set (finditer rx s) = occs n s"
proof (intro equalityI subsetI)
  fix p assume "p \<in> m_start ` set (finditer rx s)"
  then show "p \<in> occs n s" using sound by (auto simp: occs_def) blast+
next
  fix p assume "p \<in> occs n s"
  then obtain ds r where ds: "coords_at n ds (drop p s) r" and p: "p \<le> length s"
    by (auto simp: occs_def)
  have "match_at rx (0 + p) (drop p s) \<noteq> None" using matches [OF ds, of p] by auto
  from finditer_covers [OF positive this p]
  obtain m where m: "m \<in> set (finditer rx s)" "m_start m \<le> p" "p < m_end m"
    by (auto simp: finditer_def)
  from sound [OF m(1)] obtain ds' r' where ds': "coords_at n ds' (drop (m_start m) s) r'"
    and e: "m_end m = m_start m + length (block_text ds')" by blast
  have "m_start m = p"
    using blocks_disjoint [OF ds' ds] m e by (metis le_neq_implies_less not_less)
  with m(1) show "p \<in> m_start ` set (finditer rx s)" by blast
qed

lemma m_end_eq: "m \<in> set (finditer rx s) \<Longrightarrow> m_end m = block_end (m_start m) s"
  by (metis sound block_end_coords)

lemma inj_starts: "inj_on m_start (set (finditer rx s))"
proof (rule inj_onI)
  fix m m'
  assume m: "m \<in> set (finditer rx s)" "m' \<in> set (finditer rx s)" "m_start m = m_start m'"
  have e: "m_end m = m_end m'" using m m_end_eq by metis
  have im: "is_match rx 0 s m" "is_match rx 0 s m'"
    using m finditer_sound [OF positive] by (simp_all add: finditer_def)
  then show "m = m'" using m(3) e by (cases m; cases m') (auto simp: is_match_def)
qed

lemma distinct_finditer: "distinct (finditer rx s)"
  unfolding finditer_def by (rule finditer_distinct [OF positive])

lemma length_filter_finditer:
  "length (filter (\<lambda>m. P (span m)) (finditer rx s)) = card {p \<in> occs n s. P (p, block_end p s)}"
proof -
  let ?F = "filter (\<lambda>m. P (span m)) (finditer rx s)"
  have "length ?F = card (set ?F)"
    by (rule distinct_card [symmetric]) (intro distinct_filter distinct_finditer)
  also have "\<dots> = card (m_start ` set ?F)"
    by (intro card_image [symmetric] inj_on_subset [OF inj_starts]) auto
  also have "m_start ` set ?F = {p \<in> occs n s. P (p, block_end p s)}"
    using m_end_eq by (auto simp: span_def simp flip: starts)
  finally show ?thesis .
qed

lemma length_finditer: "length (finditer rx s) = card (occs n s)"
  using length_filter_finditer [of "\<lambda>_. True" s] by simp

end

lemma min_len_seq [simp]: "min_len (seq rs) = sum_list (map min_len rs)"
  by (induction rs) (simp_all add: seq_def)

lemma length_4: "length xs = 4 \<longleftrightarrow> (\<exists>a b c d. xs = [a, b, c, d])"
  by (auto simp: numeral_eq_Suc length_Suc_conv)

lemma length_2: "length xs = 2 \<longleftrightarrow> (\<exists>a b. xs = [a, b])"
  by (auto simp: numeral_eq_Suc length_Suc_conv)

lemma all_less_4: "(\<forall>k < 4. P k) \<longleftrightarrow> P 0 \<and> P 1 \<and> P 2 \<and> P (3 :: nat)"
  by (auto simp: less_Suc_eq numeral_eq_Suc)

lemma all_less_2: "(\<forall>k < 2. P k) \<longleftrightarrow> P 0 \<and> P (1 :: nat)"
  by (auto simp: less_Suc_eq numeral_eq_Suc)

interpretation box: coord_pattern BOX_RE 4
proof
  show "0 < min_len BOX_RE" by (simp add: BOX_RE_def)
  fix ds rest r i
  assume "coords_at 4 ds rest r"
  then obtain a b d e where ds: "ds = [a, b, d, e]" and rest: "rest = block_text ds @ r"
    and "numeral_str a" "numeral_str b" "numeral_str d" "numeral_str e"
    by (auto simp: coords_at_def length_4)
  then show "\<exists>c. match_at BOX_RE i rest = Some (i + length (block_text ds), r, c) \<and>
      (\<forall>k < 4. \<exists>p. c (Suc k) = Some (p, ds ! k))"
    by (simp add: match_at_first BOX_mt all_less_4 ds rest)
next
  fix rest i
  assume "match_at BOX_RE i rest \<noteq> None"
  then show "\<exists>ds r. coords_at 4 ds rest r" by (intro BOX_inv) (auto simp: match_at_first)
qed

interpretation point: coord_pattern POINT_RE 2
proof
  show "0 < min_len POINT_RE" by (simp add: POINT_RE_def)
  fix ds rest r i
  assume "coords_at 2 ds rest r"
  then obtain a b where ds: "ds = [a, b]" and rest: "rest = block_text ds @ r"
    and "numeral_str a" "numeral_str b"
    by (auto simp: coords_at_def length_2)
  then show "\<exists>c. match_at POINT_RE i rest = Some (i + length (block_text ds), r, c) \<and>
      (\<forall>k < 2. \<exists>p. c (Suc k) = Some (p, ds ! k))"
    by (simp add: match_at_first POINT_mt all_less_2 ds rest)
next
  fix rest i
  assume "match_at POINT_RE i rest \<noteq> None"
  then show "\<exists>ds r. coords_at 2 ds rest r" by (intro POINT_inv) (auto simp: match_at_first)
qed

section \<open>Reference runs\<close>

text \<open>
  The length of the blank-preceded block \<open>\s*<box>.*?</box>\<close> at the start of the text, and
  of the run of such blocks.
\<close>

lemma tag_lengths: "length ''<box>'' = 5" "length ''</box>'' = 6" "length ''<ref>'' = 5" "length ''</ref>'' = 6"
  by simp_all

definition BLOCK_RE :: rx where
  "BLOCK_RE = seq [Star cls_space, lit ''<box>'', LazyStar cls_any, lit ''</box>'']"

definition blk_len :: "string \<Rightarrow> nat option" where
  "blk_len rest = (let w = length (takeWhile py_isspace rest); t = dropWhile py_isspace rest in
     if py_startswith t ''<box>'' then map_option (\<lambda>k. w + 5 + k + 6) (py_find ''</box>'' (drop 5 t))
     else None)"

fun run_len :: "nat \<Rightarrow> string \<Rightarrow> nat" where
  "run_len 0 rest = 0"
| "run_len (Suc n) rest = (case blk_len rest of None \<Rightarrow> 0 | Some k \<Rightarrow> k + run_len n (drop k rest))"

lemma first_BLOCK:
  "first (mt BLOCK_RE (i, rest, c)) = map_option (\<lambda>n. (i + n, drop n rest, c)) (blk_len rest)"
proof -
  have tail: "mt (Cat (LazyStar cls_any) (Cat (lit s) Eps)) st = mt (Cat (LazyStar cls_any) (lit s)) st"
    for s st
    using mt_Eps_right [of "Cat (LazyStar cls_any) (lit s)" st] by (simp only: mt_Cat_assoc)
  have sp: "mt BLOCK_RE (i, rest, c) =
      mt (Cat (lit ''<box>'') (Cat (LazyStar cls_any) (Cat (lit ''</box>'') Eps)))
        (i + length (takeWhile py_isspace rest), dropWhile py_isspace rest, c)"
    unfolding BLOCK_RE_def seq_def foldr.simps comp_apply id_apply cls_space_def
    by (rule mt_Star_lit) simp
  show ?thesis
  proof (cases "py_startswith (dropWhile py_isspace rest) ''<box>''")
    case True
    then show ?thesis
      unfolding sp mt_Cat_lit tail tag_lengths blk_len_def Let_def
      by (simp only: if_True first_lazy_any option.map_comp tag_lengths)
         (simp add: comp_def dropWhile_eq_drop ac_simps)
  next
    case False
    then show ?thesis unfolding sp mt_Cat_lit by (simp add: blk_len_def Let_def)
  qed
qed

lemma iter_BLOCK:
  "iter_first (\<lambda>st. first (mt BLOCK_RE st)) n (i, rest, c) =
   (i + run_len n rest, drop (run_len n rest) rest, c)"
proof (induction n arbitrary: i rest)
  case 0
  then show ?case by simp
next
  case (Suc n)
  then show ?case
    by (cases "blk_len rest") (simp_all add: first_BLOCK add.assoc add.commute)
qed

text \<open>The length of the run that starts the text, with its label, as an option.\<close>

definition ref_scan :: "string \<Rightarrow> (string \<times> nat) option" where
  "ref_scan rest = (if py_startswith rest ''<ref>'' then
     (let l = takeWhile (\<lambda>c. c \<noteq> CHR ''<'') (drop 5 rest); t = drop (5 + length l) rest in
      if py_startswith t ''</ref>'' then
        (case blk_len (drop 6 t) of None \<Rightarrow> None
         | Some k \<Rightarrow> Some (l, k + run_len (length (drop 6 t) - k) (drop k (drop 6 t))))
      else None) else None)"

lemma blk_len_le: "blk_len rest = Some k \<Longrightarrow> 0 < k \<and> k \<le> length rest \<and> py_endswith (take k rest) ''</box>''"
proof -
  assume a: "blk_len rest = Some k"
  define w where "w = takeWhile py_isspace rest"
  define t where "t = dropWhile py_isspace rest"
  have rest: "rest = w @ t" by (simp add: w_def t_def)
  from a obtain j where st: "py_startswith t ''<box>''" and f: "py_find ''</box>'' (drop 5 t) = Some j"
    and k: "k = length w + 5 + j + 6"
    by (auto simp: blk_len_def w_def t_def Let_def split: if_splits)
  from st obtain u where t: "t = ''<box>'' @ u" by (auto simp: py_startswith_iff)
  with f obtain y where "j \<le> length u" "drop j u = ''</box>'' @ y"
    by (auto simp: py_find_Some py_startswith_iff)
  then have u: "u = take j u @ ''</box>'' @ y" "length (take j u) = j"
    by (metis append_take_drop_id, simp)
  define x where "x = w @ ''<box>'' @ take j u"
  have "rest = x @ ''</box>'' @ y" using rest t u(1) by (simp add: x_def)
  moreover have "k = length (x @ ''</box>'')" using u(2) k by (simp add: x_def)
  ultimately have "take k rest = x @ ''</box>''" "0 < k" "k \<le> length rest" by auto
  then show ?thesis by (metis py_endswith_append)
qed

lemma run_len_le: "run_len n rest \<le> length rest"
proof (induction n arbitrary: rest)
  case 0
  then show ?case by simp
next
  case (Suc n)
  show ?case
  proof (cases "blk_len rest")
    case None
    then show ?thesis by simp
  next
    case (Some k)
    then show ?thesis using blk_len_le [OF Some] Suc.IH [of "drop k rest"] by simp linarith
  qed
qed

lemma run_len_ends: "0 < run_len n rest \<Longrightarrow> py_endswith (take (run_len n rest) rest) ''</box>''"
proof (induction n arbitrary: rest)
  case 0
  then show ?case by simp
next
  case (Suc n)
  then obtain k where k: "blk_len rest = Some k" by (auto split: option.splits)
  have take: "take (k + run_len n (drop k rest)) rest = take k rest @ take (run_len n (drop k rest)) (drop k rest)"
    by (simp add: take_add)
  show ?case
  proof (cases "run_len n (drop k rest) = 0")
    case True
    with k blk_len_le [OF k] show ?thesis by simp
  next
    case False
    then have "py_endswith (take (run_len n (drop k rest)) (drop k rest)) ''</box>''" by (intro Suc.IH) simp
    then show ?thesis unfolding py_endswith_iff using k take by auto
  qed
qed

lemma first_REF_RUN:
  "first (mt REF_RUN_RE (i, rest, c)) = (case ref_scan rest of None \<Rightarrow> None
   | Some (l, n) \<Rightarrow> let b = i + length l + 11; t = drop (length l + 11) rest in
       Some (b + n, drop n t, c(1 \<mapsto> (i + 5, l), 2 \<mapsto> (b, take n t))))"
proof -
  define K where "K = Grp 2 (plus BLOCK_RE)"
  have re: "REF_RUN_RE = Cat (lit ''<ref>'') (Cat (Grp 1 (LazyStar (Ch (\<lambda>c. c \<noteq> CHR ''<''))))
      (Cat (lit ''</ref>'') (Cat K Eps)))"
    by (simp add: REF_RUN_RE_def BLOCK_RE_def K_def seq_def)
  define l where "l = takeWhile (\<lambda>c. c \<noteq> CHR ''<'') (drop 5 rest)"
  have dw: "dropWhile (\<lambda>c. c \<noteq> CHR ''<'') (drop 5 rest) = drop (5 + length l) rest"
    by (simp add: dropWhile_eq_drop l_def add.commute)
  have tw: "takeWhile (\<lambda>c. c \<noteq> CHR ''<'') (drop (length ''<ref>'') rest) = l"
    by (simp only: l_def tag_lengths)
  have lazy: "mt (Cat (Grp 1 (LazyStar (Ch (\<lambda>c. c \<noteq> CHR ''<'')))) (Cat (lit (CHR ''<'' # s)) R)) (i, t, c) =
      mt (Cat (lit (CHR ''<'' # s)) R) (i + length (takeWhile (\<lambda>c. c \<noteq> CHR ''<'') t),
        dropWhile (\<lambda>c. c \<noteq> CHR ''<'') t, c(1 \<mapsto> (i, takeWhile (\<lambda>c. c \<noteq> CHR ''<'') t)))" for s R i t c
    by (rule mt_Lazy_lit) simp
  have pos: "0 < min_len BLOCK_RE" by (simp add: BLOCK_RE_def)
  show ?thesis
  proof (cases "py_startswith rest ''<ref>'' \<and> py_startswith (drop (5 + length l) rest) ''</ref>''")
    case False
    have "mt REF_RUN_RE (i, rest, c) = []"
      unfolding re mt_Cat_lit lazy tw tag_lengths using False by (simp add: dw l_def [symmetric] del: mt.simps)
    then show ?thesis using False by (auto simp: ref_scan_def Let_def l_def)
  next
    case True
    let ?t = "drop (length l + 11) rest"
    let ?c = "c(1 \<mapsto> (i + 5, l))"
    have "mt REF_RUN_RE (i, rest, c) = mt K (i + length l + 11, ?t, ?c)"
      unfolding re mt_Cat_lit lazy tw mt_Eps_right tag_lengths using True
      by (simp add: dw l_def [symmetric] add.assoc add.commute del: mt.simps)
    then show ?thesis
      using True
      by (simp add: K_def first_plus [OF pos] first_BLOCK iter_BLOCK ref_scan_def Let_def
          l_def [symmetric] ac_simps split: option.split)
  qed
qed

text \<open>What a reported run is.\<close>

lemma REF_RUN_min_len: "0 < min_len REF_RUN_RE"
  by (simp add: REF_RUN_RE_def)

lemma run_match:
  assumes "m \<in> set (finditer REF_RUN_RE s)"
  obtains l n where "ref_scan (drop (m_start m) s) = Some (l, n)" "m_group m 1 = l"
    "m_gstart m 2 = m_start m + length l + 11" "m_end m = m_gstart m 2 + n"
    "m_group m 2 = take n (drop (m_gstart m 2) s)" "m_end m \<le> length s"
proof -
  from finditer_sound [OF REF_RUN_min_len] assms have im: "is_match REF_RUN_RE 0 s m"
    unfolding finditer_def by blast
  then have "first (mt REF_RUN_RE (m_start m, drop (m_start m) s, Map.empty)) =
      Some (m_end m, drop (m_end m) s, m_caps m)"
    by (simp add: is_match_def match_at_first)
  then obtain l n where sc: "ref_scan (drop (m_start m) s) = Some (l, n)"
    and e: "m_end m = m_start m + length l + 11 + n"
    and c: "m_caps m = Map.empty(1 \<mapsto> (m_start m + 5, l), 2 \<mapsto> (m_start m + length l + 11,
        take n (drop (length l + 11) (drop (m_start m) s))))"
    by (auto simp: first_REF_RUN Let_def split: option.splits)
  from c have "m_group m 1 = l" "m_gstart m 2 = m_start m + length l + 11"
    "m_group m 2 = take n (drop (m_start m + length l + 11) s)"
    by (simp_all add: m_group_def m_gstart_def ac_simps)
  moreover have "m_end m \<le> length s" using im by (simp add: is_match_def)
  ultimately show thesis using that [OF sc] e by simp
qed

lemma ref_scan_Some:
  assumes "ref_scan rest = Some (l, n)"
  shows "\<exists>body r. rest = ''<ref>'' @ l @ ''</ref>'' @ body @ r \<and> length body = n \<and>
    CHR ''<'' \<notin> set l \<and> py_endswith body ''</box>''"
proof -
  define t where "t = drop (5 + length l) rest"
  from assms have l: "l = takeWhile (\<lambda>c. c \<noteq> CHR ''<'') (drop 5 rest)"
    and st: "py_startswith rest ''<ref>''" "py_startswith t ''</ref>''"
    by (auto simp: ref_scan_def t_def Let_def split: if_splits option.splits)
  with assms obtain k where k: "blk_len (drop 6 t) = Some k"
    and n: "n = k + run_len (length (drop 6 t) - k) (drop k (drop 6 t))"
    by (auto simp: ref_scan_def t_def Let_def split: if_splits option.splits)
  from st obtain u v where u: "rest = ''<ref>'' @ u" and v: "t = ''</ref>'' @ v"
    by (auto simp: py_startswith_iff)
  have lu: "l = takeWhile (\<lambda>c. c \<noteq> CHR ''<'') u" using l u by simp
  have "t = drop (length l) (drop 5 rest)" by (simp add: t_def add.commute)
  then have "t = dropWhile (\<lambda>c. c \<noteq> CHR ''<'') u" by (simp add: u lu dropWhile_eq_drop)
  then have "u = l @ ''</ref>'' @ v" using v lu by (metis takeWhile_dropWhile_id)
  then have rest: "rest = ''<ref>'' @ l @ ''</ref>'' @ v" using u by simp
  have v6: "drop 6 t = v" by (simp add: v)
  have lt: "CHR ''<'' \<notin> set l" by (auto simp: lu dest: set_takeWhileD)
  note b = blk_len_le [OF k [unfolded v6]]
  have len: "n \<le> length v"
    using n b run_len_le [of "length v - k" "drop k v"] by (simp add: v6) linarith
  have ends: "py_endswith (take n v) ''</box>''"
  proof (cases "run_len (length v - k) (drop k v) = 0")
    case True
    then show ?thesis using b n by (simp add: v6)
  next
    case False
    then have "py_endswith (take (run_len (length v - k) (drop k v)) (drop k v)) ''</box>''"
      by (intro run_len_ends) simp
    moreover have "take n v = take k v @ take (run_len (length v - k) (drop k v)) (drop k v)"
      by (simp add: n v6 take_add)
    ultimately show ?thesis unfolding py_endswith_iff by auto
  qed
  show ?thesis
    by (rule exI [of _ "take n v"], rule exI [of _ "drop n v"]) (use rest len lt ends in simp)
qed

text \<open>A coordinate block that overlaps a run lies in the text of its blocks.\<close>

lemma block_in_run:
  assumes m: "m \<in> set (finditer REF_RUN_RE s)"
    and b: "coords_at k ds (drop p s) r" and "p \<le> length s"
    and ov: "overlaps (p, p + length (block_text ds)) (span m)"
  shows "m_gstart m 2 \<le> p \<and> p + length (block_text ds) \<le> m_end m"
proof -
  from run_match [OF m] obtain l n where sc: "ref_scan (drop (m_start m) s) = Some (l, n)"
    and gs: "m_gstart m 2 = m_start m + length l + 11" and e: "m_end m = m_gstart m 2 + n" by metis
  from ref_scan_Some [OF sc] obtain body r' where
    rest: "drop (m_start m) s = ''<ref>'' @ l @ ''</ref>'' @ body @ r'"
    and n: "length body = n" and l: "CHR ''<'' \<notin> set l" and be: "py_endswith body ''</box>''" by blast
  from be obtain body' where body: "body = body' @ ''</box>''" by (auto simp: py_endswith_iff)
  let ?L = "length (block_text ds)"
  from ov have o: "p < m_end m" "m_start m < p + ?L" by (simp_all add: overlaps_def span_def)
  obtain y where y: "drop p s = CHR ''<'' # CHR ''b'' # y" using block_starts [OF b] by blast
  have ge: "m_start m \<le> p"
  proof (rule ccontr)
    assume "\<not> m_start m \<le> p"
    then have "p < m_start m" by simp
    from block_inside [OF b this o(2)] rest show False by simp
  qed
  have gs': "m_gstart m 2 \<le> p"
  proof (rule ccontr)
    assume not: "\<not> m_gstart m 2 \<le> p"
    define h where "h = ''ref>'' @ l @ ''</ref>''"
    define k where "k = p - m_start m"
    have lt: "lt_next (\<lambda>x. x = CHR ''/'') h"
      unfolding h_def using lt_next_no_lt [OF l] by (intro lt_next_append) simp_all
    have "drop k (drop (m_start m) s) = drop p s" using ge by (simp add: k_def)
    then have d: "drop k (CHR ''<'' # h @ body @ r') = CHR ''<'' # CHR ''b'' # y"
      using y rest by (simp add: h_def)
    have "k < length l + 11" using not gs ge by (simp add: k_def)
    then have kl: "k < Suc (length h)" by (simp add: h_def)
    show False
    proof (cases k)
      case 0
      with d show False by (simp add: h_def)
    next
      case (Suc j)
      with kl have j: "j < length h" by simp
      with d Suc have "drop j h @ body @ r' = CHR ''<'' # CHR ''b'' # y" by simp
      from lt_next_starts [OF lt j this] show False by simp
    qed
  qed
  have en: "drop (m_end m - 6) s = ''</box>'' @ r'"
  proof -
    define x where "x = ''<ref>'' @ l @ ''</ref>'' @ body'"
    have r: "drop (m_start m) s = x @ ''</box>'' @ r'" by (simp add: rest body x_def)
    have lx: "length x = length l + 11 + length body'" by (simp add: x_def)
    have "m_end m - 6 = length x + m_start m" using e gs n body lx by simp
    then have "drop (m_end m - 6) s = drop (length x) (drop (m_start m) s)" by (simp only: drop_drop)
    then show ?thesis unfolding r by simp
  qed
  have e6: "m_start m \<le> m_end m - 6" "6 \<le> m_end m" using e gs n body by simp_all
  have "p + ?L \<le> m_end m"
  proof (rule ccontr)
    assume not: "\<not> p + ?L \<le> m_end m"
    show False
    proof (cases "p \<le> m_end m - 6")
      case True
      have "m_end m - 6 < p + ?L" using not by linarith
      from block_close [OF b True this en] not e6 show False by linarith
    next
      case False
      then obtain j where j: "p = m_end m - 6 + Suc j" "j < 5" using o(1) e6
        by (intro that [of "p - (m_end m - 6) - 1"]) auto
      then have "drop p s = drop (Suc j) (''</box>'' @ r')"
        by (metis drop_drop add.commute en)
      with y j(2) show False by (auto simp: less_Suc_eq numeral_eq_Suc)
    qed
  qed
  with gs' show ?thesis ..
qed

lemma coords_at_append: "coords_at n ds rest r \<Longrightarrow> coords_at n ds (rest @ t) (r @ t)"
  by (simp add: coords_at_def)

lemma occs_in_run:
  assumes m: "m \<in> set (finditer REF_RUN_RE s)"
  shows "(\<lambda>k. m_gstart m 2 + k) ` occs n (m_group m 2) =
    {p \<in> occs n s. overlaps (p, block_end p s) (span m)}"
proof -
  from run_match [OF m] obtain N where e: "m_end m = m_gstart m 2 + N"
    and g: "m_group m 2 = take N (drop (m_gstart m 2) s)" and le: "m_end m \<le> length s"
    and st: "m_start m \<le> m_gstart m 2"
    by (metis le_add1 add.assoc)
  let ?b = "m_gstart m 2"
  have split: "drop (?b + k) s = drop k (m_group m 2) @ drop (m_end m) s" if "k \<le> N" for k
  proof -
    have "drop ?b s = m_group m 2 @ drop N (drop ?b s)"
      unfolding g by (rule append_take_drop_id [symmetric])
    then have b: "drop ?b s = m_group m 2 @ drop (m_end m) s" by (simp add: e add.commute)
    have k: "k \<le> length (m_group m 2)" using that g e le by simp
    have "drop (?b + k) s = drop k (drop ?b s)" by (simp add: add.commute)
    also have "\<dots> = drop k (m_group m 2) @ drop (m_end m) s" unfolding b using k by simp
    finally show ?thesis .
  qed
  have lenb: "length (m_group m 2) = N" using g e le by simp
  show ?thesis
  proof (intro equalityI subsetI)
    fix p assume "p \<in> (\<lambda>k. ?b + k) ` occs n (m_group m 2)"
    then obtain k ds r where p: "p = ?b + k" and k: "k \<le> N" and c: "coords_at n ds (drop k (m_group m 2)) r"
      by (auto simp: occs_def lenb)
    from coords_at_append [OF c, of "drop (m_end m) s"]
    have c': "coords_at n ds (drop p s) (r @ drop (m_end m) s)" by (simp add: split [OF k] p)
    have len: "0 < length (block_text ds)" by (simp add: block_text_def)
    have "length (block_text ds) \<le> N - k"
      using c lenb by (metis coords_at_def length_append length_drop le_add1)
    with len have "k < N" by linarith
    then have "overlaps (p, block_end p s) (span m)"
      unfolding block_end_coords [OF c'] overlaps_def span_def using p st e len by (simp del: length_greater_0_conv)
    moreover have "p \<in> occs n s" using c' p k e le by (auto simp: occs_def)
    ultimately show "p \<in> {p \<in> occs n s. overlaps (p, block_end p s) (span m)}" by simp
  next
    fix p assume "p \<in> {p \<in> occs n s. overlaps (p, block_end p s) (span m)}"
    then obtain ds r where c: "coords_at n ds (drop p s) r" and pl: "p \<le> length s"
      and ov: "overlaps (p, block_end p s) (span m)" by (auto simp: occs_def)
    note in_run = block_in_run [OF m c pl ov [unfolded block_end_coords [OF c]]]
    define k where "k = p - ?b"
    have p: "p = ?b + k" using in_run by (simp add: k_def)
    have k: "k + length (block_text ds) \<le> N" using in_run e p by linarith
    have d: "drop k (m_group m 2) = take (N - k) (drop p s)"
      by (simp add: g p drop_take add.commute)
    have "drop p s = block_text ds @ r" using c by (simp add: coords_at_def)
    then have "drop k (m_group m 2) = block_text ds @ take (N - k - length (block_text ds)) r"
      using k by (simp add: d)
    then have "coords_at n ds (drop k (m_group m 2)) (take (N - k - length (block_text ds)) r)"
      using c by (simp add: coords_at_def)
    then have "k \<in> occs n (m_group m 2)" using k lenb by (auto simp: occs_def)
    then show "p \<in> (\<lambda>k. ?b + k) ` occs n (m_group m 2)" using p by blast
  qed
qed

section \<open>Accounting\<close>

definition in_run :: "nat \<Rightarrow> string \<Rightarrow> rmatch \<Rightarrow> nat \<Rightarrow> bool" where
  "in_run n s m p \<longleftrightarrow> overlaps (p, block_end p s) (span m)"

lemma card_occs_run:
  "m \<in> set (finditer REF_RUN_RE s) \<Longrightarrow> card (occs n (m_group m 2)) = card {p \<in> occs n s. in_run n s m p}"
  unfolding in_run_def occs_in_run [symmetric] by (simp add: card_image)

text \<open>Runs are disjoint, and a block lies within the run it overlaps, so it overlaps at most one.\<close>

lemma runs_disjoint:
  "sorted_wrt (\<lambda>m m'. \<not> (\<exists>p \<in> occs n s. in_run n s m p \<and> in_run n s m' p)) (finditer REF_RUN_RE s)"
proof -
  have "\<not> (in_run n s m p \<and> in_run n s m' p)"
    if m: "m \<in> set (finditer REF_RUN_RE s)" "m' \<in> set (finditer REF_RUN_RE s)" "m_end m \<le> m_start m'"
      and p: "p \<in> occs n s" for m m' p
  proof
    assume ov: "in_run n s m p \<and> in_run n s m' p"
    from p obtain ds r where c: "coords_at n ds (drop p s) r" and pl: "p \<le> length s"
      by (auto simp: occs_def)
    have "p + length (block_text ds) \<le> m_end m"
      using block_in_run [OF m(1) c pl] ov by (simp add: in_run_def block_end_coords [OF c])
    moreover have "m_gstart m' 2 \<le> p"
      using block_in_run [OF m(2) c pl] ov by (simp add: in_run_def block_end_coords [OF c])
    moreover have "m_start m' \<le> m_gstart m' 2" using run_match [OF m(2)] by (metis le_add1 add.assoc)
    moreover have "0 < length (block_text ds)" by (simp add: block_text_def)
    ultimately show False using m(3) by linarith
  qed
  then have disj: "m \<in> set (finditer REF_RUN_RE s) \<Longrightarrow> m' \<in> set (finditer REF_RUN_RE s) \<Longrightarrow>
      m_end m \<le> m_start m' \<Longrightarrow> \<not> (\<exists>p \<in> occs n s. in_run n s m p \<and> in_run n s m' p)" for m m'
    by blast
  show ?thesis
    by (rule sorted_wrt_mono_rel [OF disj finditer_sorted [OF REF_RUN_min_len, of 0 s, folded finditer_def]])
qed

lemma sum_card_disjoint:
  assumes "finite S"
  shows "sorted_wrt (\<lambda>m m'. \<not> (\<exists>p \<in> S. Q m p \<and> Q m' p)) ms \<Longrightarrow>
    sum_list (map (\<lambda>m. card {p \<in> S. Q m p}) ms) = card {p \<in> S. \<exists>m \<in> set ms. Q m p}"
proof (induction ms)
  case Nil
  then show ?case by simp
next
  case (Cons m ms)
  have "{p \<in> S. \<exists>m' \<in> set (m # ms). Q m' p} = {p \<in> S. Q m p} \<union> {p \<in> S. \<exists>m' \<in> set ms. Q m' p}"
    by auto
  moreover have "{p \<in> S. Q m p} \<inter> {p \<in> S. \<exists>m' \<in> set ms. Q m' p} = {}" using Cons.prems by auto
  ultimately have "card {p \<in> S. \<exists>m' \<in> set (m # ms). Q m' p} =
      card {p \<in> S. Q m p} + card {p \<in> S. \<exists>m' \<in> set ms. Q m' p}"
    using assms by (simp add: card_Un_disjoint)
  then show ?case using Cons by simp
qed

lemma runs_and_rest:
  "sum_list (map (\<lambda>m. card (occs n (m_group m 2))) (finditer REF_RUN_RE s)) +
   card {p \<in> occs n s. \<not> (\<exists>m \<in> set (finditer REF_RUN_RE s). in_run n s m p)} = card (occs n s)"
proof -
  let ?R = "finditer REF_RUN_RE s"
  have "map (\<lambda>m. card (occs n (m_group m 2))) ?R = map (\<lambda>m. card {p \<in> occs n s. in_run n s m p}) ?R"
    by (simp add: card_occs_run)
  then have "sum_list (map (\<lambda>m. card (occs n (m_group m 2))) ?R) =
      card {p \<in> occs n s. \<exists>m \<in> set ?R. in_run n s m p}"
    by (simp only: sum_card_disjoint [OF finite_occs runs_disjoint])
  moreover have "card (occs n s) = card {p \<in> occs n s. \<exists>m \<in> set ?R. in_run n s m p} +
      card {p \<in> occs n s. \<not> (\<exists>m \<in> set ?R. in_run n s m p)}"
    by (subst card_Un_disjoint [symmetric]) (auto intro: arg_cong [where f = card])
  ultimately show ?thesis by simp
qed

lemma mapr_sum:
  "mapr f xs = Inr ys \<Longrightarrow> (\<And>x y. x \<in> set xs \<Longrightarrow> f x = Inr y \<Longrightarrow> length (fst y) + snd y = h x) \<Longrightarrow>
   length (concat (map fst ys)) + sum_list (map snd ys) = sum_list (map h xs)"
proof (induction xs arbitrary: ys)
  case Nil
  then show ?case by simp
next
  case (Cons x xs)
  then obtain y zs where ys: "ys = y # zs" "f x = Inr y" "mapr f xs = Inr zs"
    by (auto simp: bindr_eq_Inr)
  have "length (fst y) + snd y = h x" using Cons.prems(2) ys(2) by simp
  moreover have "length (concat (map fst zs)) + sum_list (map snd zs) = sum_list (map h xs)"
    using Cons.IH [OF ys(3)] Cons.prems(2) by simp
  ultimately show ?case by (simp add: ys(1))
qed

lemma boxes_of_run_count:
  "boxes_of_run W H m = Inr y \<Longrightarrow> length (fst y) + snd y = card (occs 4 (m_group m 2))"
  by (auto simp: boxes_of_run_def Let_def bindr_eq_Inr box.length_finditer [symmetric]
      dest: mapr_length split: if_splits)

lemma parse_boxes_accounts:
  assumes "parse_boxes answer W H = Inr (ds, off)"
  shows "length ds + off = card (occs 4 answer)"
proof -
  let ?R = "finditer REF_RUN_RE answer"
  from assms obtain rs where rs: "mapr (boxes_of_run W H) ?R = Inr rs"
    and ds: "ds = concat (map fst rs)"
    and off: "off = sum_list (map snd rs) +
      length (filter (\<lambda>m. \<not> (\<exists>iv \<in> set (map span ?R). overlaps (span m) iv)) (finditer BOX_RE answer))"
    by (auto simp: parse_boxes_def Let_def bindr_eq_Inr)
  have "length (filter (\<lambda>m. \<not> (\<exists>iv \<in> set (map span ?R). overlaps (span m) iv)) (finditer BOX_RE answer)) =
      card {p \<in> occs 4 answer. \<not> (\<exists>m \<in> set ?R. in_run 4 answer m p)}"
    using box.length_filter_finditer [of "\<lambda>sp. \<not> (\<exists>iv \<in> set (map span ?R). overlaps sp iv)" answer]
    by (simp add: in_run_def)
  moreover have "length ds + sum_list (map snd rs) = sum_list (map (\<lambda>m. card (occs 4 (m_group m 2))) ?R)"
    unfolding ds by (rule mapr_sum [OF rs]) (rule boxes_of_run_count)
  ultimately show ?thesis using runs_and_rest [of 4 answer] off by simp
qed

text \<open>Points: no box ever shadows a point, so the two de-duplication filters only separate the passes.\<close>

lemma no_shadow:
  assumes "p \<in> occs 2 s" and "m \<in> set (finditer BOX_RE s)"
  shows "\<not> overlaps (p, block_end p s) (span m)"
proof
  assume ov: "overlaps (p, block_end p s) (span m)"
  from assms(1) obtain ds r where c: "coords_at 2 ds (drop p s) r" by (auto simp: occs_def)
  from box.sound [OF assms(2)] obtain ds' r' where b: "coords_at 4 ds' (drop (m_start m) s) r'"
    and e: "m_end m = m_start m + length (block_text ds')" by metis
  have "p \<noteq> m_start m"
  proof
    assume "p = m_start m"
    with coords_unique [OF c] b have "ds = ds'" by blast
    with b c show False by (simp add: coords_at_def)
  qed
  then consider "p < m_start m" | "m_start m < p" by linarith
  then show False
  proof cases
    case 1
    from blocks_disjoint [OF c b 1] ov show False
      by (simp add: overlaps_def span_def block_end_coords [OF c])
  next
    case 2
    from blocks_disjoint [OF b c 2] ov e show False by (simp add: overlaps_def span_def)
  qed
qed

lemma run_points_all:
  assumes m: "m \<in> set (finditer REF_RUN_RE s)"
  shows "run_point_matches (map span (finditer BOX_RE s)) m =
      map (\<lambda>pm. (pm, m_gstart m 2 + m_start pm, m_gstart m 2 + m_end pm)) (finditer POINT_RE (m_group m 2))"
    and "snd ` set (run_point_matches (map span (finditer BOX_RE s)) m) =
      (\<lambda>p. (p, block_end p s)) ` {p \<in> occs 2 s. in_run 2 s m p}"
proof -
  let ?b = "m_gstart m 2"
  have abs: "?b + m_start pm \<in> {p \<in> occs 2 s. in_run 2 s m p} \<and>
      ?b + m_end pm = block_end (?b + m_start pm) s"
    if pm: "pm \<in> set (finditer POINT_RE (m_group m 2))" for pm
  proof -
    have "m_start pm \<in> occs 2 (m_group m 2)" using pm point.starts by blast
    then have 1: "?b + m_start pm \<in> {p \<in> occs 2 s. in_run 2 s m p}"
      using occs_in_run [OF m, of 2] by (auto simp: in_run_def)
    then obtain ds r where c: "coords_at 2 ds (drop (?b + m_start pm) s) r" by (auto simp: occs_def)
    from point.sound [OF pm] obtain ds' r' where c': "coords_at 2 ds' (drop (m_start pm) (m_group m 2)) r'"
      and e: "m_end pm = m_start pm + length (block_text ds')" and l: "m_start pm \<le> length (m_group m 2)"
      by metis
    from run_match [OF m] obtain n where g: "m_group m 2 = take n (drop ?b s)" by metis
    have "drop (?b + m_start pm) s = drop (m_start pm) (m_group m 2 @ drop n (drop ?b s))"
      unfolding g append_take_drop_id by (simp add: add.commute)
    also have "\<dots> = drop (m_start pm) (m_group m 2) @ drop n (drop ?b s)" using l by simp
    finally have "coords_at 2 ds' (drop (?b + m_start pm) s) (r' @ drop n (drop ?b s))"
      using coords_at_append [OF c'] by simp
    from block_end_coords [OF this] e 1 show ?thesis by simp
  qed
  have "\<not> (\<exists>iv \<in> set (map span (finditer BOX_RE s)). overlaps (?b + m_start pm, ?b + m_end pm) iv)"
    if "pm \<in> set (finditer POINT_RE (m_group m 2))" for pm
    using abs [OF that] no_shadow by auto
  then show eq: "run_point_matches (map span (finditer BOX_RE s)) m =
      map (\<lambda>pm. (pm, ?b + m_start pm, ?b + m_end pm)) (finditer POINT_RE (m_group m 2))"
    unfolding run_point_matches_def Let_def by (intro filter_True) auto
  have "{p \<in> occs 2 s. in_run 2 s m p} = (\<lambda>pm. ?b + m_start pm) ` set (finditer POINT_RE (m_group m 2))"
    using occs_in_run [OF m, of 2] point.starts [of "m_group m 2", symmetric]
    by (simp add: in_run_def image_image)
  then show "snd ` set (run_point_matches (map span (finditer BOX_RE s)) m) =
      (\<lambda>p. (p, block_end p s)) ` {p \<in> occs 2 s. in_run 2 s m p}"
    unfolding eq using abs by (auto simp: image_image)
qed

lemma same_block:
  assumes "p \<in> occs n s" and "q \<in> occs n' s" and "overlaps (p, block_end p s) (q, block_end q s)"
  shows "p = q"
proof (rule ccontr)
  assume "p \<noteq> q"
  from assms obtain ds r ds' r' where c: "coords_at n ds (drop p s) r" "coords_at n' ds' (drop q s) r'"
    by (auto simp: occs_def)
  from \<open>p \<noteq> q\<close> consider "p < q" | "q < p" by linarith
  then show False
    using blocks_disjoint [OF c] blocks_disjoint [OF c(2,1)] assms(3)
    by cases (auto simp: overlaps_def block_end_coords [OF c(1)] block_end_coords [OF c(2)])
qed

text \<open>The points the second pass looks at.\<close>

definition bare_matches :: "string \<Rightarrow> rmatch list" where
  "bare_matches s = filter (\<lambda>m. \<not> (\<exists>iv \<in> set (map span (finditer BOX_RE s)). overlaps (span m) iv) \<and>
       \<not> (\<exists>iv \<in> set (concat (map (\<lambda>m. map snd (run_point_matches (map span (finditer BOX_RE s)) m))
             (finditer REF_RUN_RE s))). overlaps (span m) iv)) (finditer POINT_RE s)"

lemma parse_points_unfold:
  "parse_points s W H lbl = bindr (mapr (points_of_run W H (map span (finditer BOX_RE s))) (finditer REF_RUN_RE s)) (\<lambda>rs.
      case lbl of
        Some (l # ls) \<Rightarrow> bindr (mapr (point_of_match (l # ls) W H) (bare_matches s)) (\<lambda>ps.
          ret (concat (map fst rs) @ ps, sum_list (map snd rs)))
      | _ \<Rightarrow> ret (concat (map fst rs), sum_list (map snd rs) + length (bare_matches s)))"
  by (simp only: parse_points_def Let_def bare_matches_def)

lemma bare_points:
  "length (bare_matches s) = card {p \<in> occs 2 s. \<not> (\<exists>m \<in> set (finditer REF_RUN_RE s). in_run 2 s m p)}"
proof -
  let ?R = "finditer REF_RUN_RE s"
  let ?B = "map span (finditer BOX_RE s)"
  let ?C = "concat (map (\<lambda>m. map snd (run_point_matches ?B m)) ?R)"
  have C: "set ?C = (\<lambda>p. (p, block_end p s)) ` {p \<in> occs 2 s. \<exists>m \<in> set ?R. in_run 2 s m p}"
    using run_points_all(2) by (force simp: image_iff)
  have "{p \<in> occs 2 s. \<not> (\<exists>iv \<in> set ?B. overlaps (p, block_end p s) iv) \<and>
        \<not> (\<exists>iv \<in> set ?C. overlaps (p, block_end p s) iv)} =
      {p \<in> occs 2 s. \<not> (\<exists>m \<in> set ?R. in_run 2 s m p)}" (is "?L = ?S")
  proof (intro equalityI subsetI)
    fix p assume p: "p \<in> ?L"
    have "overlaps (p, block_end p s) (p, block_end p s)"
      by (simp add: overlaps_def block_end_def)
    with p show "p \<in> ?S" unfolding C by blast
  next
    fix p assume p: "p \<in> ?S"
    then have "\<not> (\<exists>iv \<in> set ?B. overlaps (p, block_end p s) iv)" using no_shadow by auto
    moreover have "\<not> (\<exists>iv \<in> set ?C. overlaps (p, block_end p s) iv)"
      unfolding C using p same_block by blast
    ultimately show "p \<in> ?L" using p by simp
  qed
  then show ?thesis
    using point.length_filter_finditer [of "\<lambda>sp. \<not> (\<exists>iv \<in> set ?B. overlaps sp iv) \<and>
        \<not> (\<exists>iv \<in> set ?C. overlaps sp iv)" s] by (simp add: bare_matches_def)
qed

lemma points_of_run_count:
  assumes "m \<in> set (finditer REF_RUN_RE s)"
    and "points_of_run W H (map span (finditer BOX_RE s)) m = Inr y"
  shows "length (fst y) + snd y = card (occs 2 (m_group m 2))"
proof -
  have "map fst (run_point_matches (map span (finditer BOX_RE s)) m) = finditer POINT_RE (m_group m 2)"
    by (simp add: run_points_all(1) [OF assms(1)] comp_def)
  with assms(2) show ?thesis
    by (auto simp: points_of_run_def Let_def bindr_eq_Inr point.length_finditer [symmetric]
        dest: mapr_length split: if_splits)
qed

lemma parse_points_accounts:
  assumes "parse_points answer W H lbl = Inr (ps, off)"
  shows "length ps + off = card (occs 2 answer)"
proof -
  let ?R = "finditer REF_RUN_RE answer"
  from assms obtain rs where rs: "mapr (points_of_run W H (map span (finditer BOX_RE answer))) ?R = Inr rs"
    and k: "(case lbl of
        Some (l # ls) \<Rightarrow> bindr (mapr (point_of_match (l # ls) W H) (bare_matches answer)) (\<lambda>ps.
          ret (concat (map fst rs) @ ps, sum_list (map snd rs)))
      | _ \<Rightarrow> ret (concat (map fst rs), sum_list (map snd rs) + length (bare_matches answer))) = Inr (ps, off)"
    unfolding parse_points_unfold by (auto simp: bindr_eq_Inr)
  from k have "length ps + off = length (concat (map fst rs)) + sum_list (map snd rs) + length (bare_matches answer)"
    by (cases lbl; cases "the lbl") (auto simp: bindr_eq_Inr dest: mapr_length)
  moreover have "length (concat (map fst rs)) + sum_list (map snd rs) =
      sum_list (map (\<lambda>m. card (occs 2 (m_group m 2))) ?R)"
    by (rule mapr_sum [OF rs]) (rule points_of_run_count)
  ultimately show ?thesis using bare_points [of answer] runs_and_rest [of 2 answer] by simp
qed

section \<open>Malformed and abstention blocks\<close>

definition none_blocks :: "string set" where
  "none_blocks = {''<box>None</box>'', ''<box>none</box>''}"

lemma coords_at_Nil: "coords_at n ds t r \<Longrightarrow> \<exists>ds'. coords_at n ds' (block_text ds) []"
  by (auto simp: coords_at_def)

lemma fullmatch_find: "fullmatch r s \<longleftrightarrow> (\<exists>j c. (j, [], c) \<in> set (mt r (0, s, Map.empty)))"
  by (auto simp: fullmatch_def find_None_iff)

lemma fullmatch_BOX: "fullmatch BOX_RE t \<longleftrightarrow> (\<exists>ds. coords_at 4 ds t [])"
proof
  assume "fullmatch BOX_RE t"
  then obtain j c where j: "(j, [], c) \<in> set (mt BOX_RE (0, t, Map.empty))"
    by (auto simp: fullmatch_find)
  then have "mt BOX_RE (0, t, Map.empty) \<noteq> []" by auto
  from BOX_inv [OF this] obtain ds r where c: "coords_at 4 ds t r" by blast
  then obtain a b d e where "ds = [a, b, d, e]" "t = block_text ds @ r"
    "numeral_str a" "numeral_str b" "numeral_str d" "numeral_str e"
    by (auto simp: coords_at_def length_4)
  with j have "r = []" by (simp add: BOX_mt)
  with c show "\<exists>ds. coords_at 4 ds t []" by blast
next
  assume "\<exists>ds. coords_at 4 ds t []"
  then obtain a b d e where "t = block_text [a, b, d, e] @ []"
    "numeral_str a" "numeral_str b" "numeral_str d" "numeral_str e"
    by (auto simp: coords_at_def length_4)
  then show "fullmatch BOX_RE t" unfolding fullmatch_find by (simp only: BOX_mt) auto
qed

lemma fullmatch_POINT: "fullmatch POINT_RE t \<longleftrightarrow> (\<exists>ds. coords_at 2 ds t [])"
proof
  assume "fullmatch POINT_RE t"
  then obtain j c where j: "(j, [], c) \<in> set (mt POINT_RE (0, t, Map.empty))"
    by (auto simp: fullmatch_find)
  then have "mt POINT_RE (0, t, Map.empty) \<noteq> []" by auto
  from POINT_inv [OF this] obtain ds r where c: "coords_at 2 ds t r" by blast
  then obtain a b where "ds = [a, b]" "t = block_text ds @ r" "numeral_str a" "numeral_str b"
    by (auto simp: coords_at_def length_2)
  with j have "r = []" by (simp add: POINT_mt)
  with c show "\<exists>ds. coords_at 2 ds t []" by blast
next
  assume "\<exists>ds. coords_at 2 ds t []"
  then obtain a b where "t = block_text [a, b] @ []" "numeral_str a" "numeral_str b"
    by (auto simp: coords_at_def length_2)
  then show "fullmatch POINT_RE t" unfolding fullmatch_find by (simp only: POINT_mt) auto
qed

lemma mt_NONE: "mt NONE_RE (i, rest, c) =
    (if py_startswith rest ''<box>None</box>'' \<or> py_startswith rest ''<box>none</box>''
     then [(i + 15, drop 15 rest, c)] else [])"
proof (cases "py_startswith rest ''<box>''")
  case False
  then have "\<not> py_startswith rest ''<box>None</box>''" "\<not> py_startswith rest ''<box>none</box>''"
    by (auto simp: py_startswith_iff)
  with False show ?thesis by (simp add: NONE_RE_def seq_def mt_Cat_lit del: mt.simps(3))
next
  case True
  then obtain u where u: "rest = ''<box>'' @ u" by (auto simp: py_startswith_iff)
  show ?thesis
  proof (cases u)
    case Nil
    then show ?thesis by (simp add: NONE_RE_def seq_def mt_lit u)
  next
    case (Cons x v)
    then show ?thesis
      by (simp add: NONE_RE_def seq_def u mt_lit numeral_eq_Suc)
  qed
qed

lemma fullmatch_NONE: "fullmatch NONE_RE t \<longleftrightarrow> t \<in> none_blocks"
  by (auto simp: fullmatch_find mt_NONE none_blocks_def py_startswith_iff split: if_splits)

lemma first_ANY: "first (mt ANY_BOX_RE (i, rest, c)) = (if py_startswith rest ''<box>'' then
    map_option (\<lambda>k. (i + k + 11, drop (k + 11) rest, c)) (py_find ''</box>'' (drop 5 rest)) else None)"
proof -
  have "mt ANY_BOX_RE (i, rest, c) = (if py_startswith rest ''<box>''
      then mt (Cat (LazyStar cls_any) (lit ''</box>'')) (i + 5, drop 5 rest, c) else [])"
    unfolding ANY_BOX_RE_def seq_def foldr.simps comp_apply id_apply mt_Cat_lit tag_lengths
    by (simp only: mt_Eps_right [of "Cat (LazyStar cls_any) (lit ''</box>'')", unfolded mt_Cat_assoc])
  then show ?thesis
    by (simp add: first_lazy_any ac_simps numeral_eq_Suc del: mt.simps)
qed

lemma ANY_min_len: "0 < min_len ANY_BOX_RE"
  by (simp add: ANY_BOX_RE_def)

lemma coords_ANY:
  assumes "coords_at n ds rest r"
  shows "match_at ANY_BOX_RE i rest \<noteq> None"
proof -
  have "rest = ''<box>'' @ concat (map (\<lambda>d. ''<'' @ d @ ''>'') ds) @ ''</box>'' @ r"
    using assms by (simp add: coords_at_def block_text_def)
  then obtain w where rest: "rest = ''<box>'' @ w @ ''</box>'' @ r" by blast
  have "py_find ''</box>'' (drop 5 rest) \<noteq> None"
    unfolding py_find_None rest by (auto intro!: exI [of _ "length w"])
  then show ?thesis by (auto simp: match_at_first first_ANY rest)
qed

lemma no_blocks_iff:
  "occs 4 s = {} \<and> occs 2 s = {} \<and> count_malformed_geometry s = 0 \<longleftrightarrow>
   (\<forall>m \<in> set (finditer ANY_BOX_RE s). m_text m \<in> none_blocks)"
proof
  assume a: "occs 4 s = {} \<and> occs 2 s = {} \<and> count_malformed_geometry s = 0"
  show "\<forall>m \<in> set (finditer ANY_BOX_RE s). m_text m \<in> none_blocks"
  proof
    fix m assume m: "m \<in> set (finditer ANY_BOX_RE s)"
    then have im: "is_match ANY_BOX_RE 0 s m"
      using finditer_sound [OF ANY_min_len] by (simp add: finditer_def)
    then have t: "m_text m = take (m_end m - m_start m) (drop (m_start m) s)" by (simp add: is_match_def)
    have no: "\<not> coords_at n ds (m_text m) []" if "n = 4 \<or> n = 2" for n ds
    proof
      assume c: "coords_at n ds (m_text m) []"
      have "drop (m_start m) s = m_text m @ drop (m_end m - m_start m) (drop (m_start m) s)"
        unfolding t by (rule append_take_drop_id [symmetric])
      then have "coords_at n ds (drop (m_start m) s) (drop (m_end m - m_start m) (drop (m_start m) s))"
        using coords_at_append [OF c] by (metis append_Nil)
      then have "m_start m \<in> occs n s" using im by (auto simp: occs_def is_match_def)
      with a that show False by auto
    qed
    from a m have "fullmatch BOX_RE (m_text m) \<or> fullmatch POINT_RE (m_text m) \<or> fullmatch NONE_RE (m_text m)"
      by (simp add: count_malformed_geometry_def Let_def filter_empty_conv)
    then show "m_text m \<in> none_blocks"
      using no unfolding fullmatch_BOX fullmatch_POINT fullmatch_NONE by blast
  qed
next
  assume a: "\<forall>m \<in> set (finditer ANY_BOX_RE s). m_text m \<in> none_blocks"
  have "occs n s = {}" if n: "0 < n" for n
  proof (rule ccontr)
    assume "occs n s \<noteq> {}"
    then obtain p ds r where p: "p \<le> length s" and c: "coords_at n ds (drop p s) r"
      by (auto simp: occs_def)
    from finditer_covers [OF ANY_min_len _ p, of 0] coords_ANY [OF c]
    obtain m where m: "m \<in> set (finditer ANY_BOX_RE s)" "m_start m \<le> p" "p < m_end m"
      by (auto simp: finditer_def)
    then have im: "is_match ANY_BOX_RE 0 s m"
      using finditer_sound [OF ANY_min_len] by (simp add: finditer_def)
    define k where "k = p - m_start m"
    have t: "m_text m = take (m_end m - m_start m) (drop (m_start m) s)"
      and e: "m_end m \<le> length s" using im by (simp_all add: is_match_def)
    then have len: "length (m_text m) = m_end m - m_start m" by simp
    with a m(1) have "m_end m - m_start m = 15" by (auto simp: none_blocks_def)
    with m have k: "k < 15" by (simp add: k_def)
    have "drop (m_start m) s = m_text m @ drop (m_end m - m_start m) (drop (m_start m) s)"
      unfolding t by (rule append_take_drop_id [symmetric])
    moreover have "drop p s = drop k (drop (m_start m) s)" using m(2) by (simp add: k_def)
    ultimately have d: "drop p s = drop k (m_text m @ drop (m_end m) s)" using m by simp
    from c n obtain w where "drop p s = ''<box><'' @ w"
      by (cases ds) (auto simp: coords_at_def block_text_def)
    with d have "drop k (m_text m @ drop (m_end m) s) = ''<box><'' @ w" by simp
    with k a m(1) show False
      by (auto simp: none_blocks_def less_Suc_eq numeral_eq_Suc)
  qed
  then have "occs 4 s = {}" "occs 2 s = {}" by simp_all
  moreover have "count_malformed_geometry s = 0"
    using a by (simp add: count_malformed_geometry_def Let_def filter_empty_conv fullmatch_NONE)
  ultimately show "occs 4 s = {} \<and> occs 2 s = {} \<and> count_malformed_geometry s = 0" by simp
qed

section \<open>The geometry of emitted detections and points\<close>

lemma clamp_coord_range: "0 \<le> clamp_coord c \<and> clamp_coord c \<le> 1000"
  by (simp add: clamp_coord_def)

lemma clamp_coord_id [simp]: "0 \<le> c \<Longrightarrow> c \<le> 1000 \<Longrightarrow> clamp_coord c = c"
  by (simp add: clamp_coord_def)

lemma py_round_mono: "x \<le> y \<Longrightarrow> py_round n x \<le> py_round n y"
  unfolding py_round_def by (intro fl_mono divide_right_mono) (simp_all add: rne_mono mult_right_mono)

lemma py_round_0 [simp]: "py_round n 0 = 0"
  by (simp add: py_round_def)

lemma py_round_of_int:
  assumes "\<bar>k\<bar> \<le> 2 ^ 53"
  shows "py_round n (of_int k) = of_int k"
proof -
  have "rne (of_int k * 10 ^ n) = k * 10 ^ n" using rne_of_int [of "k * 10 ^ n"] by simp
  then show ?thesis using fl_of_int [OF assms] by (simp add: py_round_def)
qed

lemma scale_px_mono: "c \<le> c' \<Longrightarrow> 0 \<le> W \<Longrightarrow> scale_px c W \<le> scale_px c' W"
  unfolding scale_px_def
  by (intro py_round_mono fl_mono mult_right_mono fl_nonneg) (simp_all add: divide_right_mono)

lemma scale_px_0 [simp]: "scale_px 0 W = 0"
  by (simp add: scale_px_def)

lemma scale_px_1000: "\<bar>W\<bar> \<le> 2 ^ 53 \<Longrightarrow> scale_px 1000 W = of_int W"
  using fl_of_int [of 1] by (simp add: scale_px_def fl_of_int py_round_of_int)

lemma scale_px_range:
  assumes "0 \<le> c" "c \<le> 1000" "0 \<le> W" "W \<le> 2 ^ 53"
  shows "0 \<le> scale_px c W \<and> scale_px c W \<le> of_int W"
  using scale_px_mono [of 0 c W] scale_px_mono [of c 1000 W] scale_px_1000 [of W] assms by simp

text \<open>A label read from a \<open><ref>\<close> of the answer.\<close>

definition ref_label :: "string \<Rightarrow> string \<Rightarrow> bool" where
  "ref_label s l \<longleftrightarrow> l \<noteq> [] \<and> trimmed l \<and>
     (\<exists>pre raw post. s = pre @ ''<ref>'' @ raw @ ''</ref>'' @ post \<and> l = py_strip raw)"

definition box_ok :: "string \<Rightarrow> int \<Rightarrow> int \<Rightarrow> detection \<Rightarrow> bool" where
  "box_ok s W H d \<longleftrightarrow> ref_label s (d_label d) \<and>
     (\<exists>x1 y1 x2 y2. bbox_norm d = [x1, y1, x2, y2] \<and>
        0 \<le> x1 \<and> x1 \<le> x2 \<and> x2 \<le> 1000 \<and> 0 \<le> y1 \<and> y1 \<le> y2 \<and> y2 \<le> 1000 \<and>
        bbox_px d = [scale_px x1 W, scale_px y1 H, scale_px x2 W, scale_px y2 H]) \<and>
     (\<exists>px1 py1 px2 py2. bbox_px d = [px1, py1, px2, py2] \<and>
        0 \<le> px1 \<and> px1 \<le> px2 \<and> px2 \<le> of_int W \<and> 0 \<le> py1 \<and> py1 \<le> py2 \<and> py2 \<le> of_int H)"

definition point_ok :: "string \<Rightarrow> string option \<Rightarrow> int \<Rightarrow> int \<Rightarrow> point \<Rightarrow> bool" where
  "point_ok s lbl W H p \<longleftrightarrow> (ref_label s (p_label p) \<or> p_label p \<noteq> [] \<and> lbl = Some (p_label p)) \<and>
     (\<exists>x y. point_norm p = [x, y] \<and> 0 \<le> x \<and> x \<le> 1000 \<and> 0 \<le> y \<and> y \<le> 1000 \<and>
        point_px p = [scale_px x W, scale_px y H]) \<and>
     (\<exists>px py. point_px p = [px, py] \<and> 0 \<le> px \<and> px \<le> of_int W \<and> 0 \<le> py \<and> py \<le> of_int H)"

lemma make_box_ok:
  assumes "ref_label s l" and "0 \<le> W" "W \<le> 2 ^ 53" "0 \<le> H" "H \<le> 2 ^ 53"
  shows "box_ok s W H (make_box l x1 y1 x2 y2 W H)"
proof -
  have m: "min (clamp_coord a) (clamp_coord b) \<le> max (clamp_coord a) (clamp_coord b)"
    "0 \<le> min (clamp_coord a) (clamp_coord b)" "max (clamp_coord a) (clamp_coord b) \<le> 1000"
    "0 \<le> max (clamp_coord a) (clamp_coord b)" for a b
    using clamp_coord_range [of a] clamp_coord_range [of b] by (auto simp: min_def max_def)
  note ord = scale_px_mono [OF m(1)] and rng = scale_px_range [OF m(4) m(3)]
    and rng0 = scale_px_mono [OF m(2)]
  show ?thesis
    unfolding box_ok_def make_box_def Let_def
    using assms m ord rng rng0 by (auto simp: min.coboundedI1)
qed

lemma make_point_ok:
  assumes "ref_label s l \<or> l \<noteq> [] \<and> lbl = Some l" and "0 \<le> W" "W \<le> 2 ^ 53" "0 \<le> H" "H \<le> 2 ^ 53"
  shows "point_ok s lbl W H (make_point l x y W H)"
  unfolding point_ok_def make_point_def Let_def
  using assms clamp_coord_range [of x] clamp_coord_range [of y]
    scale_px_range [of "clamp_coord x" W] scale_px_range [of "clamp_coord y" H] by auto

lemma run_ref_label:
  assumes "m \<in> set (finditer REF_RUN_RE s)" and "py_strip (m_group m 1) \<noteq> []"
  shows "ref_label s (py_strip (m_group m 1))"
proof -
  from run_match [OF assms(1)] obtain l n where sc: "ref_scan (drop (m_start m) s) = Some (l, n)"
    and g: "m_group m 1 = l" by metis
  from ref_scan_Some [OF sc] obtain post where "drop (m_start m) s = ''<ref>'' @ l @ ''</ref>'' @ post"
    by blast
  then have "s = take (m_start m) s @ ''<ref>'' @ l @ ''</ref>'' @ post"
    by (metis append_take_drop_id)
  then show ?thesis using assms(2) g trimmed_py_strip unfolding ref_label_def by blast
qed

lemma mapr_concat_all:
  assumes "mapr f xs = Inr ys" and "\<And>x y z. x \<in> set xs \<Longrightarrow> f x = Inr y \<Longrightarrow> z \<in> set (fst y) \<Longrightarrow> P z"
  shows "\<forall>z \<in> set (concat (map fst ys)). P z"
  using mapr_Inr_all [OF assms(1)] assms(2) by fastforce

lemma parse_boxes_ok:
  assumes "parse_boxes s W H = Inr (ds, off)" and "0 \<le> W" "W \<le> 2 ^ 53" "0 \<le> H" "H \<le> 2 ^ 53"
  shows "\<forall>d \<in> set ds. box_ok s W H d"
proof -
  from assms(1) obtain rs where rs: "mapr (boxes_of_run W H) (finditer REF_RUN_RE s) = Inr rs"
    and ds: "ds = concat (map fst rs)"
    by (auto simp: parse_boxes_def Let_def bindr_eq_Inr)
  show ?thesis
    unfolding ds
  proof (rule mapr_concat_all [OF rs])
    fix m y d
    assume m: "m \<in> set (finditer REF_RUN_RE s)" and y: "boxes_of_run W H m = Inr y" and d: "d \<in> set (fst y)"
    from y d have ne: "py_strip (m_group m 1) \<noteq> []"
      by (auto simp: boxes_of_run_def Let_def split: if_splits)
    with y d obtain bm c where
      "d = make_box (py_strip (m_group m 1)) (c ! 0) (c ! 1) (c ! 2) (c ! 3) W H"
      by (auto simp: boxes_of_run_def Let_def bindr_eq_Inr dest!: mapr_Inr_all)
    with make_box_ok [OF run_ref_label [OF m ne]] assms show "box_ok s W H d" by simp
  qed
qed

lemma parse_points_ok:
  assumes "parse_points s W H lbl = Inr (ps, off)" and "0 \<le> W" "W \<le> 2 ^ 53" "0 \<le> H" "H \<le> 2 ^ 53"
  shows "\<forall>p \<in> set ps. point_ok s lbl W H p"
proof -
  let ?B = "map span (finditer BOX_RE s)"
  from assms(1) obtain rs where rs: "mapr (points_of_run W H ?B) (finditer REF_RUN_RE s) = Inr rs"
    and k: "(case lbl of
        Some (l # ls) \<Rightarrow> bindr (mapr (point_of_match (l # ls) W H) (bare_matches s)) (\<lambda>ps.
          ret (concat (map fst rs) @ ps, sum_list (map snd rs)))
      | _ \<Rightarrow> ret (concat (map fst rs), sum_list (map snd rs) + length (bare_matches s))) = Inr (ps, off)"
    unfolding parse_points_unfold by (auto simp: bindr_eq_Inr)
  have run_ok: "\<forall>p \<in> set (concat (map fst rs)). point_ok s lbl W H p"
  proof (rule mapr_concat_all [OF rs])
    fix m y p
    assume m: "m \<in> set (finditer REF_RUN_RE s)" and y: "points_of_run W H ?B m = Inr y" and p: "p \<in> set (fst y)"
    from y p have ne: "py_strip (m_group m 1) \<noteq> []"
      by (auto simp: points_of_run_def Let_def split: if_splits)
    with y p obtain c where "p = make_point (py_strip (m_group m 1)) (c ! 0) (c ! 1) W H"
      by (auto simp: points_of_run_def point_of_match_def Let_def bindr_eq_Inr dest!: mapr_Inr_all)
    with make_point_ok [of s "py_strip (m_group m 1)" lbl] run_ref_label [OF m ne] assms
    show "point_ok s lbl W H p" by simp
  qed
  show ?thesis
  proof (cases "\<exists>l ls. lbl = Some (l # ls)")
    case False
    with k have "ps = concat (map fst rs)" by (auto split: option.splits list.splits)
    with run_ok show ?thesis by simp
  next
    case True
    then obtain l ls where lbl: "lbl = Some (l # ls)" by blast
    with k obtain qs where qs: "mapr (point_of_match (l # ls) W H) (bare_matches s) = Inr qs"
      and ps: "ps = concat (map fst rs) @ qs" by (auto simp: bindr_eq_Inr)
    have "point_ok s lbl W H q" if "q \<in> set qs" for q
    proof -
      from mapr_Inr_all [OF qs that] obtain c where "q = make_point (l # ls) (c ! 0) (c ! 1) W H"
        by (auto simp: point_of_match_def bindr_eq_Inr)
      with make_point_ok [of s "l # ls" lbl] lbl assms show ?thesis by simp
    qed
    with run_ok ps show ?thesis by auto
  qed
qed

end
