(* ===== verification/Parsing_Grammar.thy ===== *)
theory Parsing_Grammar
  imports Parsing
begin

text \<open>
  The answer language the model is trained on, as data: groups \<open><ref>label</ref>\<close> followed by
  coordinate blocks of any arity and \<open>None\<close> blocks, then a tail without tags of the parser
  (\<open><|im_end|>\<close>). Printing an answer and parsing it gives its boxes, its points and the number of
  its malformed blocks back; a point answer without references gets the queried phrase as label.
\<close>

section \<open>Answers as data\<close>

datatype answer_block = Coords "nat list" | NoneBlock

fun show_block :: "answer_block \<Rightarrow> string" where
  "show_block (Coords cs) = block_text (map dec_digits cs)"
| "show_block NoneBlock = ''<box>None</box>''"

definition show_blocks :: "answer_block list \<Rightarrow> string" where
  "show_blocks bs = concat (map show_block bs)"

type_synonym answer_group = "string \<times> answer_block list"

definition show_group :: "answer_group \<Rightarrow> string" where
  "show_group g = ''<ref>'' @ fst g @ ''</ref>'' @ show_blocks (snd g)"

definition show_answer :: "answer_group list \<Rightarrow> string \<Rightarrow> string" where
  "show_answer gs tail = concat (map show_group gs) @ tail"

fun coords_of :: "nat \<Rightarrow> answer_block list \<Rightarrow> nat list list" where
  "coords_of n [] = []"
| "coords_of n (Coords cs # bs) = (if length cs = n then cs # coords_of n bs else coords_of n bs)"
| "coords_of n (NoneBlock # bs) = coords_of n bs"

text \<open>A block of the grid has coordinates up to 1000.\<close>

fun block_ok :: "answer_block \<Rightarrow> bool" where
  "block_ok (Coords cs) = (\<forall>c \<in> set cs. c \<le> 1000)"
| "block_ok NoneBlock = True"

definition group_ok :: "answer_group \<Rightarrow> bool" where
  "group_ok g \<longleftrightarrow> fst g \<noteq> [] \<and> trimmed (fst g) \<and> CHR ''<'' \<notin> set (fst g) \<and>
     snd g \<noteq> [] \<and> (\<forall>b \<in> set (snd g). block_ok b)"

definition tail_ok :: "string \<Rightarrow> bool" where
  "tail_ok t \<longleftrightarrow> lt_next (\<lambda>x. x \<noteq> CHR ''b'' \<and> x \<noteq> CHR ''r'') t"

section \<open>Skipping text\<close>

lemma search_skip:
  "(\<And>k. k < length t \<Longrightarrow> match_at r (i + k) (drop k t @ rest) = None) \<Longrightarrow>
   search_from r i (t @ rest) = search_from r (i + length t) rest"
proof (induction t arbitrary: i)
  case Nil
  then show ?case by simp
next
  case (Cons x t)
  have "match_at r i (x # t @ rest) = None" using Cons.prems [of 0] by simp
  then have "search_from r i ((x # t) @ rest) = search_from r (Suc i) (t @ rest)"
    by (subst search_from.simps) simp
  also have "\<dots> = search_from r (Suc i + length t) rest"
    by (rule Cons.IH) (use Cons.prems [of "Suc _"] in simp)
  finally show ?case by simp
qed

lemma finditer_cong: "search_from r i s = search_from r j t \<Longrightarrow> finditer_from r i s = finditer_from r j t"
  by (simp add: finditer_from.simps)

lemma finditer_skip:
  "(\<And>k. k < length t \<Longrightarrow> match_at r (i + k) (drop k t @ rest) = None) \<Longrightarrow>
   finditer_from r i (t @ rest) = finditer_from r (i + length t) rest"
  by (rule finditer_cong) (rule search_skip)

lemma finditer_match:
  assumes "0 < min_len r" and "match_at r i rest = Some (j, rest', c)"
  shows "finditer_from r i rest =
    \<lparr>m_start = i, m_end = j, m_text = take (j - i) rest, m_caps = c\<rparr> # finditer_from r j rest'"
proof -
  have "search_from r i rest = Some (\<lparr>m_start = i, m_end = j, m_text = take (j - i) rest, m_caps = c\<rparr>, rest')"
    using assms(2) by (subst search_from.simps) simp
  from finditer_Some [OF assms(1) this] show ?thesis by simp
qed

lemma finditer_Nil:
  assumes "0 < min_len r"
  shows "finditer_from r i [] = []"
proof (rule finditer_None)
  have "match_at r i [] = None"
    using match_at_adv [of r i "[]"] match_at_min_len [of r i "[]"] assms
    by (cases "match_at r i []") fastforce+
  then show "search_from r i [] = None" by (simp add: search_from_None)
qed

lemma lt_next_drop: "lt_next Q t \<Longrightarrow> lt_next Q (drop k t)"
  by (induction t arbitrary: k) (auto simp: drop_Cons split: nat.split)

lemma numeral_dec [simp]: "numeral_str (dec_digits n)"
  using dec_digits_isdigit by (auto simp: numeral_str_def)

lemma coords_show: "coords_at (length cs) (map dec_digits cs) (show_block (Coords cs) @ r) r"
  by (simp add: coords_at_def)

lemma show_block_tail: "\<exists>t. show_block b = CHR ''<'' # t \<and> lt_next (\<lambda>x. x = CHR ''/'' \<or> py_isdigit x) t"
  using block_tail_lt [of "map dec_digits cs" for cs]
  by (cases b) (auto simp: block_text_def)

context coord_pattern
begin

lemma no_match_text:
  assumes "lt_next (\<lambda>x. x \<noteq> CHR ''b'') t" and "k < length t"
  shows "match_at rx i (drop k t @ rest) = None"
proof (rule ccontr)
  assume "match_at rx i (drop k t @ rest) \<noteq> None"
  from inverts [OF this] obtain y where "drop k t @ rest = CHR ''<'' # CHR ''b'' # y"
    using block_starts by blast
  from lt_next_starts [OF assms this] show False by simp
qed

lemma skip_text: "lt_next (\<lambda>x. x \<noteq> CHR ''b'') t \<Longrightarrow>
    finditer_from rx i (t @ rest) = finditer_from rx (i + length t) rest"
  by (intro finditer_skip no_match_text)

lemma finditer_blocks:
  "\<exists>ms. finditer_from rx i (show_blocks bs @ rest) = ms @ finditer_from rx (i + length (show_blocks bs)) rest \<and>
     map (\<lambda>m. map (\<lambda>k. m_group m (Suc k)) [0..<n]) ms = map (map dec_digits) (coords_of n bs)"
proof (induction bs arbitrary: i)
  case Nil
  then show ?case by (simp add: show_blocks_def)
next
  case (Cons b bs)
  have txt_eq: "show_blocks (b # bs) @ rest = show_block b @ show_blocks bs @ rest"
    by (simp add: show_blocks_def)
  have len: "length (show_blocks (b # bs)) = length (show_block b) + length (show_blocks bs)"
    by (simp add: show_blocks_def)
  show ?case
  proof (cases "\<exists>cs. b = Coords cs \<and> length cs = n")
    case True
    then obtain cs where b: "b = Coords cs" "length cs = n" by blast
    note c = coords_show [of cs "show_blocks bs @ rest", unfolded b(2)]
    from matches [OF c, of i] obtain cp where
      m: "match_at rx i (show_block b @ show_blocks bs @ rest) =
        Some (i + length (show_block b), show_blocks bs @ rest, cp)"
      and cp: "\<forall>k < n. \<exists>p. cp (Suc k) = Some (p, map dec_digits cs ! k)"
      by (auto simp: b)
    from Cons.IH [of "i + length (show_block b)"] obtain ms where
      ms: "finditer_from rx (i + length (show_block b)) (show_blocks bs @ rest) =
        ms @ finditer_from rx (i + length (show_block b) + length (show_blocks bs)) rest"
      and g: "map (\<lambda>m. map (\<lambda>k. m_group m (Suc k)) [0..<n]) ms = map (map dec_digits) (coords_of n bs)"
      by blast
    let ?m = "\<lparr>m_start = i, m_end = i + length (show_block b),
      m_text = take (i + length (show_block b) - i) (show_block b @ show_blocks bs @ rest), m_caps = cp\<rparr>"
    have "map (\<lambda>k. m_group ?m (Suc k)) [0..<n] = map dec_digits cs"
      by (rule nth_equalityI) (use cp b(2) in \<open>auto simp: m_group_def\<close>)
    then show ?thesis
      unfolding txt_eq len finditer_match [OF positive m] ms
      by (intro exI [of _ "?m # ms"]) (simp add: g b add.assoc)
  next
    case False
    obtain t where t: "show_block b = CHR ''<'' # t" and lt: "lt_next (\<lambda>x. x = CHR ''/'' \<or> py_isdigit x) t"
      using show_block_tail by blast
    have lt': "lt_next (\<lambda>x. x \<noteq> CHR ''b'') t"
      using lt by (induction t) auto
    have start: "match_at rx i (show_block b @ show_blocks bs @ rest) = None"
    proof (rule ccontr)
      assume "match_at rx i (show_block b @ show_blocks bs @ rest) \<noteq> None"
      from inverts [OF this] obtain ds r where c: "coords_at n ds (show_block b @ show_blocks bs @ rest) r"
        by blast
      show False
      proof (cases b)
        case (Coords cs)
        from coords_unique [OF c coords_show [of cs "show_blocks bs @ rest", folded Coords]] c False Coords
        show False by (auto simp: coords_at_def)
      next
        case NoneBlock
        with c show False by (cases ds) (auto simp: coords_at_def block_text_def)
      qed
    qed
    have "match_at rx (i + k) (drop k (show_block b) @ show_blocks bs @ rest) = None"
      if "k < length (show_block b)" for k
    proof (cases k)
      case 0
      with start show ?thesis by simp
    next
      case (Suc j)
      with no_match_text [OF lt', of j] that show ?thesis by (simp add: t)
    qed
    from finditer_skip [OF this]
    have "finditer_from rx i (show_block b @ show_blocks bs @ rest) =
        finditer_from rx (i + length (show_block b)) (show_blocks bs @ rest)" .
    moreover have "coords_of n (b # bs) = coords_of n bs" using False by (cases b) auto
    ultimately show ?thesis
      unfolding txt_eq len using Cons.IH [of "i + length (show_block b)"] by (simp add: add.assoc)
  qed
qed

lemma finditer_shown:
  "\<exists>ms. finditer rx (show_blocks bs) = ms \<and>
     map (\<lambda>m. map (\<lambda>k. m_group m (Suc k)) [0..<n]) ms = map (map dec_digits) (coords_of n bs)"
  using finditer_blocks [of 0 bs "[]"] by (simp add: finditer_def finditer_Nil [OF positive])

lemma length_finditer_answer:
  assumes "\<forall>g \<in> set gs. CHR ''<'' \<notin> set (fst g)" and "lt_next (\<lambda>x. x \<noteq> CHR ''b'') tail"
  shows "length (finditer_from rx i (show_answer gs tail)) =
    sum_list (map (\<lambda>g. length (coords_of n (snd g))) gs)"
  using assms(1)
proof (induction gs arbitrary: i)
  case Nil
  have "finditer_from rx i (tail @ []) = []"
    by (subst skip_text [OF assms(2)]) (rule finditer_Nil [OF positive])
  then show ?case by (simp add: show_answer_def)
next
  case (Cons g gs)
  let ?h = "''<ref>'' @ fst g @ ''</ref>''"
  have "lt_next (\<lambda>x. x \<noteq> CHR ''b'') ?h"
    using lt_next_no_lt [of "fst g"] Cons.prems by (intro lt_next_append) simp_all
  from skip_text [OF this] have "finditer_from rx i (show_answer (g # gs) tail) =
      finditer_from rx (i + length ?h) (show_blocks (snd g) @ show_answer gs tail)"
    by (simp add: show_answer_def show_group_def)
  moreover obtain ms where
    "finditer_from rx (i + length ?h) (show_blocks (snd g) @ show_answer gs tail) =
       ms @ finditer_from rx (i + length ?h + length (show_blocks (snd g))) (show_answer gs tail)"
    and g: "map (\<lambda>m. map (\<lambda>k. m_group m (Suc k)) [0..<n]) ms = map (map dec_digits) (coords_of n (snd g))"
    using finditer_blocks by blast
  moreover have "length ms = length (coords_of n (snd g))" using arg_cong [OF g, of length] by simp
  ultimately show ?case using Cons by simp
qed

end

section \<open>Runs of a printed answer\<close>

lemma block_content_no_close:
  assumes "lt_next (\<lambda>x. x \<noteq> CHR ''/'') w"
  shows "py_find ''</box>'' (w @ ''</box>'' @ r) = Some (length w)"
  unfolding py_find_Some
proof (intro conjI allI impI)
  fix j assume j: "j < length w"
  show "\<not> py_startswith (drop j (w @ ''</box>'' @ r)) ''</box>''"
  proof
    assume "py_startswith (drop j (w @ ''</box>'' @ r)) ''</box>''"
    then obtain y where "drop j w @ ''</box>'' @ r = CHR ''<'' # CHR ''/'' # y"
      using j by (auto simp: py_startswith_iff)
    from lt_next_starts [OF assms j this] show False by simp
  qed
qed simp_all

lemma show_block_content:
  "\<exists>w. show_block b = ''<box>'' @ w @ ''</box>'' \<and> lt_next (\<lambda>x. x \<noteq> CHR ''/'') w"
proof (cases b)
  case (Coords cs)
  have "lt_next (\<lambda>x. x \<noteq> CHR ''/'') (concat (map (\<lambda>d. ''<'' @ d @ ''>'') (map dec_digits cs)))"
    by (rule lt_next_coords) auto
  then show ?thesis using Coords by (simp add: block_text_def)
qed simp

lemma blk_len_show: "blk_len (show_block b @ r) = Some (length (show_block b))"
proof -
  obtain w where b: "show_block b = ''<box>'' @ w @ ''</box>''" and w: "lt_next (\<lambda>x. x \<noteq> CHR ''/'') w"
    using show_block_content by blast
  show ?thesis
    using block_content_no_close [OF w, of r] by (simp add: blk_len_def b)
qed

lemma run_len_show:
  assumes "blk_len rest = None"
  shows "length bs \<le> n \<Longrightarrow> run_len n (show_blocks bs @ rest) = length (show_blocks bs)"
proof (induction bs arbitrary: n)
  case Nil
  then show ?case using assms by (cases n) (simp_all add: show_blocks_def)
next
  case (Cons b bs)
  then obtain n' where "n = Suc n'" "length bs \<le> n'" by (cases n) auto
  with Cons.IH [of n'] blk_len_show [of b "show_blocks bs @ rest"] show ?case
    by (simp add: show_blocks_def)
qed

lemma length_show_blocks: "length bs \<le> length (show_blocks bs)"
proof (induction bs)
  case (Cons b bs)
  obtain w where "show_block b = ''<box>'' @ w @ ''</box>''" using show_block_content by blast
  with Cons show ?case by (simp add: show_blocks_def)
qed (simp add: show_blocks_def)

lemma ref_scan_show:
  assumes "CHR ''<'' \<notin> set l" and "bs \<noteq> []" and "blk_len rest = None"
  shows "ref_scan (show_group (l, bs) @ rest) = Some (l, length (show_blocks bs))"
proof -
  obtain b bs' where bs: "bs = b # bs'" using assms(2) by (cases bs) auto
  have tw: "takeWhile (\<lambda>c. c \<noteq> CHR ''<'') (l @ CHR ''<'' # y) = l" for y
    using assms(1) by (intro takeWhile_append_stop) auto
  have "length bs' \<le> length (show_blocks bs' @ rest)"
    using length_show_blocks [of bs'] by simp
  from run_len_show [OF assms(3) this] blk_len_show [of b "show_blocks bs' @ rest"]
  have "blk_len (show_blocks bs @ rest) = Some (length (show_block b))"
    and "run_len (length (show_blocks bs @ rest) - length (show_block b))
        (drop (length (show_block b)) (show_blocks bs @ rest)) = length (show_blocks bs')"
    by (simp_all add: bs show_blocks_def)
  note run = this
  define X where "X = show_blocks bs @ rest"
  define S where "S = show_group (l, bs) @ rest"
  have S: "S = ''<ref>'' @ l @ CHR ''<'' # ''/ref>'' @ X" by (simp add: S_def X_def show_group_def)
  have d5: "drop 5 S = l @ CHR ''<'' # ''/ref>'' @ X" by (simp add: S)
  have "drop (5 + length l) S = drop (length l) (drop 5 S)" by (simp add: add.commute)
  then have dl: "drop (5 + length l) S = ''</ref>'' @ X" by (simp only: d5 drop_length_append) simp
  have d6: "drop 6 (''</ref>'' @ X) = X" by simp
  have st: "py_startswith S ''<ref>''" by (simp add: S)
  have "ref_scan S = Some (l, length (show_block b) + length (show_blocks bs'))"
    by (simp only: ref_scan_def d5 tw Let_def dl d6 st py_startswith_append if_True run [folded X_def]
        option.case)
  then show ?thesis by (simp add: S_def bs show_blocks_def)
qed

lemma blk_len_lt:
  assumes "lt_next (\<lambda>x. x \<noteq> CHR ''b'') t"
  shows "blk_len t = None"
proof -
  have "lt_next (\<lambda>x. x \<noteq> CHR ''b'') (dropWhile py_isspace t)"
    using lt_next_drop [OF assms] by (simp add: dropWhile_eq_drop)
  then have "\<not> py_startswith (dropWhile py_isspace t) ''<box>''" by (auto simp: py_startswith_iff)
  then show ?thesis by (simp add: blk_len_def Let_def)
qed

lemma blk_len_answer:
  assumes "tail_ok tail"
  shows "blk_len (show_answer gs tail) = None"
proof (cases gs)
  case Nil
  have "lt_next (\<lambda>x. x \<noteq> CHR ''b'') tail" using assms unfolding tail_ok_def by (induction tail) auto
  then show ?thesis using Nil blk_len_lt by (simp add: show_answer_def)
next
  case (Cons g gs')
  then show ?thesis by (simp add: show_answer_def show_group_def blk_len_def Let_def)
qed

lemma finditer_REF_text:
  assumes "lt_next (\<lambda>x. x \<noteq> CHR ''r'') t"
  shows "finditer_from REF_RUN_RE i (t @ rest) = finditer_from REF_RUN_RE (i + length t) rest"
proof (rule finditer_skip)
  fix k assume k: "k < length t"
  show "match_at REF_RUN_RE (i + k) (drop k t @ rest) = None"
  proof (rule ccontr)
    assume "match_at REF_RUN_RE (i + k) (drop k t @ rest) \<noteq> None"
    then have "py_startswith (drop k t @ rest) ''<ref>''"
      by (auto simp: match_at_first first_REF_RUN ref_scan_def split: option.splits if_splits)
    then obtain y where "drop k t @ rest = CHR ''<'' # CHR ''r'' # y" by (auto simp: py_startswith_iff)
    from lt_next_starts [OF assms k this] show False by simp
  qed
qed

lemma finditer_REF_answer:
  assumes "\<forall>g \<in> set gs. CHR ''<'' \<notin> set (fst g) \<and> snd g \<noteq> []" and "tail_ok tail"
  shows "map (\<lambda>m. (m_group m 1, m_group m 2)) (finditer_from REF_RUN_RE i (show_answer gs tail)) =
    map (\<lambda>g. (fst g, show_blocks (snd g))) gs"
  using assms(1)
proof (induction gs arbitrary: i)
  case Nil
  have "lt_next (\<lambda>x. x \<noteq> CHR ''r'') tail" using assms(2) unfolding tail_ok_def by (induction tail) auto
  from finditer_REF_text [OF this, of i "[]"] show ?case
    by (simp add: show_answer_def finditer_Nil [OF REF_RUN_min_len])
next
  case (Cons g gs)
  obtain l bs where g: "g = (l, bs)" by (cases g)
  have sc: "ref_scan (show_group g @ show_answer gs tail) = Some (l, length (show_blocks bs))"
    unfolding g by (rule ref_scan_show [OF _ _ blk_len_answer [OF assms(2)]]) (use Cons.prems g in auto)
  let ?b = "i + length l + 11"
  define h where "h = ''<ref>'' @ l @ ''</ref>''"
  have h: "show_group g @ show_answer gs tail = h @ show_blocks bs @ show_answer gs tail"
    "length l + 11 = length h" by (simp_all add: g show_group_def h_def)
  have d: "drop (length l + 11) (show_group g @ show_answer gs tail) = show_blocks bs @ show_answer gs tail"
    unfolding h by (rule drop_length_append)
  have "match_at REF_RUN_RE i (show_group g @ show_answer gs tail) =
      Some (?b + length (show_blocks bs), show_answer gs tail,
        Map.empty(1 \<mapsto> (i + 5, l), 2 \<mapsto> (?b, show_blocks bs)))"
    unfolding match_at_first first_REF_RUN sc option.case prod.case Let_def d by simp
  from finditer_match [OF REF_RUN_min_len this]
  have f: "finditer_from REF_RUN_RE i (show_answer (g # gs) tail) =
    \<lparr>m_start = i, m_end = ?b + length (show_blocks bs),
      m_text = take (?b + length (show_blocks bs) - i) (show_group g @ show_answer gs tail),
      m_caps = Map.empty(1 \<mapsto> (i + 5, l), 2 \<mapsto> (?b, show_blocks bs))\<rparr>
    # finditer_from REF_RUN_RE (?b + length (show_blocks bs)) (show_answer gs tail)"
    by (simp add: show_answer_def)
  have "map (\<lambda>m. (m_group m 1, m_group m 2))
      (finditer_from REF_RUN_RE (?b + length (show_blocks bs)) (show_answer gs tail)) =
      map (\<lambda>g. (fst g, show_blocks (snd g))) gs"
    by (rule Cons.IH) (use Cons.prems in simp)
  then show ?case unfolding f by (simp add: m_group_def g)
qed

section \<open>Parsing a printed answer\<close>

definition expected_boxes :: "int \<Rightarrow> int \<Rightarrow> answer_group list \<Rightarrow> detection list" where
  "expected_boxes W H gs = concat (map (\<lambda>g. map (\<lambda>c.
     make_box (fst g) (int (c ! 0)) (int (c ! 1)) (int (c ! 2)) (int (c ! 3)) W H) (coords_of 4 (snd g))) gs)"

definition expected_points :: "int \<Rightarrow> int \<Rightarrow> answer_group list \<Rightarrow> point list" where
  "expected_points W H gs = concat (map (\<lambda>g. map (\<lambda>c.
     make_point (fst g) (int (c ! 0)) (int (c ! 1)) W H) (coords_of 2 (snd g))) gs)"

lemma mapr_map: "mapr f (map g xs) = mapr (\<lambda>x. f (g x)) xs"
  by (induction xs) simp_all

lemma mapr_cong: "(\<And>x. x \<in> set xs \<Longrightarrow> f x = g x) \<Longrightarrow> mapr f xs = mapr g xs"
  by (induction xs) simp_all

lemma int_of_token: "c \<le> 1000 \<Longrightarrow> py_int_digits (dec_digits c) = Inr (int c)"
  by (rule py_int_dec_digits [of c 4]) simp_all

lemma coords_of_ok: "\<forall>b \<in> set bs. block_ok b \<Longrightarrow> cs \<in> set (coords_of n bs) \<Longrightarrow>
    length cs = n \<and> (\<forall>c \<in> set cs. c \<le> 1000)"
  by (induction n bs rule: coords_of.induct) (auto split: if_splits)

text \<open>Reading the groups of every match of a coordinate pattern as integers.\<close>

lemma mapr_group_ints:
  assumes "map (\<lambda>m. map (\<lambda>k. m_group m (Suc k)) [0..<n]) ms = map (map dec_digits) css"
    and "\<forall>cs \<in> set css. length cs = n \<and> (\<forall>c \<in> set cs. c \<le> 1000)"
  shows "mapr (\<lambda>m. bindr (group_ints m (map Suc [0..<n])) (\<lambda>c. ret (F c))) ms = Inr (map (\<lambda>cs. F (map int cs)) css)"
  using assms
proof (induction ms arbitrary: css)
  case Nil
  then show ?case by simp
next
  case (Cons m ms)
  then obtain cs css' where css: "css = cs # css'"
    and m: "map (\<lambda>k. m_group m (Suc k)) [0..<n] = map dec_digits cs"
    and ms: "map (\<lambda>m. map (\<lambda>k. m_group m (Suc k)) [0..<n]) ms = map (map dec_digits) css'"
    by (auto simp: Cons_eq_map_conv)
  have "group_ints m (map Suc [0..<n]) = mapr py_int_digits (map (\<lambda>k. m_group m (Suc k)) [0..<n])"
    by (simp add: group_ints_def mapr_map)
  also have "\<dots> = mapr (\<lambda>c. py_int_digits (dec_digits c)) cs" unfolding m by (rule mapr_map)
  also have "\<dots> = Inr (map int cs)"
    by (rule mapr_pure) (use Cons.prems(2) css in \<open>auto intro: int_of_token\<close>)
  finally have "group_ints m (map Suc [0..<n]) = Inr (map int cs)" .
  with Cons.IH [OF ms] Cons.prems(2) css show ?case by simp
qed

lemma boxes_of_run_shown:
  assumes "group_ok g" and "m_group m 1 = fst g" and "m_group m 2 = show_blocks (snd g)"
  shows "boxes_of_run W H m = Inr (map (\<lambda>c. make_box (fst g) (int (c ! 0)) (int (c ! 1)) (int (c ! 2))
      (int (c ! 3)) W H) (coords_of 4 (snd g)), 0)"
proof -
  obtain ms where f: "finditer BOX_RE (show_blocks (snd g)) = ms"
    and ms: "map (\<lambda>m. map (\<lambda>k. m_group m (Suc k)) [0..<4]) ms = map (map dec_digits) (coords_of 4 (snd g))"
    using box.finditer_shown by blast
  have ok: "\<forall>cs \<in> set (coords_of 4 (snd g)). length cs = 4 \<and> (\<forall>c \<in> set cs. c \<le> 1000)"
    using coords_of_ok assms(1) unfolding group_ok_def by blast
  have u: "map Suc [0..<4] = [1, 2, 3, 4]" by (simp add: upt_rec numeral_eq_Suc)
  have st: "py_strip (fst g) = fst g" "fst g \<noteq> []"
    using assms(1) by (simp_all add: group_ok_def py_strip_trimmed)
  have nth: "map int cs ! k = int (cs ! k)" if "cs \<in> set (coords_of 4 (snd g))" "k < 4" for cs k
    using ok that by simp
  have "mapr (\<lambda>bm. bindr (group_ints bm [1, 2, 3, 4]) (\<lambda>c. ret (make_box (fst g) (c ! 0) (c ! 1) (c ! 2) (c ! 3) W H))) ms =
    Inr (map (\<lambda>cs. make_box (fst g) (map int cs ! 0) (map int cs ! 1) (map int cs ! 2) (map int cs ! 3) W H)
      (coords_of 4 (snd g)))"
    using mapr_group_ints [OF ms ok] unfolding u .
  then show ?thesis
    using st assms(2,3) by (simp add: boxes_of_run_def f Let_def nth cong: map_cong)
qed

lemma mapr_runs:
  assumes "map (\<lambda>m. (m_group m 1, m_group m 2)) ms = map (\<lambda>g. (fst g, show_blocks (snd g))) gs"
    and "\<And>m g. m \<in> set ms \<Longrightarrow> g \<in> set gs \<Longrightarrow> m_group m 1 = fst g \<Longrightarrow> m_group m 2 = show_blocks (snd g) \<Longrightarrow> f m = Inr (F g)"
  shows "mapr f ms = Inr (map F gs)"
  using assms
proof (induction ms arbitrary: gs)
  case Nil
  then show ?case by simp
next
  case (Cons m ms)
  then obtain g gs' where gs: "gs = g # gs'" and m: "m_group m 1 = fst g" "m_group m 2 = show_blocks (snd g)"
    and ms: "map (\<lambda>m. (m_group m 1, m_group m 2)) ms = map (\<lambda>g. (fst g, show_blocks (snd g))) gs'"
    by (auto simp: Cons_eq_map_conv)
  have "f m = Inr (F g)" using Cons.prems(2) m gs by simp
  moreover have "mapr f ms = Inr (map F gs')" by (rule Cons.IH [OF ms]) (use Cons.prems(2) gs in simp)
  ultimately show ?case by (simp add: gs)
qed

lemma points_of_run_shown:
  assumes "m \<in> set (finditer REF_RUN_RE s)" and "group_ok g" and "m_group m 1 = fst g" and "m_group m 2 = show_blocks (snd g)"
  shows "points_of_run W H (map span (finditer BOX_RE s)) m =
    Inr (map (\<lambda>c. make_point (fst g) (int (c ! 0)) (int (c ! 1)) W H) (coords_of 2 (snd g)), 0)"
proof -
  obtain ms where f: "finditer POINT_RE (show_blocks (snd g)) = ms"
    and ms: "map (\<lambda>m. map (\<lambda>k. m_group m (Suc k)) [0..<2]) ms = map (map dec_digits) (coords_of 2 (snd g))"
    using point.finditer_shown by blast
  have all: "map fst (run_point_matches (map span (finditer BOX_RE s)) m) = ms"
    by (simp only: run_points_all(1) [OF assms(1)] assms(4) f) (simp add: comp_def)
  have ok: "\<forall>cs \<in> set (coords_of 2 (snd g)). length cs = 2 \<and> (\<forall>c \<in> set cs. c \<le> 1000)"
    using coords_of_ok assms(2) unfolding group_ok_def by blast
  have u: "map Suc [0..<2] = [1, 2]" by (simp add: upt_rec numeral_eq_Suc)
  have st: "py_strip (fst g) = fst g" "fst g \<noteq> []"
    using assms(2) by (simp_all add: group_ok_def py_strip_trimmed)
  have nth: "map int cs ! k = int (cs ! k)" if "cs \<in> set (coords_of 2 (snd g))" "k < 2" for cs k
    using ok that by simp
  have "mapr (\<lambda>bm. bindr (group_ints bm [1, 2]) (\<lambda>c. ret (make_point (fst g) (c ! 0) (c ! 1) W H))) ms =
    Inr (map (\<lambda>cs. make_point (fst g) (map int cs ! 0) (map int cs ! 1) W H) (coords_of 2 (snd g)))"
    using mapr_group_ints [OF ms ok] unfolding u .
  then have "mapr (point_of_match (fst g) W H) ms =
      Inr (map (\<lambda>c. make_point (fst g) (int (c ! 0)) (int (c ! 1)) W H) (coords_of 2 (snd g)))"
    by (simp add: point_of_match_def [abs_def] nth cong: map_cong)
  then show ?thesis
    using st assms(3) by (simp add: points_of_run_def all Let_def)
qed

lemma tail_ok_lt: "tail_ok t \<Longrightarrow> lt_next (\<lambda>x. x \<noteq> CHR ''b'') t"
  unfolding tail_ok_def by (induction t) auto

lemma concat_fst_pairs: "concat (map fst (map (\<lambda>g. (F g, 0)) gs)) = concat (map F gs)"
  by (simp add: comp_def)

lemma sum_snd_pairs: "sum_list (map snd (map (\<lambda>g. (F g, 0 :: nat)) gs)) = 0"
  by (induction gs) simp_all

lemma parse_boxes_shown:
  assumes "\<forall>g \<in> set gs. group_ok g" and "tail_ok tail"
  shows "parse_boxes (show_answer gs tail) W H = Inr (expected_boxes W H gs, 0)"
proof -
  let ?s = "show_answer gs tail"
  let ?F = "\<lambda>g. map (\<lambda>c. make_box (fst g) (int (c ! 0)) (int (c ! 1)) (int (c ! 2)) (int (c ! 3)) W H)
      (coords_of 4 (snd g))"
  have "map (\<lambda>m. (m_group m 1, m_group m 2)) (finditer REF_RUN_RE ?s) = map (\<lambda>g. (fst g, show_blocks (snd g))) gs"
    unfolding finditer_def by (rule finditer_REF_answer) (use assms in \<open>auto simp: group_ok_def\<close>)
  then have runs: "mapr (boxes_of_run W H) (finditer REF_RUN_RE ?s) = Inr (map (\<lambda>g. (?F g, 0)) gs)"
    by (rule mapr_runs) (rule boxes_of_run_shown, use assms(1) in \<open>blast+\<close>)
  obtain off where p: "parse_boxes ?s W H = Inr (expected_boxes W H gs, off)"
    unfolding parse_boxes_def Let_def runs bindr_Inr concat_fst_pairs expected_boxes_def by blast
  from parse_boxes_accounts [OF p] have "length (expected_boxes W H gs) + off = length (finditer BOX_RE ?s)"
    by (simp add: box.length_finditer)
  also have "\<dots> = sum_list (map (\<lambda>g. length (coords_of 4 (snd g))) gs)"
    unfolding finditer_def
    by (rule box.length_finditer_answer) (use assms in \<open>auto simp: group_ok_def intro: tail_ok_lt\<close>)
  also have "\<dots> = length (expected_boxes W H gs)"
    by (simp add: expected_boxes_def length_concat comp_def)
  finally show ?thesis using p by simp
qed

lemma parse_points_shown:
  assumes "\<forall>g \<in> set gs. group_ok g" and "tail_ok tail"
  shows "parse_points (show_answer gs tail) W H lbl = Inr (expected_points W H gs, 0)"
proof -
  let ?s = "show_answer gs tail"
  let ?B = "map span (finditer BOX_RE ?s)"
  let ?F = "\<lambda>g. map (\<lambda>c. make_point (fst g) (int (c ! 0)) (int (c ! 1)) W H) (coords_of 2 (snd g))"
  have "map (\<lambda>m. (m_group m 1, m_group m 2)) (finditer REF_RUN_RE ?s) = map (\<lambda>g. (fst g, show_blocks (snd g))) gs"
    unfolding finditer_def by (rule finditer_REF_answer) (use assms in \<open>auto simp: group_ok_def\<close>)
  then have runs: "mapr (points_of_run W H ?B) (finditer REF_RUN_RE ?s) = Inr (map (\<lambda>g. (?F g, 0)) gs)"
    by (rule mapr_runs) (rule points_of_run_shown, use assms(1) in \<open>blast+\<close>)
  have "length (concat (map fst (map (\<lambda>g. (?F g, 0 :: nat)) gs))) + sum_list (map snd (map (\<lambda>g. (?F g, 0)) gs)) =
      sum_list (map (\<lambda>m. card (occs 2 (m_group m 2))) (finditer REF_RUN_RE ?s))"
    by (rule mapr_sum [OF runs]) (rule points_of_run_count)
  then have "sum_list (map (\<lambda>m. card (occs 2 (m_group m 2))) (finditer REF_RUN_RE ?s)) =
      length (expected_points W H gs)"
    unfolding concat_fst_pairs sum_snd_pairs expected_points_def by simp
  moreover have "card (occs 2 ?s) = length (expected_points W H gs)"
  proof -
    have "length (finditer POINT_RE ?s) = sum_list (map (\<lambda>g. length (coords_of 2 (snd g))) gs)"
      unfolding finditer_def
      by (rule point.length_finditer_answer) (use assms in \<open>auto simp: group_ok_def intro: tail_ok_lt\<close>)
    then show ?thesis
      by (simp add: point.length_finditer expected_points_def length_concat comp_def)
  qed
  ultimately have "card {p \<in> occs 2 ?s. \<not> (\<exists>m \<in> set (finditer REF_RUN_RE ?s). in_run 2 ?s m p)} = 0"
    using runs_and_rest [of 2 ?s] by simp
  then have bare: "bare_matches ?s = []"
    unfolding bare_points [of ?s, symmetric] by (simp only: length_0_conv)
  show ?thesis
    unfolding parse_points_unfold runs bindr_Inr bare concat_fst_pairs sum_snd_pairs
    by (simp add: expected_points_def split: option.split list.split)
qed

text \<open>A point answer: bare blocks of two coordinates, no references.\<close>

lemma show_blocks_lt: "lt_next (\<lambda>x. x \<noteq> CHR ''r'') (show_blocks bs)"
proof (induction bs)
  case Nil
  then show ?case by (simp add: show_blocks_def)
next
  case (Cons b bs)
  have "lt_next (\<lambda>x. x \<noteq> CHR ''r'') (show_block b)"
  proof (cases b)
    case (Coords cs)
    have "lt_next (\<lambda>x. x \<noteq> CHR ''r'') (concat (map (\<lambda>d. ''<'' @ d @ ''>'') (map dec_digits cs)))"
      by (rule lt_next_coords) auto
    then show ?thesis unfolding Coords show_block.simps block_text_def by (intro lt_next_append) simp_all
  qed simp
  with Cons show ?case by (simp add: show_blocks_def lt_next_append)
qed

lemma parse_points_bare:
  assumes "\<forall>c \<in> set cs. fst c \<le> 1000 \<and> snd c \<le> 1000" and "tail_ok tail" and "label \<noteq> []"
  shows "parse_points (show_blocks (map (\<lambda>c. Coords [fst c, snd c]) cs) @ tail) W H (Some label) =
    Inr (map (\<lambda>c. make_point label (int (fst c)) (int (snd c)) W H) cs, 0)"
proof -
  define bs where "bs = map (\<lambda>c. Coords [fst c, snd c]) cs"
  let ?s = "show_blocks bs @ tail"
  have co: "coords_of 2 bs = map (\<lambda>c. [fst c, snd c]) cs" "coords_of 4 bs = []"
    unfolding bs_def by (induction cs) simp_all
  have ltr: "lt_next (\<lambda>x. x \<noteq> CHR ''r'') tail"
    using assms(2) unfolding tail_ok_def by (induction tail) auto
  have refs: "finditer REF_RUN_RE ?s = []"
    using finditer_REF_text [OF lt_next_append [OF show_blocks_lt ltr], of 0 bs "[]"]
    by (simp add: finditer_def finditer_Nil [OF REF_RUN_min_len])
  obtain ms where "finditer_from BOX_RE 0 ?s = ms @ finditer_from BOX_RE (0 + length (show_blocks bs)) tail"
    and "map (\<lambda>m. map (\<lambda>k. m_group m (Suc k)) [0..<4]) ms = map (map dec_digits) (coords_of 4 bs)"
    using box.finditer_blocks by blast
  then have boxes: "finditer BOX_RE ?s = []"
    using box.skip_text [OF tail_ok_lt [OF assms(2)], of _ "[]"]
    by (simp add: finditer_def co finditer_Nil [OF box.positive])
  obtain ms where f: "finditer_from POINT_RE 0 ?s = ms @ finditer_from POINT_RE (0 + length (show_blocks bs)) tail"
    and ms: "map (\<lambda>m. map (\<lambda>k. m_group m (Suc k)) [0..<2]) ms = map (map dec_digits) (coords_of 2 bs)"
    using point.finditer_blocks by blast
  have points: "finditer POINT_RE ?s = ms"
    using point.skip_text [OF tail_ok_lt [OF assms(2)], of _ "[]"] f
    by (simp add: finditer_def finditer_Nil [OF point.positive])
  have bare: "bare_matches ?s = ms"
    by (simp add: bare_matches_def refs boxes points)
  have u: "map Suc [0..<2] = [1, 2]" by (simp add: upt_rec numeral_eq_Suc)
  have ok: "\<forall>c \<in> set (coords_of 2 bs). length c = 2 \<and> (\<forall>x \<in> set c. x \<le> 1000)"
    using assms(1) by (auto simp: co)
  have "mapr (\<lambda>bm. bindr (group_ints bm [1, 2]) (\<lambda>c. ret (make_point label (c ! 0) (c ! 1) W H))) ms =
    Inr (map (\<lambda>c. make_point label (map int c ! 0) (map int c ! 1) W H) (coords_of 2 bs))"
    using mapr_group_ints [OF ms ok] unfolding u .
  then have "mapr (point_of_match label W H) ms =
      Inr (map (\<lambda>c. make_point label (int (fst c)) (int (snd c)) W H) cs)"
    by (simp add: point_of_match_def [abs_def] co comp_def)
  then show ?thesis
    unfolding bs_def [symmetric] parse_points_unfold bare refs
    using assms(3) by (cases label) simp_all
qed

text \<open>Blocks of a printed answer that have no accepted arity.\<close>

fun malformed_block :: "answer_block \<Rightarrow> bool" where
  "malformed_block (Coords cs) = (length cs \<noteq> 4 \<and> length cs \<noteq> 2)"
| "malformed_block NoneBlock = False"

lemma finditer_ANY_text:
  assumes "lt_next (\<lambda>x. x \<noteq> CHR ''b'') t"
  shows "finditer_from ANY_BOX_RE i (t @ rest) = finditer_from ANY_BOX_RE (i + length t) rest"
proof (rule finditer_skip)
  fix k assume k: "k < length t"
  show "match_at ANY_BOX_RE (i + k) (drop k t @ rest) = None"
  proof (rule ccontr)
    assume "match_at ANY_BOX_RE (i + k) (drop k t @ rest) \<noteq> None"
    then have "py_startswith (drop k t @ rest) ''<box>''"
      by (auto simp: match_at_first first_ANY split: if_splits)
    then obtain y where "drop k t @ rest = CHR ''<'' # CHR ''b'' # y" by (auto simp: py_startswith_iff)
    from lt_next_starts [OF assms k this] show False by simp
  qed
qed

lemma finditer_ANY_block:
  "\<exists>m. finditer_from ANY_BOX_RE i (show_block b @ rest) =
     m # finditer_from ANY_BOX_RE (i + length (show_block b)) rest \<and> m_text m = show_block b"
proof -
  obtain w where b: "show_block b = ''<box>'' @ w @ ''</box>''" and w: "lt_next (\<lambda>x. x \<noteq> CHR ''/'') w"
    using show_block_content by blast
  have "match_at ANY_BOX_RE i (show_block b @ rest) =
      Some (i + length (show_block b), rest, Map.empty)"
  proof -
    define h where "h = ''<box>'' @ w @ ''</box>''"
    have h: "length w + 11 = length h" by (simp add: h_def)
    have d: "drop 5 (h @ rest) = w @ ''</box>'' @ rest" "py_startswith (h @ rest) ''<box>''"
      by (simp_all add: h_def)
    have "drop (length w + 11) (h @ rest) = rest" unfolding h by (rule drop_length_append)
    then show ?thesis
      unfolding match_at_first first_ANY b [folded h_def] d block_content_no_close [OF w]
      by (simp add: h d)
  qed
  from finditer_match [OF ANY_min_len this] show ?thesis by auto
qed

lemma finditer_ANY_answer:
  assumes "\<forall>g \<in> set gs. CHR ''<'' \<notin> set (fst g)" and "tail_ok tail"
  shows "map m_text (finditer_from ANY_BOX_RE i (show_answer gs tail)) =
    concat (map (\<lambda>g. map show_block (snd g)) gs)"
  using assms(1)
proof (induction gs arbitrary: i)
  case Nil
  from finditer_ANY_text [OF tail_ok_lt [OF assms(2)], of i "[]"] show ?case
    by (simp add: show_answer_def finditer_Nil [OF ANY_min_len])
next
  case (Cons g gs)
  have blocks: "\<exists>ms. finditer_from ANY_BOX_RE j (show_blocks bs @ rest) =
      ms @ finditer_from ANY_BOX_RE (j + length (show_blocks bs)) rest \<and> map m_text ms = map show_block bs"
    for bs j rest
  proof (induction bs arbitrary: j)
    case Nil
    then show ?case by (simp add: show_blocks_def)
  next
    case (Cons b bs)
    obtain m where m: "finditer_from ANY_BOX_RE j (show_block b @ show_blocks bs @ rest) =
        m # finditer_from ANY_BOX_RE (j + length (show_block b)) (show_blocks bs @ rest)" "m_text m = show_block b"
      using finditer_ANY_block by blast
    obtain ms where ms: "finditer_from ANY_BOX_RE (j + length (show_block b)) (show_blocks bs @ rest) =
        ms @ finditer_from ANY_BOX_RE (j + length (show_block b) + length (show_blocks bs)) rest"
      "map m_text ms = map show_block bs" using Cons.IH by blast
    from m ms show ?case
      by (intro exI [of _ "m # ms"]) (simp add: show_blocks_def add.assoc)
  qed
  let ?h = "''<ref>'' @ fst g @ ''</ref>''"
  have lt: "lt_next (\<lambda>x. x \<noteq> CHR ''b'') ?h"
    using lt_next_no_lt [of "fst g"] Cons.prems by (intro lt_next_append) simp_all
  obtain ms where ms: "finditer_from ANY_BOX_RE (i + length ?h) (show_blocks (snd g) @ show_answer gs tail) =
      ms @ finditer_from ANY_BOX_RE (i + length ?h + length (show_blocks (snd g))) (show_answer gs tail)"
    "map m_text ms = map show_block (snd g)" using blocks by blast
  have "show_answer (g # gs) tail = ?h @ show_blocks (snd g) @ show_answer gs tail"
    by (simp add: show_answer_def show_group_def)
  then have "finditer_from ANY_BOX_RE i (show_answer (g # gs) tail) =
      ms @ finditer_from ANY_BOX_RE (i + length ?h + length (show_blocks (snd g))) (show_answer gs tail)"
    by (simp only: finditer_ANY_text [OF lt] ms(1))
  then show ?case using Cons ms(2) by simp
qed

lemma fullmatch_shown:
  "(fullmatch BOX_RE (show_block b) \<or> fullmatch POINT_RE (show_block b) \<or> fullmatch NONE_RE (show_block b)) \<longleftrightarrow>
   \<not> malformed_block b"
proof (cases b)
  case NoneBlock
  then show ?thesis by (simp add: fullmatch_NONE none_blocks_def)
next
  case (Coords cs)
  have "(\<exists>ds. coords_at n ds (block_text (map dec_digits cs)) []) \<longleftrightarrow> length cs = n" for n
  proof
    assume "\<exists>ds. coords_at n ds (block_text (map dec_digits cs)) []"
    then obtain ds where c: "coords_at n ds (block_text (map dec_digits cs)) []" by blast
    from coords_unique [OF c] coords_show [of cs "[]"] have "ds = map dec_digits cs" by auto
    with c show "length cs = n" by (simp add: coords_at_def)
  next
    assume "length cs = n"
    then show "\<exists>ds. coords_at n ds (block_text (map dec_digits cs)) []"
      using coords_show [of cs "[]"] by auto
  qed
  moreover have "block_text (map dec_digits cs) \<notin> none_blocks"
    by (cases cs) (auto simp: block_text_def none_blocks_def)
  ultimately show ?thesis by (auto simp: Coords fullmatch_BOX fullmatch_POINT fullmatch_NONE)
qed

lemma malformed_shown:
  assumes "\<forall>g \<in> set gs. CHR ''<'' \<notin> set (fst g)" and "tail_ok tail"
  shows "count_malformed_geometry (show_answer gs tail) =
    length (filter malformed_block (concat (map snd gs)))"
proof -
  let ?P = "\<lambda>t. \<not> (fullmatch BOX_RE t \<or> fullmatch POINT_RE t \<or> fullmatch NONE_RE t)"
  have "count_malformed_geometry (show_answer gs tail) =
      length (filter ?P (map m_text (finditer ANY_BOX_RE (show_answer gs tail))))"
    by (simp add: count_malformed_geometry_def Let_def filter_map comp_def)
  also have "map m_text (finditer ANY_BOX_RE (show_answer gs tail)) = map show_block (concat (map snd gs))"
    unfolding finditer_def finditer_ANY_answer [OF assms] by (simp add: map_concat comp_def)
  also have "filter ?P (map show_block (concat (map snd gs))) =
      map show_block (filter malformed_block (concat (map snd gs)))"
    unfolding fullmatch_shown filter_map comp_def by simp
  finally show ?thesis by simp
qed

section \<open>Properties\<close>

text \<open>Accounting. When both parsers return, every place of the answer where a block of four (two)
  coordinates stands is either emitted or counted as off-contract, exactly once: emitted plus
  counted is the number of those places, whatever the answer is.
\<close>

theorem parsers_account_for_every_block:
  assumes "parse_boxes answer W H = Inr (ds, off_boxes)"
    and "parse_points answer W H point_label = Inr (ps, off_points)"
  shows "length ds + off_boxes = card (occs 4 answer) \<and> length ps + off_points = card (occs 2 answer)"
  using parse_boxes_accounts [OF assms(1)] parse_points_accounts [OF assms(2)] by simp_all

definition sample_answer :: string where
  "sample_answer = show_answer [(''cat'', [Coords [10, 20, 30, 40], Coords [5, 6], NoneBlock])] ''<|im_end|>''"

lemma sample_ok:
  "\<forall>g \<in> set [(''cat'', [Coords [10, 20, 30, 40], Coords [5, 6], NoneBlock])]. group_ok g" "tail_ok ''<|im_end|>''"
  by (simp_all add: group_ok_def trimmed_def py_isspace_def tail_ok_def)

lemmas sample_boxes = parse_boxes_shown [OF sample_ok, folded sample_answer_def]
lemmas sample_points = parse_points_shown [OF sample_ok, folded sample_answer_def]

lemma parsers_account_for_every_block_witness:
  "card (occs 4 sample_answer) = 1 \<and> card (occs 2 sample_answer) = 1"
  using parsers_account_for_every_block [OF sample_boxes [of 640 480] sample_points [of 640 480 None]]
  by (simp add: expected_boxes_def expected_points_def)

text \<open>Nothing vanishes silently: when both parsers return, no geometry, no off-contract count and no
  malformed block is reported if and only if every complete \<open><box>...</box>\<close> block of the answer is
  the abstention literal \<open><box>None</box>\<close> (or \<open><box>none</box>\<close>).
\<close>

theorem silent_only_for_abstention:
  assumes "parse_boxes answer W H = Inr (ds, off_boxes)"
    and "parse_points answer W H point_label = Inr (ps, off_points)"
  shows "ds = [] \<and> ps = [] \<and> off_boxes = 0 \<and> off_points = 0 \<and> count_malformed_geometry answer = 0 \<longleftrightarrow>
    (\<forall>m \<in> set (finditer ANY_BOX_RE answer). m_text m \<in> {''<box>None</box>'', ''<box>none</box>''})"
proof -
  have "ds = [] \<and> off_boxes = 0 \<longleftrightarrow> occs 4 answer = {}"
    using parse_boxes_accounts [OF assms(1)] by (metis add_is_0 card_0_eq finite_occs length_0_conv)
  moreover have "ps = [] \<and> off_points = 0 \<longleftrightarrow> occs 2 answer = {}"
    using parse_points_accounts [OF assms(2)] by (metis add_is_0 card_0_eq finite_occs length_0_conv)
  ultimately show ?thesis using no_blocks_iff [of answer] unfolding none_blocks_def by blast
qed

lemma silent_only_for_abstention_witness:
  "expected_boxes 640 480 [(''cat'', [Coords [10, 20, 30, 40], Coords [5, 6], NoneBlock])] = [] \<and>
   expected_points 640 480 [(''cat'', [Coords [10, 20, 30, 40], Coords [5, 6], NoneBlock])] = [] \<and>
   (0 :: nat) = 0 \<and> (0 :: nat) = 0 \<and> count_malformed_geometry sample_answer = 0 \<longleftrightarrow>
   (\<forall>m \<in> set (finditer ANY_BOX_RE sample_answer). m_text m \<in> {''<box>None</box>'', ''<box>none</box>''})"
  by (rule silent_only_for_abstention [OF sample_boxes sample_points])

text \<open>Every emitted detection has a trimmed, non-empty label that is the stripped text of a \<open><ref>\<close> of the
  answer, a canonical rectangle on the 1001-token grid (corners sorted, within 0 and 1000) and pixel
  corners that are the scaled grid corners, sorted and within the image, for image sides up to 2^53.
\<close>

theorem emitted_boxes_canonical:
  assumes "parse_boxes answer W H = Inr (ds, off)" and "0 \<le> W" "W \<le> 2 ^ 53" "0 \<le> H" "H \<le> 2 ^ 53"
    and "d \<in> set ds"
  shows "box_ok answer W H d"
  using parse_boxes_ok [OF assms(1-5)] assms(6) by blast

lemma emitted_boxes_canonical_witness:
  "box_ok sample_answer 640 480 (make_box ''cat'' 10 20 30 40 640 480)"
  by (rule emitted_boxes_canonical [OF sample_boxes]) (simp_all add: expected_boxes_def)

text \<open>Every emitted point is labelled by a \<open><ref>\<close> of the answer or by the queried phrase, never by an empty
  text, and lies on the grid and, in pixels, within the image.
\<close>

theorem emitted_points_canonical:
  assumes "parse_points answer W H point_label = Inr (ps, off)" and "0 \<le> W" "W \<le> 2 ^ 53" "0 \<le> H" "H \<le> 2 ^ 53"
    and "p \<in> set ps"
  shows "point_ok answer point_label W H p"
  using parse_points_ok [OF assms(1-5)] assms(6) by blast

lemma emitted_points_canonical_witness:
  "point_ok sample_answer (Some ''dog'') 640 480 (make_point ''cat'' 5 6 640 480)"
  by (rule emitted_points_canonical [OF sample_points]) (simp_all add: expected_points_def)

text \<open>C7.
  Round trip: an answer of the trained language (labelled groups of blocks, \<open>None\<close> blocks and blocks of
  a wrong arity included, then a tail such as \<open><|im_end|>\<close>) parses to exactly its boxes and its points, in
  order, with nothing off-contract, and to the number of its blocks of a wrong arity.
\<close>

theorem trained_answer_roundtrip:
  assumes "\<forall>g \<in> set gs. group_ok g" and "tail_ok tail"
  shows "parse_boxes (show_answer gs tail) W H = Inr (expected_boxes W H gs, 0) \<and>
    parse_points (show_answer gs tail) W H point_label = Inr (expected_points W H gs, 0) \<and>
    count_malformed_geometry (show_answer gs tail) = length (filter malformed_block (concat (map snd gs)))"
  using parse_boxes_shown [OF assms] parse_points_shown [OF assms] malformed_shown [OF _ assms(2)] assms(1)
  by (simp_all add: group_ok_def)

lemma trained_answer_roundtrip_witness:
  "count_malformed_geometry (show_answer [(''cat'', [Coords [1, 2, 3], NoneBlock])] ''<|im_end|>'') = 1"
  using trained_answer_roundtrip [of "[(''cat'', [Coords [1, 2, 3], NoneBlock])]" "''<|im_end|>''"]
  by (simp add: group_ok_def trimmed_def py_isspace_def tail_ok_def)

text \<open>A point answer, bare two-coordinate blocks without references, gives one point per block, in order, each
  labelled with the queried phrase, and nothing off-contract.
\<close>

theorem point_answer_labelled:
  assumes "\<forall>c \<in> set cs. fst c \<le> 1000 \<and> snd c \<le> 1000" and "tail_ok tail" and "phrase \<noteq> []"
  shows "parse_points (show_blocks (map (\<lambda>c. Coords [fst c, snd c]) cs) @ tail) W H (Some phrase) =
    Inr (map (\<lambda>c. make_point phrase (int (fst c)) (int (snd c)) W H) cs, 0)"
  by (rule parse_points_bare [OF assms])

lemma point_answer_labelled_witness:
  "parse_points (show_blocks (map (\<lambda>c. Coords [fst c, snd c]) [(950, 30), (500, 80)]) @ ''<|im_end|>'') 640 480
     (Some ''drone'') =
   Inr (map (\<lambda>c. make_point ''drone'' (int (fst c)) (int (snd c)) 640 480) [(950, 30), (500, 80)], 0)"
  by (rule point_answer_labelled) (simp_all add: tail_ok_def)

end
