(* ===== verification/Pixel_Token_Math.thy ===== *)
theory Pixel_Token_Math
  imports Py_Json Py_Float
begin

text \<open>
  \<^verbatim>\<open>worker/pixel_token_math.py\<close>: the resize plan of the image processor, \<open>plan_resize\<close>, and its summary.
  Sizes are Python ints; the down-scaling branch and the reported scale use binary64
  (theory Py_Float), with \<open>math.sqrt\<close> as the correctly rounded square root below.
  The lemmas show that the plan exists for every image that passes the patch gate and the
  position-embedding gate, what it is, and when the token count stays within the budget.
\<close>

section \<open>Square root\<close>

text \<open>Integer square root by pairs of bits.\<close>

function isqrt :: "int \<Rightarrow> int" where
  "isqrt n = (if n \<le> 0 then 0
     else let r = 2 * isqrt (n div 4) in if (r + 1) * (r + 1) \<le> n then r + 1 else r)"
  by pat_completeness auto
termination by (relation "measure nat") auto

declare isqrt.simps [simp del]

lemma isqrt_bounds: "0 \<le> n \<Longrightarrow> 0 \<le> isqrt n \<and> isqrt n * isqrt n \<le> n \<and> n < (isqrt n + 1) * (isqrt n + 1)"
proof (induction n rule: isqrt.induct)
  case (1 n)
  show ?case
  proof (cases "n = 0")
    case True
    then have "isqrt n = 0" by (subst isqrt.simps) simp
    with True show ?thesis by simp
  next
    case False
    with "1.prems" have n: "\<not> n \<le> 0" "0 \<le> n div 4" by simp_all
    define q where "q = isqrt (n div 4)"
    from "1.IH" [OF n] have q: "0 \<le> q" and lo: "q * q \<le> n div 4" and hi: "n div 4 < (q + 1) * (q + 1)"
      by (simp_all add: q_def)
    have "4 * (q * q) \<le> n" using lo by linarith
    moreover have "n < 4 * ((q + 1) * (q + 1))" using hi by linarith
    ultimately have "2 * q * (2 * q) \<le> n" "n < (2 * q + 2) * (2 * q + 2)" by (simp_all add: algebra_simps)
    moreover have "isqrt n = (if (2 * q + 1) * (2 * q + 1) \<le> n then 2 * q + 1 else 2 * q)"
      using n by (subst isqrt.simps) (simp add: q_def Let_def)
    ultimately show ?thesis using q by (simp add: algebra_simps)
  qed
qed

text \<open>
  \<open>math.sqrt(x)\<close> of a positive float: the root in units of its last place, rounded to nearest even.
  The unit is chosen so that the root has 53 bits.
\<close>

definition fl_sqrt :: "rat \<Rightarrow> rat" where
  "fl_sqrt x = (if x \<le> 0 then 0
     else let u = 2 powi (ilog2 x div 2 - 52); q = x / (u * u); m = isqrt \<lfloor>q\<rfloor>;
              half = (of_int m + 1 / 2) * (of_int m + 1 / 2)
          in (if q < half \<or> (q = half \<and> even m) then of_int m else of_int m + 1) * u)"

section \<open>The resize plan\<close>

definition PATCH_SIZE :: int where "PATCH_SIZE = 14"
definition MERGE_KERNEL :: int where "MERGE_KERNEL = 2"
definition LLM_TOKEN_PX :: int where "LLM_TOKEN_PX = PATCH_SIZE * MERGE_KERNEL"
definition IN_TOKEN_LIMIT :: int where "IN_TOKEN_LIMIT = 25600"
definition MAX_LLM_TOKENS_PER_IMAGE :: int where
  "MAX_LLM_TOKENS_PER_IMAGE = IN_TOKEN_LIMIT div (MERGE_KERNEL * MERGE_KERNEL)"
definition MAX_PATCHES_PER_SIDE :: int where "MAX_PATCHES_PER_SIDE = 512"

lemmas pixel_consts = PATCH_SIZE_def MERGE_KERNEL_def LLM_TOKEN_PX_def IN_TOKEN_LIMIT_def
  MAX_LLM_TOKENS_PER_IMAGE_def MAX_PATCHES_PER_SIDE_def

record image_resize =
  src_w :: int
  src_h :: int
  dst_w :: int
  dst_h :: int
  n_patches_w :: int
  n_patches_h :: int
  n_llm_tokens :: int
  rs_scale :: rat

definition min_resolvable_object_px_src :: "image_resize \<Rightarrow> rat" where
  "min_resolvable_object_px_src p = fl (of_int LLM_TOKEN_PX / rs_scale p)"

definition ceil_grid :: "int \<Rightarrow> int" where
  "ceil_grid w = (let grid = PATCH_SIZE * MERGE_KERNEL in ((w + grid - 1) div grid) * grid)"

definition plan_resize :: "int \<Rightarrow> int \<Rightarrow> image_resize res" where
  "plan_resize width height =
     (if width \<le> 0 \<or> height \<le> 0 then raise ValueError ''image dims must be positive''
      else
        let total_patches = (width div PATCH_SIZE) * (height div PATCH_SIZE);
            scale = fl_sqrt (fl (of_int IN_TOKEN_LIMIT / of_int total_patches));
            w = (if total_patches > IN_TOKEN_LIMIT then py_trunc (fl (fl (of_int width) * scale)) else width);
            h = (if total_patches > IN_TOKEN_LIMIT then py_trunc (fl (fl (of_int height) * scale)) else height);
            dst_w = ceil_grid w;
            dst_h = ceil_grid h;
            n_patches_w = dst_w div PATCH_SIZE;
            n_patches_h = dst_h div PATCH_SIZE
        in if n_patches_w \<ge> MAX_PATCHES_PER_SIDE \<or> n_patches_h \<ge> MAX_PATCHES_PER_SIDE
           then raise ValueError ''exceeds MAX_PATCHES_PER_SIDE after resize''
           else ret \<lparr>src_w = width, src_h = height, dst_w = dst_w, dst_h = dst_h,
                     n_patches_w = n_patches_w, n_patches_h = n_patches_h,
                     n_llm_tokens = (n_patches_w * n_patches_h) div (MERGE_KERNEL * MERGE_KERNEL),
                     rs_scale = fl (of_int dst_w / of_int width)\<rparr>)"

definition summarize :: "int \<Rightarrow> int \<Rightarrow> json res" where
  "summarize width height = bindr (plan_resize width height) (\<lambda>plan. ret (JObj [
     (''src_w'', JInt (src_w plan)), (''src_h'', JInt (src_h plan)),
     (''dst_w'', JInt (dst_w plan)), (''dst_h'', JInt (dst_h plan)),
     (''n_patches_w'', JInt (n_patches_w plan)), (''n_patches_h'', JInt (n_patches_h plan)),
     (''n_llm_tokens'', JInt (n_llm_tokens plan)), (''scale'', JFloat (rs_scale plan)),
     (''min_resolvable_object_px_src'', JFloat (py_round 2 (min_resolvable_object_px_src plan))),
     (''patch_px'', JInt PATCH_SIZE), (''llm_token_px_post_merger'', JInt LLM_TOKEN_PX),
     (''in_token_limit'', JInt IN_TOKEN_LIMIT),
     (''max_llm_tokens_per_image'', JInt MAX_LLM_TOKENS_PER_IMAGE)]))"

section \<open>Lemmas\<close>

text \<open>The two gates of \<^verbatim>\<open>inference.py\<close> on the decoded image, written with the same constants.\<close>

definition within_gates :: "int \<Rightarrow> int \<Rightarrow> bool" where
  "within_gates w h \<longleftrightarrow> (w div 14) * (h div 14) \<le> 25600 \<and>
     (((w + 28 - 1) div 28) * 28) div 14 < 512 \<and> (((h + 28 - 1) div 28) * 28) div 14 < 512"

lemma ceil_grid_bounds: "w \<le> ceil_grid w" "ceil_grid w < w + 28" "28 dvd ceil_grid w"
  by (auto simp: ceil_grid_def pixel_consts)

lemma ceil_grid_patches: "ceil_grid w div 14 = 2 * ((w + 27) div 28)"
  by (simp add: ceil_grid_def pixel_consts)

lemma ceil_grid_tokens: "ceil_grid w div 28 = (w + 27) div 28"
  by (simp add: ceil_grid_def pixel_consts)

lemma plan_resize_eq:
  assumes "0 < w" "0 < h" "within_gates w h"
  shows "plan_resize w h = Inr \<lparr>src_w = w, src_h = h, dst_w = ceil_grid w, dst_h = ceil_grid h,
    n_patches_w = ceil_grid w div 14, n_patches_h = ceil_grid h div 14,
    n_llm_tokens = (ceil_grid w div 28) * (ceil_grid h div 28),
    rs_scale = fl (of_int (ceil_grid w) / of_int w)\<rparr>"
proof -
  have pos: "\<not> (w \<le> 0 \<or> h \<le> 0)" using assms by simp
  have fits: "\<not> (w div PATCH_SIZE) * (h div PATCH_SIZE) > IN_TOKEN_LIMIT"
    using assms(3) by (simp add: within_gates_def pixel_consts)
  have sides: "\<not> (ceil_grid w div PATCH_SIZE \<ge> MAX_PATCHES_PER_SIDE \<or> ceil_grid h div PATCH_SIZE \<ge> MAX_PATCHES_PER_SIDE)"
    using assms(3) by (simp add: within_gates_def ceil_grid_def pixel_consts)
  have "(ceil_grid w div 14 * (ceil_grid h div 14)) div 4 = (ceil_grid w div 28) * (ceil_grid h div 28)"
    unfolding ceil_grid_patches ceil_grid_tokens by simp
  then have tok: "(ceil_grid w div PATCH_SIZE * (ceil_grid h div PATCH_SIZE)) div (MERGE_KERNEL * MERGE_KERNEL) =
      (ceil_grid w div 28) * (ceil_grid h div 28)"
    by (simp add: PATCH_SIZE_def MERGE_KERNEL_def)
  show ?thesis
    unfolding plan_resize_def Let_def
    by (simp only: pos fits sides if_False tok) (simp add: PATCH_SIZE_def)
qed

lemma plan_resize_src:
  assumes "plan_resize w h = Inr plan"
  shows "0 < w \<and> 0 < h \<and> src_w plan = w \<and> src_h plan = h"
  using assms by (auto simp: plan_resize_def Let_def split: if_splits)

section \<open>Properties\<close>

text \<open>An image that passes the two gates of the worker always has a resize plan, and it is the anamorphic
  one: each side goes up to the next multiple of 28, by less than 28 pixels; the token count is the
  number of 28-pixel cells; no side has 512 patches; the reported scale is at least 1.
\<close>

theorem gated_image_has_plan:
  assumes "0 < w" "0 < h" "within_gates w h"
  shows "\<exists>plan. plan_resize w h = Inr plan \<and> src_w plan = w \<and> src_h plan = h \<and>
    28 dvd dst_w plan \<and> w \<le> dst_w plan \<and> dst_w plan < w + 28 \<and>
    28 dvd dst_h plan \<and> h \<le> dst_h plan \<and> dst_h plan < h + 28 \<and>
    n_patches_w plan < 512 \<and> n_patches_h plan < 512 \<and>
    n_llm_tokens plan * (28 * 28) = dst_w plan * dst_h plan \<and> 1 \<le> rs_scale plan"
proof -
  have p: "ceil_grid w div 14 < 512" "ceil_grid h div 14 < 512"
    using assms(3) by (simp_all add: within_gates_def ceil_grid_def pixel_consts)
  have m: "ceil_grid w = 28 * (ceil_grid w div 28)" "ceil_grid h = 28 * (ceil_grid h div 28)"
    using ceil_grid_bounds(3) by simp_all
  then have t: "(ceil_grid w div 28) * (ceil_grid h div 28) * (28 * 28) = ceil_grid w * ceil_grid h"
    by (metis (no_types, lifting) mult.assoc mult.commute)
  have "(1 :: rat) \<le> of_int (ceil_grid w) / of_int w"
    using assms(1) ceil_grid_bounds(1) [of w] by simp
  then have "1 \<le> fl (of_int (ceil_grid w) / of_int w)"
    using fl_mono [of 1 "of_int (ceil_grid w) / of_int w"] fl_of_int [of 1] by simp
  with p t show ?thesis
    using ceil_grid_bounds [of w] ceil_grid_bounds [of h] by (simp add: plan_resize_eq [OF assms])
qed

lemma gated_image_has_plan_witness:
  "\<exists>plan. plan_resize 1920 1080 = Inr plan \<and> src_w plan = 1920 \<and> src_h plan = 1080 \<and>
    28 dvd dst_w plan \<and> 1920 \<le> dst_w plan \<and> dst_w plan < 1920 + 28 \<and>
    28 dvd dst_h plan \<and> 1080 \<le> dst_h plan \<and> dst_h plan < 1080 + 28 \<and>
    n_patches_w plan < 512 \<and> n_patches_h plan < 512 \<and>
    n_llm_tokens plan * (28 * 28) = dst_w plan * dst_h plan \<and> 1 \<le> rs_scale plan"
  by (rule gated_image_has_plan) (simp_all add: within_gates_def)

text \<open>C28.
  Token budget: with both sides at most 2240, the configured image limit, an image passes both gates and
  its plan stays within \<open>MAX_LLM_TOKENS_PER_IMAGE\<close>.
\<close>

theorem token_budget_within_limit:
  assumes "0 < w" "w \<le> 2240" "0 < h" "h \<le> 2240"
  shows "within_gates w h \<and>
    (\<exists>plan. plan_resize w h = Inr plan \<and> 0 < n_llm_tokens plan \<and> n_llm_tokens plan \<le> MAX_LLM_TOKENS_PER_IMAGE)"
proof -
  have d: "0 \<le> x div 14 \<and> x div 14 \<le> 160 \<and> 0 < (x + 27) div 28 \<and> (x + 27) div 28 \<le> 80"
    if "0 < x" "x \<le> 2240" for x :: int
    using that by linarith
  have "(w div 14) * (h div 14) \<le> 160 * 160" by (rule mult_mono) (use d assms in auto)
  moreover have "(w + 27) div 28 * ((h + 27) div 28) \<le> 80 * 80" by (rule mult_mono) (use d assms in auto)
  moreover have "0 < (w + 27) div 28 * ((h + 27) div 28)" using d assms by simp
  moreover have g: "within_gates w h"
    using d [of w] d [of h] assms calculation(1) by (simp add: within_gates_def add.commute)
  ultimately show ?thesis
    by (simp add: plan_resize_eq [OF assms(1,3) g] ceil_grid_tokens pixel_consts)
qed

lemma token_budget_within_limit_witness:
  "within_gates 2240 2240 \<and>
    (\<exists>plan. plan_resize 2240 2240 = Inr plan \<and> 0 < n_llm_tokens plan \<and> n_llm_tokens plan \<le> MAX_LLM_TOKENS_PER_IMAGE)"
  by (rule token_budget_within_limit) simp_all

text \<open>Beyond that limit the gates do not bound the tokens: they count whole 14-pixel patches of the source,
  the plan counts started 28-pixel cells. A 2253 x 2253 image passes both gates and gets 6561 tokens,
  more than \<open>MAX_LLM_TOKENS_PER_IMAGE\<close>.
\<close>

theorem token_budget_not_implied_by_gates:
  "within_gates 2253 2253 \<and>
   (\<exists>plan. plan_resize 2253 2253 = Inr plan \<and> n_llm_tokens plan = 6561 \<and> MAX_LLM_TOKENS_PER_IMAGE < n_llm_tokens plan)"
proof -
  have g: "within_gates 2253 2253" by (simp add: within_gates_def)
  show ?thesis by (simp add: plan_resize_eq [OF _ _ g] g ceil_grid_tokens pixel_consts)
qed

end
