(* ===== verification/Inference.thy ===== *)
theory Inference
  imports Parsing_Grammar Pixel_Token_Math Prompts Framing
begin

text \<open>
  \<^verbatim>\<open>worker/inference.py\<close>, the request path: the generation parameters, the decoding of the JPEG, the
  gates on its size, the rendering of the chat template with its bookend check, the call of the model and
  the mapping of its answer to one of the four result variants.

  PIL, the processor and the model are code outside of the repository: they are the fields of the record
  \<open>backend\<close>, functions that return what the library call returns or the exception it raises. The model call
  and the clock read and change the state \<open>'w\<close> of the outside world, so two runs may differ. The processor and the transfer of
  its tensors to the device may raise, but do not change that state, and \<open>torch.cuda.synchronize\<close>, which only waits, is part of
  the call of the model and of the clock. Everything else is the code of the file, one definition per step of \<open>run\<close>, composed
  in its order.

  The lemmas show that the model is only called on inputs that passed every check, that the result
  accounts for every block of the answer, and which variant an answer gets.
\<close>

type_synonym env = "string \<Rightarrow> string option"

section \<open>Generation parameters\<close>

definition require_env :: "env \<Rightarrow> string \<Rightarrow> string res" where
  "require_env env name = (case env name of
     None \<Rightarrow> raise RuntimeError ''environment variable is not set''
   | Some v \<Rightarrow> if v = [] then raise RuntimeError ''environment variable is not set'' else ret v)"

record gen_config =
  temperature :: rat
  top_p :: rat
  repetition_penalty :: rat
  do_sample :: bool
  max_new_tokens :: int
  n_future_tokens :: int

definition from_env :: "env \<Rightarrow> gen_config res" where
  "from_env env =
     bindr (require_env env ''LA_GEN_DO_SAMPLE'') (\<lambda>ds.
     if ds \<notin> {''0'', ''1''} then raise RuntimeError ''LA_GEN_DO_SAMPLE is not exactly 0 or 1''
     else
       bindr (bindr (require_env env ''LA_GEN_TEMPERATURE'') py_float) (\<lambda>t.
       bindr (bindr (require_env env ''LA_GEN_TOP_P'') py_float) (\<lambda>p.
       bindr (bindr (require_env env ''LA_GEN_REP_PEN'') py_float) (\<lambda>rp.
       bindr (bindr (require_env env ''LA_GEN_MAX_NEW_TOKENS'') py_int) (\<lambda>mx.
       bindr (bindr (require_env env ''LA_GEN_N_FUTURE_TOKENS'') py_int) (\<lambda>nf.
       ret \<lparr>temperature = t, top_p = p, repetition_penalty = rp, do_sample = (ds = ''1''),
            max_new_tokens = mx, n_future_tokens = nf\<rparr>))))))"

definition to_kwargs :: "gen_config \<Rightarrow> json \<Rightarrow> (string \<times> json) list res" where
  "to_kwargs cfg mode =
     (if mode \<notin> JStr ` {''fast'', ''hybrid'', ''slow''}
      then raise ValueError ''generation_mode is not one of fast|hybrid|slow''
      else ret ([(''do_sample'', JBool (do_sample cfg)), (''temperature'', JFloat (temperature cfg)),
                 (''top_p'', JFloat (top_p cfg)), (''repetition_penalty'', JFloat (repetition_penalty cfg)),
                 (''max_new_tokens'', JInt (max_new_tokens cfg)), (''generation_mode'', mode),
                 (''use_cache'', JBool True), (''verbose'', JBool False)] @
                (if mode \<in> JStr ` {''fast'', ''hybrid''}
                 then [(''n_future_tokens'', JInt (n_future_tokens cfg))] else [])))"

section \<open>Tasks and variants\<close>

definition EXPECTED_SHAPE :: "(string \<times> string) list" where
  "EXPECTED_SHAPE = [(''detection'', ''box''), (''phrase_single'', ''box''), (''phrase_multi'', ''box''),
     (''text_grounding'', ''box''), (''scene_text'', ''box''), (''gui_box'', ''box''), (''point'', ''point'')]"

datatype result_kind = KIND_BOXES | KIND_POINTS | KIND_ABSTAINED | KIND_DEVIATION

fun kind_name :: "result_kind \<Rightarrow> string" where
  "kind_name KIND_BOXES = ''boxes''"
| "kind_name KIND_POINTS = ''points''"
| "kind_name KIND_ABSTAINED = ''abstained''"
| "kind_name KIND_DEVIATION = ''model_deviation''"

record inference_result =
  ir_kind :: result_kind
  ir_boxes :: "json list"
  ir_points :: "json list"
  deviation_message :: "string option"
  raw_answer :: string
  deviations_dropped :: nat
  model_output_truncated :: bool
  latency_ms :: rat
  image_size :: "int \<times> int"
  resize_plan :: json

section \<open>The libraries\<close>

text \<open>
  \<open>process_vision_info\<close> returns any Python value: \<open>None\<close> stands for one that is not a tuple, a list for a
  tuple. \<open>generate\<close> returns a string, tokens, or a tuple of such.
\<close>

datatype 'tok gen_value = GStr string | GTokens 'tok
datatype 'tok gen_out = GPlain "'tok gen_value" | GTuple "'tok gen_value list"

record ('img, 'prof, 'vis, 'inp, 'tok, 'w) backend =
  image_open :: "byte list \<Rightarrow> 'img res"
  img_mode :: "'img \<Rightarrow> string"
  exif_transpose :: "'img \<Rightarrow> 'img res"
  icc_profile :: "'img \<Rightarrow> byte list option"
  cms_profile :: "byte list \<Rightarrow> 'prof res"
  cms_description :: "'prof \<Rightarrow> string res"
  cms_to_srgb :: "'img \<Rightarrow> 'prof \<Rightarrow> 'img res"
  convert_rgb :: "'img \<Rightarrow> 'img res"
  img_width :: "'img \<Rightarrow> int"
  img_height :: "'img \<Rightarrow> int"
  apply_chat_template :: "'img \<Rightarrow> string \<Rightarrow> string res"
  process_vision_info :: "'img \<Rightarrow> string \<Rightarrow> 'vis list option res"
  call_processor :: "string \<Rightarrow> 'vis \<Rightarrow> 'vis \<Rightarrow> 'inp res"
  input_keys :: "'inp \<Rightarrow> string list"
  generate :: "'w \<Rightarrow> 'inp \<Rightarrow> (string \<times> json) list \<Rightarrow> 'tok gen_out res \<times> 'w"
  decode_tokens :: "'tok \<Rightarrow> string res"
  perf_counter :: "'w \<Rightarrow> rat \<times> 'w"

section \<open>Reading the request\<close>

definition check_request :: "json \<Rightarrow> json \<Rightarrow> byte list \<Rightarrow> (string \<times> string) res" where
  "check_request prompt prompt_task jpeg =
     (case prompt of
        JStr p \<Rightarrow>
          if p = [] then raise ValueError ''prompt must be a non-empty string''
          else (case prompt_task of
            JStr t \<Rightarrow>
              if t \<notin> fst ` set EXPECTED_SHAPE then raise ValueError ''prompt_task is not one of the canonical wire names''
              else if jpeg = [] then raise ValueError ''jpeg_bytes must be non-empty bytes''
              else ret (p, t)
          | _ \<Rightarrow> raise ValueError ''prompt_task is not one of the canonical wire names'')
      | _ \<Rightarrow> raise ValueError ''prompt must be a non-empty string'')"

definition PIL_DECODE_EXCEPTIONS :: "exc_class list" where
  "PIL_DECODE_EXCEPTIONS = [OSError, SyntaxError, ValueError, UnidentifiedImageError,
     DecompressionBombError, DecompressionBombWarning]"

definition to_srgb :: "('img, 'prof, 'vis, 'inp, 'tok, 'w) backend \<Rightarrow> 'img \<Rightarrow> byte list \<Rightarrow> 'img res" where
  "to_srgb B raw icc = catchr
     (bindr (cms_profile B icc) (\<lambda>src.
      bindr (cms_description B src) (\<lambda>d.
      if \<not> py_contains ''srgb'' (py_lower (py_strip d)) then cms_to_srgb B raw src else ret raw)))
     [ValueError, OSError, PyCMSError]
     (\<lambda>e. raise ValueError ''ICC profile present but could not be converted to sRGB'')"

definition decode_image :: "('img, 'prof, 'vis, 'inp, 'tok, 'w) backend \<Rightarrow> byte list \<Rightarrow> 'img res" where
  "decode_image B jpeg = catchr
     (bindr (image_open B jpeg) (\<lambda>raw.
      if img_mode B raw = ''CMYK'' then raise ValueError ''CMYK JPEG rejected''
      else
        bindr (exif_transpose B raw) (\<lambda>raw.
        bindr (case icc_profile B raw of
                 None \<Rightarrow> ret raw
               | Some icc \<Rightarrow> if icc = [] then ret raw else to_srgb B raw icc) (\<lambda>raw.
        convert_rgb B raw))))
     PIL_DECODE_EXCEPTIONS
     (\<lambda>e. raise ValueError ''JPEG decode failed'')"

definition gate_image :: "int \<Rightarrow> int \<Rightarrow> unit res" where
  "gate_image w h =
     (let PATCH_PX = 14; GRID_PX = 28; IN_TOKEN_LIMIT = 25600; POS_EMB_CAP = 512 in
      if (w div PATCH_PX) * (h div PATCH_PX) > IN_TOKEN_LIMIT
      then raise ValueError ''image exceeds the trained in_token_limit''
      else
        let target_w = ((w + GRID_PX - 1) div GRID_PX) * GRID_PX;
            target_h = ((h + GRID_PX - 1) div GRID_PX) * GRID_PX;
            wp = target_w div PATCH_PX; hp = target_h div PATCH_PX
        in if wp \<ge> POS_EMB_CAP \<or> hp \<ge> POS_EMB_CAP
           then raise ValueError ''image exceeds the positional-embedding cap''
           else ret ())"

definition render_prompt :: "('img, 'prof, 'vis, 'inp, 'tok, 'w) backend \<Rightarrow> 'img \<Rightarrow> string \<Rightarrow> string res" where
  "render_prompt B img prompt =
     bindr (apply_chat_template B img prompt) (\<lambda>text.
     if \<not> py_startswith text CANONICAL_RENDERED_PREFIX
     then raise RuntimeError ''rendered chat template does not start with the trained bookend''
     else if \<not> py_endswith text CANONICAL_RENDERED_SUFFIX
     then raise RuntimeError ''rendered chat template does not end with the assistant turn''
     else ret text)"

definition build_inputs :: "('img, 'prof, 'vis, 'inp, 'tok, 'w) backend \<Rightarrow> 'img \<Rightarrow> string \<Rightarrow> string \<Rightarrow> 'inp res" where
  "build_inputs B img prompt text =
     bindr (process_vision_info B img prompt) (\<lambda>vision_info.
     case vision_info of
       Some [images, videos] \<Rightarrow>
         bindr (call_processor B text images videos) (\<lambda>inputs.
         if \<exists>k \<in> {''pixel_values'', ''input_ids'', ''attention_mask'', ''image_grid_hws''}. k \<notin> set (input_keys B inputs)
         then raise RuntimeError ''processor output is missing a required key''
         else ret inputs)
     | _ \<Rightarrow> raise RuntimeError ''process_vision_info did not return a 2-tuple'')"

section \<open>From the answer to the variant\<close>

definition answer_text :: "('img, 'prof, 'vis, 'inp, 'tok, 'w) backend \<Rightarrow> 'tok gen_out \<Rightarrow> string res" where
  "answer_text B out =
     bindr (case out of GPlain v \<Rightarrow> ret v
            | GTuple [] \<Rightarrow> raise IndexError ''tuple index out of range''
            | GTuple (v # _) \<Rightarrow> ret v)
       (\<lambda>v. case v of GStr s \<Rightarrow> ret s | GTokens t \<Rightarrow> decode_tokens B t)"

definition deviation_text :: "string \<Rightarrow> string \<Rightarrow> nat \<Rightarrow> string" where
  "deviation_text shape_word prompt_task dropped =
     ''model emitted geometry but zero valid '' @ shape_word @ ''(s) for the '' @ [CHR 0x27] @ prompt_task @
     [CHR 0x27] @ '' task: dropped '' @ dec_digits dropped @ '' off-contract item(s)''"

definition resize_plan_json :: "image_resize \<Rightarrow> json" where
  "resize_plan_json plan = JObj [(''dst_w'', JInt (dst_w plan)), (''dst_h'', JInt (dst_h plan)),
     (''n_llm_tokens'', JInt (n_llm_tokens plan)), (''scale'', JFloat (py_round 4 (rs_scale plan)))]"

text \<open>The parsed geometry of an answer: boxes, off-contract boxes, points, off-contract points, malformed blocks.\<close>

definition read_geometry ::
  "string \<Rightarrow> string \<Rightarrow> string \<Rightarrow> int \<Rightarrow> int \<Rightarrow> (json list \<times> nat \<times> json list \<times> nat \<times> nat) res" where
  "read_geometry answer prompt prompt_task w h =
     bindr (parse_boxes answer w h) (\<lambda>(boxes_objs, box_off).
     bindr (if prompt_task = ''point'' then bindr (point_phrase prompt) (\<lambda>l. ret (Some l)) else ret None) (\<lambda>point_label.
     bindr (parse_points answer w h point_label) (\<lambda>(points_objs, point_off).
     ret (map detection_to_json boxes_objs, box_off, map point_to_json points_objs, point_off,
          count_malformed_geometry answer))))"

definition resolve_variant ::
  "string \<Rightarrow> json list \<times> nat \<times> json list \<times> nat \<times> nat \<Rightarrow> string \<Rightarrow> rat \<Rightarrow> int \<Rightarrow> int \<Rightarrow> image_resize \<Rightarrow>
   inference_result" where
  "resolve_variant prompt_task geometry answer latency w h plan =
     (case geometry of (box_dicts, box_off, point_dicts, point_off, malformed) \<Rightarrow>
      let expected = the (map_of EXPECTED_SHAPE prompt_task);
          is_point = (expected = ''point'');
          valid_kind = (if is_point then KIND_POINTS else KIND_BOXES);
          valid_count = (if is_point then length point_dicts else length box_dicts);
          dropped = (if is_point then length box_dicts + box_off + point_off + malformed
                     else length point_dicts + point_off + box_off + malformed);
          any_geometry_block = (box_dicts \<noteq> [] \<or> point_dicts \<noteq> [] \<or> box_off \<noteq> 0 \<or> point_off \<noteq> 0 \<or> malformed \<noteq> 0);
          shape_word = (if is_point then ''point'' else ''box'');
          meta = \<lparr>ir_kind = KIND_ABSTAINED, ir_boxes = [], ir_points = [], deviation_message = None,
                  raw_answer = answer, deviations_dropped = 0,
                  model_output_truncated = (\<not> py_endswith answer ''<|im_end|>''),
                  latency_ms = latency, image_size = (w, h), resize_plan = resize_plan_json plan\<rparr>
      in if valid_count > 0
         then meta\<lparr>ir_kind := valid_kind,
                   ir_boxes := (if valid_kind = KIND_BOXES then box_dicts else []),
                   ir_points := (if valid_kind = KIND_POINTS then point_dicts else []),
                   deviations_dropped := dropped\<rparr>
         else if any_geometry_block
         then meta\<lparr>ir_kind := KIND_DEVIATION,
                   deviation_message := Some (deviation_text shape_word prompt_task dropped),
                   deviations_dropped := dropped\<rparr>
         else meta)"

section \<open>run\<close>

text \<open>Everything before the model is called: the rendered request and the plan.\<close>

definition prepare ::
  "('img, 'prof, 'vis, 'inp, 'tok, 'w) backend \<Rightarrow> gen_config \<Rightarrow> byte list \<Rightarrow> json \<Rightarrow> json \<Rightarrow> json \<Rightarrow>
   (string \<times> string \<times> 'img \<times> image_resize \<times> 'inp \<times> (string \<times> json) list) res" where
  "prepare B cfg jpeg prompt mode prompt_task =
     bindr (check_request prompt prompt_task jpeg) (\<lambda>(p, task).
     bindr (decode_image B jpeg) (\<lambda>img.
     bindr (gate_image (img_width B img) (img_height B img)) (\<lambda>_.
     bindr (plan_resize (img_width B img) (img_height B img)) (\<lambda>plan.
     bindr (render_prompt B img p) (\<lambda>text.
     bindr (build_inputs B img p text) (\<lambda>inputs.
     bindr (to_kwargs cfg mode) (\<lambda>kwargs.
     ret (p, task, img, plan, inputs, kwargs))))))))"

definition run ::
  "('img, 'prof, 'vis, 'inp, 'tok, 'w) backend \<Rightarrow> gen_config \<Rightarrow> 'w \<Rightarrow> byte list \<Rightarrow> json \<Rightarrow> json \<Rightarrow> json \<Rightarrow>
   inference_result res \<times> 'w" where
  "run B cfg wd jpeg prompt mode prompt_task =
     (case prepare B cfg jpeg prompt mode prompt_task of
        Inl e \<Rightarrow> (Inl e, wd)
      | Inr (p, task, img, plan, inputs, kwargs) \<Rightarrow>
          let (t0, wd1) = perf_counter B wd;
              (out, wd2) = generate B wd1 inputs kwargs
          in (case out of
                Inl e \<Rightarrow> (Inl e, wd2)
              | Inr out \<Rightarrow>
                  let (t1, wd3) = perf_counter B wd2;
                      latency = fl (fl (t1 - t0) * 1000)
                  in (bindr (answer_text B out) (\<lambda>answer.
                      bindr (read_geometry answer p task (img_width B img) (img_height B img)) (\<lambda>g.
                      ret (resolve_variant task g answer latency (img_width B img) (img_height B img) plan))),
                      wd3)))"

section \<open>Lemmas\<close>

lemma gate_image_within: "gate_image w h = Inr u \<longleftrightarrow> within_gates w h"
  by (auto simp: gate_image_def within_gates_def Let_def)

lemma task_shape: "t \<in> fst ` set EXPECTED_SHAPE \<Longrightarrow> (the (map_of EXPECTED_SHAPE t) = ''point'') = (t = ''point'')"
  by (auto simp: EXPECTED_SHAPE_def)

lemma check_request_Inr:
  "check_request prompt prompt_task jpeg = Inr (p, t) \<longleftrightarrow>
   prompt = JStr p \<and> p \<noteq> [] \<and> prompt_task = JStr t \<and> t \<in> fst ` set EXPECTED_SHAPE \<and> jpeg \<noteq> []"
  by (auto simp: check_request_def split: json.splits)

lemma to_kwargs_Inr: "to_kwargs cfg mode = Inr kw \<Longrightarrow> mode \<in> JStr ` {''fast'', ''hybrid'', ''slow''}"
  by (auto simp: to_kwargs_def split: if_splits)

lemma render_prompt_Inr:
  "render_prompt B img p = Inr text \<longleftrightarrow> apply_chat_template B img p = Inr text \<and>
   py_startswith text CANONICAL_RENDERED_PREFIX \<and> py_endswith text CANONICAL_RENDERED_SUFFIX"
  by (auto simp: render_prompt_def bindr_eq_Inr)

lemma prepare_Inr:
  assumes "prepare B cfg jpeg prompt mode prompt_task = Inr (p, t, img, plan, inputs, kw)"
  shows "prompt = JStr p \<and> p \<noteq> [] \<and> prompt_task = JStr t \<and> t \<in> fst ` set EXPECTED_SHAPE \<and> jpeg \<noteq> [] \<and>
    decode_image B jpeg = Inr img \<and> within_gates (img_width B img) (img_height B img) \<and>
    plan_resize (img_width B img) (img_height B img) = Inr plan \<and>
    (\<exists>text. render_prompt B img p = Inr text \<and> build_inputs B img p text = Inr inputs) \<and>
    to_kwargs cfg mode = Inr kw"
  using assms unfolding prepare_def
  by (auto simp: bindr_eq_Inr check_request_Inr gate_image_within)

lemma run_Inr:
  assumes "run B cfg wd jpeg prompt mode prompt_task = (Inr r, wd')"
  obtains p t img plan inputs kw answer g latency where
    "prepare B cfg jpeg prompt mode prompt_task = Inr (p, t, img, plan, inputs, kw)"
    "read_geometry answer p t (img_width B img) (img_height B img) = Inr g"
    "r = resolve_variant t g answer latency (img_width B img) (img_height B img) plan"
proof (cases "prepare B cfg jpeg prompt mode prompt_task")
  case (Inl e)
  with assms show thesis by (simp add: run_def)
next
  case (Inr x)
  obtain p t img plan inputs kw where x: "x = (p, t, img, plan, inputs, kw)" by (cases x) auto
  from assms Inr x show thesis
    by (auto simp: run_def Let_def bindr_eq_Inr split: prod.splits sum.splits intro: that)
qed

lemma read_geometry_Inr:
  assumes "read_geometry answer p t w h = Inr g"
  obtains ds box_off lbl ps point_off where
    "g = (map detection_to_json ds, box_off, map point_to_json ps, point_off, count_malformed_geometry answer)"
    "parse_boxes answer w h = Inr (ds, box_off)" "parse_points answer w h lbl = Inr (ps, point_off)"
    "lbl = (if t = ''point'' then Some (projr (point_phrase p)) else None)"
    "t = ''point'' \<longrightarrow> returns (point_phrase p)"
proof -
  from assms obtain ds box_off lbl ps point_off where
    a: "g = (map detection_to_json ds, box_off, map point_to_json ps, point_off, count_malformed_geometry answer)"
    "parse_boxes answer w h = Inr (ds, box_off)" "parse_points answer w h lbl = Inr (ps, point_off)"
    and l: "(if t = ''point'' then bindr (point_phrase p) (\<lambda>l. ret (Some l)) else ret None) = Inr lbl"
    unfolding read_geometry_def by (fastforce simp: bindr_eq_Inr simp del: if_split)
  from l have "lbl = (if t = ''point'' then Some (projr (point_phrase p)) else None)"
    "t = ''point'' \<longrightarrow> returns (point_phrase p)"
    by (auto simp: bindr_eq_Inr split: if_splits)
  with a that show thesis by blast
qed

text \<open>The four variants of \<open>resolve_variant\<close>, in terms of what was parsed.\<close>

lemma resolve_variant_cases:
  assumes "t \<in> fst ` set EXPECTED_SHAPE"
    and "r = resolve_variant t (bs, box_off, ps, point_off, mal) answer latency w h plan"
  shows "ir_kind r = (if t = ''point'' then (if ps \<noteq> [] then KIND_POINTS
             else if bs \<noteq> [] \<or> box_off \<noteq> 0 \<or> point_off \<noteq> 0 \<or> mal \<noteq> 0 then KIND_DEVIATION else KIND_ABSTAINED)
           else (if bs \<noteq> [] then KIND_BOXES
             else if ps \<noteq> [] \<or> box_off \<noteq> 0 \<or> point_off \<noteq> 0 \<or> mal \<noteq> 0 then KIND_DEVIATION else KIND_ABSTAINED))"
    and "ir_boxes r = (if t = ''point'' then [] else bs)"
    and "ir_points r = (if t = ''point'' then ps else [])"
    and "deviations_dropped r = (if t = ''point'' then length bs else length ps) + box_off + point_off + mal"
    and "raw_answer r = answer" and "image_size r = (w, h)"
    and "deviation_message r \<noteq> None \<longleftrightarrow> ir_kind r = KIND_DEVIATION"
    and "model_output_truncated r \<longleftrightarrow> \<not> py_endswith answer ''<|im_end|>''"
    and "resize_plan r = resize_plan_json plan"
  using task_shape [OF assms(1)] unfolding assms(2)
  by (auto simp: resolve_variant_def Let_def)

lemma run_parsed:
  assumes "run B cfg wd jpeg prompt mode prompt_task = (Inr r, wd')"
  obtains t w h ds box_off lbl ps point_off where
    "prompt_task = JStr t" "t \<in> fst ` set EXPECTED_SHAPE" "within_gates w h" "0 < w" "0 < h"
    "image_size r = (w, h)"
    "parse_boxes (raw_answer r) w h = Inr (ds, box_off)"
    "parse_points (raw_answer r) w h lbl = Inr (ps, point_off)"
    "t \<noteq> ''point'' \<longrightarrow> lbl = None"
    "\<exists>latency plan. r = resolve_variant t (map detection_to_json ds, box_off, map point_to_json ps, point_off,
       count_malformed_geometry (raw_answer r)) (raw_answer r) latency w h plan"
proof -
  from run_Inr [OF assms] obtain p t img plan inputs kw answer g latency where
    pr: "prepare B cfg jpeg prompt mode prompt_task = Inr (p, t, img, plan, inputs, kw)"
    and rg: "read_geometry answer p t (img_width B img) (img_height B img) = Inr g"
    and r: "r = resolve_variant t g answer latency (img_width B img) (img_height B img) plan" by metis
  note prep = prepare_Inr [OF pr]
  from read_geometry_Inr [OF rg] obtain ds box_off lbl ps point_off where
    g: "g = (map detection_to_json ds, box_off, map point_to_json ps, point_off, count_malformed_geometry answer)"
    and pb: "parse_boxes answer (img_width B img) (img_height B img) = Inr (ds, box_off)"
    and pp: "parse_points answer (img_width B img) (img_height B img) lbl = Inr (ps, point_off)"
    and l: "lbl = (if t = ''point'' then Some (projr (point_phrase p)) else None)" by metis
  have t: "t \<in> fst ` set EXPECTED_SHAPE" using prep by blast
  note res = resolve_variant_cases [OF t r [unfolded g]]
  have pos: "0 < img_width B img \<and> 0 < img_height B img" using prep plan_resize_src by blast
  show thesis
    by (rule that [of t "img_width B img" "img_height B img" ds box_off lbl ps point_off])
       (use prep t pos res pb pp l r g in auto)
qed

section \<open>A backend for the witnesses\<close>

text \<open>A 640 x 480 RGB image, a faithful template, a model that answers with a fixed text; the outside
  world counts the calls.\<close>

definition demo_backend :: "string \<Rightarrow> (int \<times> int, unit, unit, string, unit, nat) backend" where
  "demo_backend answer = \<lparr>image_open = (\<lambda>_. Inr (640, 480)), img_mode = (\<lambda>_. ''RGB''), exif_transpose = Inr,
     icc_profile = (\<lambda>_. None), cms_profile = (\<lambda>_. Inr ()), cms_description = (\<lambda>_. Inr ''sRGB''),
     cms_to_srgb = (\<lambda>i _. Inr i), convert_rgb = Inr, img_width = fst, img_height = snd,
     apply_chat_template = (\<lambda>_ p. Inr (CANONICAL_RENDERED_PREFIX @ p @ CANONICAL_RENDERED_SUFFIX)),
     process_vision_info = (\<lambda>_ _. Inr (Some [(), ()])), call_processor = (\<lambda>t _ _. Inr t),
     input_keys = (\<lambda>_. [''pixel_values'', ''input_ids'', ''attention_mask'', ''image_grid_hws'']),
     generate = (\<lambda>w _ _. (Inr (GPlain (GStr answer)), Suc w)), decode_tokens = (\<lambda>_. Inr []),
     perf_counter = (\<lambda>w. (of_nat w, Suc w))\<rparr>"

definition demo_cfg :: gen_config where
  "demo_cfg = \<lparr>temperature = 7 / 10, top_p = 9 / 10, repetition_penalty = 1, do_sample = True,
     max_new_tokens = 8192, n_future_tokens = 6\<rparr>"

definition demo_jpeg :: "byte list" where "demo_jpeg = [0xFF, 0xD8, 0xFF, 0xE0]"

definition demo_run :: "string \<Rightarrow> string \<Rightarrow> string \<Rightarrow> inference_result res \<times> nat" where
  "demo_run answer prompt task =
     run (demo_backend answer) demo_cfg 0 demo_jpeg (JStr prompt) (JStr ''hybrid'') (JStr task)"

lemma demo_prepare:
  assumes "p \<noteq> []" "t \<in> fst ` set EXPECTED_SHAPE"
  shows "\<exists>plan inputs kw. prepare (demo_backend answer) cfg demo_jpeg (JStr p) (JStr ''hybrid'') (JStr t) =
    Inr (p, t, (640, 480), plan, inputs, kw)"
proof -
  have g: "within_gates 640 480" by (simp add: within_gates_def)
  have "\<exists>kw. to_kwargs cfg (JStr ''hybrid'') = Inr kw" by (simp add: to_kwargs_def)
  moreover have "\<exists>plan. plan_resize 640 480 = Inr plan" by (simp add: plan_resize_eq [OF _ _ g])
  moreover have "check_request (JStr p) (JStr t) demo_jpeg = Inr (p, t)"
    using assms by (simp add: check_request_Inr demo_jpeg_def)
  moreover have "decode_image (demo_backend answer) demo_jpeg = Inr (640, 480)"
    by (simp add: decode_image_def demo_backend_def)
  moreover have "gate_image 640 480 = Inr ()" using g gate_image_within by blast
  moreover have "render_prompt (demo_backend answer) (640, 480) p = Inr (CANONICAL_RENDERED_PREFIX @ p @ CANONICAL_RENDERED_SUFFIX)"
    by (simp add: render_prompt_Inr demo_backend_def) (metis append.assoc py_endswith_append)
  moreover have "\<exists>i. build_inputs (demo_backend answer) (640, 480) p tx = Inr i" for tx
    by (simp add: build_inputs_def demo_backend_def)
  moreover have "img_width (demo_backend answer) (640, 480) = 640" "img_height (demo_backend answer) (640, 480) = 480"
    by (simp_all add: demo_backend_def)
  ultimately show ?thesis unfolding prepare_def by (auto simp: bindr_eq_Inr)
qed

lemma demo_run_returns:
  assumes "p \<noteq> []" "t \<in> fst ` set EXPECTED_SHAPE"
    and "read_geometry answer p t 640 480 = Inr g"
  shows "\<exists>r. demo_run answer p t = (Inr r, 3) \<and> (\<exists>latency plan. r = resolve_variant t g answer latency 640 480 plan)"
proof -
  obtain plan inputs kw where
    "prepare (demo_backend answer) demo_cfg demo_jpeg (JStr p) (JStr ''hybrid'') (JStr t) =
      Inr (p, t, (640, 480), plan, inputs, kw)"
    using demo_prepare [OF assms(1,2)] by blast
  with assms(3) show ?thesis
    by (auto simp: demo_run_def run_def answer_text_def demo_backend_def Let_def)
qed

lemma demo_detection:
  "\<exists>r. demo_run sample_answer ''find it'' ''detection'' = (Inr r, 3) \<and> ir_kind r = KIND_BOXES \<and>
    ir_boxes r = [detection_to_json (make_box ''cat'' 10 20 30 40 640 480)] \<and> deviations_dropped r = 1 \<and>
    image_size r = (640, 480)"
proof -
  have m: "count_malformed_geometry sample_answer = 0"
    unfolding sample_answer_def by (subst malformed_shown) (simp_all add: sample_ok(2))
  have "read_geometry sample_answer ''find it'' ''detection'' 640 480 =
      Inr ([detection_to_json (make_box ''cat'' 10 20 30 40 640 480)], 0, [point_to_json (make_point ''cat'' 5 6 640 480)], 0, 0)"
    by (simp add: read_geometry_def sample_boxes sample_points expected_boxes_def expected_points_def m)
  from demo_run_returns [OF _ _ this] obtain r latency plan where
    r: "demo_run sample_answer ''find it'' ''detection'' = (Inr r, 3)"
    and v: "r = resolve_variant ''detection'' ([detection_to_json (make_box ''cat'' 10 20 30 40 640 480)], 0,
      [point_to_json (make_point ''cat'' 5 6 640 480)], 0, 0) sample_answer latency 640 480 plan"
    by (auto simp: EXPECTED_SHAPE_def)
  have "''detection'' \<in> fst ` set EXPECTED_SHAPE" by (simp add: EXPECTED_SHAPE_def)
  from resolve_variant_cases [OF this v] r show ?thesis by simp
qed

section \<open>Properties\<close>

text \<open>C6.
  The model never sees an untrained input. If a run touches the outside world at all (the clock or the
  model), then the prompt is a non-empty text, the task a canonical wire name, the mode one of the three,
  the JPEG decoded, its size within the patch budget and the position-embedding cap, and the rendered
  text starts with the trained system message and ends with the assistant turn.
\<close>

theorem model_sees_only_checked_inputs:
  assumes "snd (run B cfg wd jpeg prompt mode prompt_task) \<noteq> wd"
  shows "\<exists>p t img text inputs. prompt = JStr p \<and> p \<noteq> [] \<and> prompt_task = JStr t \<and> t \<in> fst ` set EXPECTED_SHAPE \<and>
    mode \<in> JStr ` {''fast'', ''hybrid'', ''slow''} \<and> jpeg \<noteq> [] \<and> decode_image B jpeg = Inr img \<and>
    within_gates (img_width B img) (img_height B img) \<and> 0 < img_width B img \<and> 0 < img_height B img \<and>
    apply_chat_template B img p = Inr text \<and> py_startswith text CANONICAL_RENDERED_PREFIX \<and>
    py_endswith text CANONICAL_RENDERED_SUFFIX \<and> build_inputs B img p text = Inr inputs"
proof (cases "prepare B cfg jpeg prompt mode prompt_task")
  case (Inl e)
  with assms show ?thesis by (simp add: run_def)
next
  case (Inr x)
  obtain p t img plan inputs kw where x: "x = (p, t, img, plan, inputs, kw)" by (cases x) auto
  note pr = prepare_Inr [OF Inr [unfolded x]]
  then obtain tx where tx: "render_prompt B img p = Inr tx" "build_inputs B img p tx = Inr inputs" by blast
  have "mode \<in> JStr ` {''fast'', ''hybrid'', ''slow''}" using pr to_kwargs_Inr by blast
  moreover have "0 < img_width B img \<and> 0 < img_height B img" using pr plan_resize_src by blast
  ultimately show ?thesis using pr tx unfolding render_prompt_Inr
    by (intro exI [of _ p] exI [of _ t] exI [of _ img] exI [of _ tx] exI [of _ inputs]) (simp only: simp_thms)
qed

lemma model_sees_only_checked_inputs_witness:
  "\<exists>p t img text inputs. JStr ''find it'' = JStr p \<and> p \<noteq> [] \<and> JStr ''detection'' = JStr t \<and> t \<in> fst ` set EXPECTED_SHAPE \<and>
    JStr ''hybrid'' \<in> JStr ` {''fast'', ''hybrid'', ''slow''} \<and> demo_jpeg \<noteq> [] \<and>
    decode_image (demo_backend sample_answer) demo_jpeg = Inr img \<and>
    within_gates (img_width (demo_backend sample_answer) img) (img_height (demo_backend sample_answer) img) \<and>
    0 < img_width (demo_backend sample_answer) img \<and> 0 < img_height (demo_backend sample_answer) img \<and>
    apply_chat_template (demo_backend sample_answer) img p = Inr text \<and> py_startswith text CANONICAL_RENDERED_PREFIX \<and>
    py_endswith text CANONICAL_RENDERED_SUFFIX \<and> build_inputs (demo_backend sample_answer) img p text = Inr inputs"
  by (rule model_sees_only_checked_inputs [where cfg = demo_cfg and wd = 0])
     (use demo_detection in \<open>auto simp: demo_run_def\<close>)

text \<open>C4.
  A result accounts for the whole answer: the items it returns plus the items it reports as dropped are
  the four-coordinate blocks, the two-coordinate blocks and the malformed blocks of the verbatim answer.
\<close>

theorem result_accounts_for_answer:
  assumes "run B cfg wd jpeg prompt mode prompt_task = (Inr r, wd')"
  shows "length (ir_boxes r) + length (ir_points r) + deviations_dropped r =
    card (occs 4 (raw_answer r)) + card (occs 2 (raw_answer r)) + count_malformed_geometry (raw_answer r)"
proof -
  from run_parsed [OF assms] obtain t w h ds box_off lbl ps point_off latency plan where
    t: "t \<in> fst ` set EXPECTED_SHAPE" and pb: "parse_boxes (raw_answer r) w h = Inr (ds, box_off)"
    and pp: "parse_points (raw_answer r) w h lbl = Inr (ps, point_off)"
    and r: "r = resolve_variant t (map detection_to_json ds, box_off, map point_to_json ps, point_off,
       count_malformed_geometry (raw_answer r)) (raw_answer r) latency w h plan" by metis
  show ?thesis
    using parse_boxes_accounts [OF pb] parse_points_accounts [OF pp] resolve_variant_cases(2-4) [OF t r] by simp
qed

lemma result_accounts_for_answer_witness:
  "\<exists>r. demo_run sample_answer ''find it'' ''detection'' = (Inr r, 3) \<and>
    length (ir_boxes r) + length (ir_points r) + deviations_dropped r =
    card (occs 4 (raw_answer r)) + card (occs 2 (raw_answer r)) + count_malformed_geometry (raw_answer r)"
proof -
  obtain r where r: "demo_run sample_answer ''find it'' ''detection'' = (Inr r, 3)" using demo_detection by blast
  from result_accounts_for_answer [OF r [unfolded demo_run_def]] r show ?thesis by blast
qed

text \<open>C5.
  A frame is reported as \<open>abstained\<close> exactly when every complete \<open><box>...</box>\<close> block of the answer is the
  literal \<open><box>None</box>\<close>; an answer with any other geometry is a success or a loud \<open>model_deviation\<close>.
\<close>

theorem abstained_iff_only_none_blocks:
  assumes "run B cfg wd jpeg prompt mode prompt_task = (Inr r, wd')"
  shows "ir_kind r = KIND_ABSTAINED \<longleftrightarrow>
    (\<forall>m \<in> set (finditer ANY_BOX_RE (raw_answer r)). m_text m \<in> {''<box>None</box>'', ''<box>none</box>''})"
proof -
  from run_parsed [OF assms] obtain t w h ds box_off lbl ps point_off latency plan where
    t: "t \<in> fst ` set EXPECTED_SHAPE" and pb: "parse_boxes (raw_answer r) w h = Inr (ds, box_off)"
    and pp: "parse_points (raw_answer r) w h lbl = Inr (ps, point_off)"
    and r: "r = resolve_variant t (map detection_to_json ds, box_off, map point_to_json ps, point_off,
       count_malformed_geometry (raw_answer r)) (raw_answer r) latency w h plan" by metis
  have "ds = [] \<and> box_off = 0 \<longleftrightarrow> occs 4 (raw_answer r) = {}"
    using parse_boxes_accounts [OF pb] by (metis add_is_0 card_0_eq finite_occs length_0_conv)
  moreover have "ps = [] \<and> point_off = 0 \<longleftrightarrow> occs 2 (raw_answer r) = {}"
    using parse_points_accounts [OF pp] by (metis add_is_0 card_0_eq finite_occs length_0_conv)
  moreover have "ir_kind r = KIND_ABSTAINED \<longleftrightarrow> ds = [] \<and> box_off = 0 \<and> ps = [] \<and> point_off = 0 \<and>
      count_malformed_geometry (raw_answer r) = 0"
    unfolding resolve_variant_cases(1) [OF t r] by auto
  ultimately show ?thesis
    using no_blocks_iff [of "raw_answer r"] unfolding none_blocks_def by blast
qed

lemma abstained_iff_only_none_blocks_witness:
  "\<exists>r. demo_run sample_answer ''find it'' ''detection'' = (Inr r, 3) \<and> (ir_kind r = KIND_ABSTAINED \<longleftrightarrow>
    (\<forall>m \<in> set (finditer ANY_BOX_RE (raw_answer r)). m_text m \<in> {''<box>None</box>'', ''<box>none</box>''}))"
proof -
  obtain r where r: "demo_run sample_answer ''find it'' ''detection'' = (Inr r, 3)" using demo_detection by blast
  from abstained_iff_only_none_blocks [OF r [unfolded demo_run_def]] r show ?thesis by blast
qed

text \<open>The variant is a faithful sum: boxes are returned exactly by the boxes variant, points exactly by the
  points variant, never both; only a \<open>point\<close> task returns points and it returns no boxes; a deviation
  message comes exactly with the deviation variant, which dropped something; an abstention dropped nothing;
  and the answer is flagged as truncated exactly when it does not end with \<open><|im_end|>\<close>.
\<close>

theorem variant_is_faithful_sum:
  assumes "run B cfg wd jpeg prompt mode prompt_task = (Inr r, wd')"
  shows "(ir_boxes r \<noteq> [] \<longleftrightarrow> ir_kind r = KIND_BOXES) \<and> (ir_points r \<noteq> [] \<longleftrightarrow> ir_kind r = KIND_POINTS) \<and>
    (ir_kind r = KIND_POINTS \<longrightarrow> prompt_task = JStr ''point'') \<and>
    (ir_kind r = KIND_BOXES \<longrightarrow> prompt_task \<noteq> JStr ''point'') \<and>
    (deviation_message r \<noteq> None \<longleftrightarrow> ir_kind r = KIND_DEVIATION) \<and>
    (ir_kind r = KIND_DEVIATION \<longrightarrow> 0 < deviations_dropped r) \<and>
    (ir_kind r = KIND_ABSTAINED \<longrightarrow> deviations_dropped r = 0) \<and>
    (model_output_truncated r \<longleftrightarrow> \<not> py_endswith (raw_answer r) ''<|im_end|>'')"
proof -
  from run_parsed [OF assms] obtain t w h ds box_off lbl ps point_off latency plan where
    task: "prompt_task = JStr t" and t: "t \<in> fst ` set EXPECTED_SHAPE"
    and r: "r = resolve_variant t (map detection_to_json ds, box_off, map point_to_json ps, point_off,
       count_malformed_geometry (raw_answer r)) (raw_answer r) latency w h plan" by metis
  note res = resolve_variant_cases [OF t r]
  show ?thesis using res(1-4,7,8) task by (auto split: if_splits)
qed

lemma variant_is_faithful_sum_witness:
  "\<exists>r. demo_run sample_answer ''find it'' ''detection'' = (Inr r, 3) \<and>
    (ir_boxes r \<noteq> [] \<longleftrightarrow> ir_kind r = KIND_BOXES) \<and> (ir_kind r = KIND_ABSTAINED \<longrightarrow> deviations_dropped r = 0)"
proof -
  obtain r where r: "demo_run sample_answer ''find it'' ''detection'' = (Inr r, 3)" using demo_detection by blast
  from variant_is_faithful_sum [OF r [unfolded demo_run_def]] r show ?thesis by blast
qed

text \<open>C16.
  Every item of a result is the dictionary of a canonical box or point of the answer for the reported
  image size, which is positive and within the gates.
\<close>

theorem result_items_canonical:
  assumes "run B cfg wd jpeg prompt mode prompt_task = (Inr r, wd')"
    and "fst (image_size r) \<le> 2 ^ 53" "snd (image_size r) \<le> 2 ^ 53"
  shows "\<exists>w h. image_size r = (w, h) \<and> 0 < w \<and> 0 < h \<and> within_gates w h \<and>
    (\<forall>j \<in> set (ir_boxes r). \<exists>d. j = detection_to_json d \<and> box_ok (raw_answer r) w h d) \<and>
    (\<exists>lbl. \<forall>j \<in> set (ir_points r). \<exists>p. j = point_to_json p \<and> point_ok (raw_answer r) lbl w h p)"
proof -
  from run_parsed [OF assms(1)] obtain t w h ds box_off lbl ps point_off latency plan where
    t: "t \<in> fst ` set EXPECTED_SHAPE" and wh: "within_gates w h" "0 < w" "0 < h" "image_size r = (w, h)"
    and pb: "parse_boxes (raw_answer r) w h = Inr (ds, box_off)"
    and pp: "parse_points (raw_answer r) w h lbl = Inr (ps, point_off)"
    and r: "r = resolve_variant t (map detection_to_json ds, box_off, map point_to_json ps, point_off,
       count_malformed_geometry (raw_answer r)) (raw_answer r) latency w h plan" by metis
  have b: "\<forall>d \<in> set ds. box_ok (raw_answer r) w h d"
    by (rule parse_boxes_ok [OF pb]) (use wh assms in simp_all)
  have p: "\<forall>q \<in> set ps. point_ok (raw_answer r) lbl w h q"
    by (rule parse_points_ok [OF pp]) (use wh assms in simp_all)
  have "\<exists>d. j = detection_to_json d \<and> box_ok (raw_answer r) w h d" if "j \<in> set (ir_boxes r)" for j
  proof -
    have "j \<in> set (map detection_to_json ds)"
      using that unfolding resolve_variant_cases(2) [OF t r] by (simp split: if_splits)
    with b show ?thesis by auto
  qed
  moreover have "\<exists>q. j = point_to_json q \<and> point_ok (raw_answer r) lbl w h q" if "j \<in> set (ir_points r)" for j
  proof -
    have "j \<in> set (map point_to_json ps)"
      using that unfolding resolve_variant_cases(3) [OF t r] by (simp split: if_splits)
    with p show ?thesis by auto
  qed
  ultimately show ?thesis using wh by blast
qed

lemma result_items_canonical_witness:
  "\<exists>r. demo_run sample_answer ''find it'' ''detection'' = (Inr r, 3) \<and> (\<exists>w h. image_size r = (w, h) \<and>
    (\<forall>j \<in> set (ir_boxes r). \<exists>d. j = detection_to_json d \<and> box_ok (raw_answer r) w h d))"
proof -
  obtain r where r: "demo_run sample_answer ''find it'' ''detection'' = (Inr r, 3)" "image_size r = (640, 480)"
    using demo_detection by blast
  have "fst (image_size r) \<le> 2 ^ 53" "snd (image_size r) \<le> 2 ^ 53" by (simp_all add: r(2))
  from result_items_canonical [OF r(1) [unfolded demo_run_def] this] r(1) show ?thesis by blast
qed

end
