(* ===== verification/Calibration.thy ===== *)
theory Calibration
  imports Inference
begin

text \<open>
  \<^verbatim>\<open>worker/calibration.py\<close>: the boot-time measurement. The file system is two parameters
  (\<open>is_file\<close>, \<open>read_bytes\<close>); every timed run is a \<open>run\<close> of theory Inference between two readings of the clock.
  The lemmas show that the percentile index is in range and that the published statistics are ordered.
\<close>

record calibration_result =
  cr_n_runs :: int
  median_latency_ms :: rat
  p95_latency_ms :: rat
  min_latency_ms :: rat
  max_latency_ms :: rat
  median_fps :: rat
  test_image_path :: string
  test_prompt :: string

definition calibration_to_json :: "calibration_result \<Rightarrow> json" where
  "calibration_to_json c = JObj [(''n_runs'', JInt (cr_n_runs c)),
     (''median_latency_ms'', JFloat (py_round 1 (median_latency_ms c))),
     (''p95_latency_ms'', JFloat (py_round 1 (p95_latency_ms c))),
     (''min_latency_ms'', JFloat (py_round 1 (min_latency_ms c))),
     (''max_latency_ms'', JFloat (py_round 1 (max_latency_ms c))),
     (''median_fps'', JFloat (py_round 3 (median_fps c))),
     (''test_image'', JStr (test_image_path c)), (''test_prompt'', JStr (test_prompt c))]"

text \<open>\<open>statistics.median\<close> of a sorted list of floats.\<close>

definition median :: "rat list \<Rightarrow> rat" where
  "median xs = (let n = length xs in
     if odd n then xs ! (n div 2) else fl (fl (xs ! (n div 2 - 1) + xs ! (n div 2)) / 2))"

definition p95_index :: "nat \<Rightarrow> int" where
  "p95_index n = max 0 (py_trunc (fl (fl (fl (95 / 100) * fl (of_nat n - 1)) + 1 / 2)))"

definition summarize_latencies :: "rat list \<Rightarrow> int \<Rightarrow> string \<Rightarrow> string \<Rightarrow> calibration_result" where
  "summarize_latencies latencies n_runs path prompt =
     (let ls = sort latencies; m = median ls
      in \<lparr>cr_n_runs = n_runs, median_latency_ms = m, p95_latency_ms = ls ! nat (p95_index (length ls)),
          min_latency_ms = ls ! 0, max_latency_ms = last ls,
          median_fps = (if m > 0 then fl (1000 / m) else 0), test_image_path = path, test_prompt = prompt\<rparr>)"

text \<open>The timed runs: an exception of a run ends the calibration.\<close>

fun timed_runs ::
  "('img, 'prof, 'vis, 'inp, 'tok, 'w) backend \<Rightarrow> gen_config \<Rightarrow> byte list \<Rightarrow> string \<Rightarrow> string \<Rightarrow> nat \<Rightarrow> 'w \<Rightarrow>
   rat list res \<times> 'w" where
  "timed_runs B cfg jpeg prompt task 0 wd = (ret [], wd)"
| "timed_runs B cfg jpeg prompt task (Suc n) wd =
     (let (t0, wd1) = perf_counter B wd;
          (r, wd2) = run B cfg wd1 jpeg (JStr prompt) (JStr ''hybrid'') (JStr task)
      in case r of
           Inl e \<Rightarrow> (Inl e, wd2)
         | Inr _ \<Rightarrow>
             let (t1, wd3) = perf_counter B wd2;
                 (rest, wd4) = timed_runs B cfg jpeg prompt task n wd3
             in (bindr rest (\<lambda>ls. ret (fl (fl (t1 - t0) * 1000) # ls)), wd4))"

definition calibrate ::
  "('img, 'prof, 'vis, 'inp, 'tok, 'w) backend \<Rightarrow> gen_config \<Rightarrow> (string \<Rightarrow> bool) \<Rightarrow> (string \<Rightarrow> byte list res) \<Rightarrow> 'w \<Rightarrow>
   string \<Rightarrow> string \<Rightarrow> int \<Rightarrow> calibration_result res \<times> 'w" where
  "calibrate B cfg is_file read_bytes wd path prompt n_runs =
     (case (if \<not> is_file path then raise RuntimeError ''Calibration image not found''
            else bindr (catchr (read_bytes path) [OSError]
                          (\<lambda>e. raise RuntimeError ''Calibration image is unreadable'')) (\<lambda>jpeg.
              if jpeg = [] then raise RuntimeError ''Calibration image is zero bytes''
              else if n_runs < 1 then raise ValueError ''n_runs must be >= 1''
              else bindr (classify_prompt prompt) (\<lambda>task. ret (jpeg, task)))) of
        Inl e \<Rightarrow> (Inl e, wd)
      | Inr (jpeg, task) \<Rightarrow>
          let (warm, wd1) = run B cfg wd jpeg (JStr prompt) (JStr ''hybrid'') (JStr task) in
          (case warm of
             Inl e \<Rightarrow> (Inl e, wd1)
           | Inr warm \<Rightarrow>
               if \<not> (ir_kind warm \<noteq> KIND_ABSTAINED \<or> has_abstention (raw_answer warm))
               then (raise RuntimeError ''calibration warm-up yielded no recognizable output'', wd1)
               else
                 let (ls, wd2) = timed_runs B cfg jpeg prompt task (nat n_runs) wd1
                 in (bindr ls (\<lambda>ls. ret (summarize_latencies ls n_runs path prompt)), wd2)))"

section \<open>Lemmas\<close>

lemma timed_runs_length:
  "timed_runs B cfg jpeg prompt task n wd = (Inr ls, wd') \<Longrightarrow>
   length ls = n \<and> (\<forall>l \<in> set ls. is_float l)"
proof (induction n arbitrary: wd ls wd')
  case 0
  then show ?case by simp
next
  case (Suc n)
  then show ?case by (auto simp: Let_def bindr_eq_Inr split: prod.splits sum.splits)
qed

lemma p95_index_range:
  assumes "0 < n" "n \<le> 2 ^ 50"
  shows "int (n div 2) \<le> p95_index n \<and> p95_index n < int n"
proof -
  define c where "c = fl (95 / 100)"
  define k where "k = (of_nat n - 1 :: rat)"
  have k0: "0 \<le> k" using assms(1) by (simp add: k_def)
  have nat_le: "(of_nat n :: rat) \<le> 2 ^ 50" using assms(2) by (metis of_nat_le_iff of_nat_numeral of_nat_power)
  have k_int: "k = of_int (int n - 1)" using assms(1) by (simp add: k_def)
  have fk: "fl k = k" unfolding k_int by (rule fl_of_int) (use assms in simp)
  have half: "fl (of_int j / 2) = of_int j / 2" if "\<bar>j\<bar> \<le> 2 ^ 53" for j
    using fl_rep [of j "- 1"] that by (simp add: power_int_def field_simps)
  have "fl (1 / 2) = 1 / 2" using half [of 1] by simp
  then have c_lo: "1 / 2 \<le> c" using fl_mono [of "1 / 2" "95 / 100"] by (simp add: c_def)
  have c_hi: "c \<le> 1" using fl_mono [of "95 / 100" 1] fl_of_int [of 1] by (simp add: c_def)
  have "k / 2 \<le> c * k" using mult_right_mono [OF c_lo k0] by simp
  moreover have "fl (k / 2) = k / 2" unfolding k_int by (rule half) (use assms in simp)
  ultimately have lo1: "k / 2 \<le> fl (c * k)" using fl_mono [of "k / 2" "c * k"] by simp
  have "c * k \<le> k" using mult_right_mono [OF c_hi k0] by simp
  then have hi1: "fl (c * k) \<le> k" using fl_mono [of "c * k" k] fk by simp
  have "of_int (int n) / 2 \<le> fl (c * k) + 1 / 2" using lo1 by (simp add: k_def field_simps)
  then have lo2: "of_int (int n) / 2 \<le> fl (fl (c * k) + 1 / 2)"
    using fl_mono [of "of_int (int n) / 2"] half [of "int n"] assms(2) by fastforce
  have "fl (c * k) + 1 / 2 \<le> of_int (2 * int n - 1) / 2" using hi1 by (simp add: k_def field_simps)
  then have hi2: "fl (fl (c * k) + 1 / 2) \<le> of_int (2 * int n - 1) / 2"
    using fl_mono [of "fl (c * k) + 1 / 2"] half [of "2 * int n - 1"] assms(2) by fastforce
  define x where "x = fl (fl (c * k) + 1 / 2)"
  have x0: "0 \<le> x" using lo2 by (simp add: x_def)
  have "of_int (int (n div 2)) \<le> (of_int (int n) / 2 :: rat)"
  proof -
    have "2 * int (n div 2) \<le> int n" by simp
    then have "(of_int (2 * int (n div 2)) :: rat) \<le> of_int (int n)" by (simp only: of_int_le_iff)
    then show ?thesis by simp
  qed
  then have "int (n div 2) \<le> \<lfloor>x\<rfloor>" using lo2 unfolding x_def by (simp add: le_floor_iff)
  moreover have "\<lfloor>x\<rfloor> < int n"
  proof -
    have "x < of_int (int n)" using hi2 unfolding x_def by (simp add: field_simps)
    then show ?thesis by (simp add: floor_less_iff)
  qed
  moreover have "p95_index n = \<lfloor>x\<rfloor>"
    using x0 fk by (simp add: p95_index_def py_trunc_def x_def c_def k_def)
  ultimately show ?thesis by simp
qed

lemma median_between:
  assumes "sorted xs" "xs \<noteq> []" "\<forall>x \<in> set xs. is_float x"
  shows "xs ! 0 \<le> median xs \<and> median xs \<le> xs ! (length xs div 2)"
proof (cases "odd (length xs)")
  case True
  then show ?thesis using assms by (simp add: median_def sorted_nth_mono)
next
  case False
  define n where "n = length xs"
  have "0 < n" "even n" using assms(2) False by (auto simp: n_def)
  then have n: "0 < n" "even n" "2 \<le> n" by (auto elim: evenE)
  define a where "a = xs ! (n div 2 - 1)"
  define b where "b = xs ! (n div 2)"
  have idx: "n div 2 - 1 < n" "n div 2 < n" using n by simp_all
  have ab: "a \<le> b" "xs ! 0 \<le> a"
    using assms(1) idx by (simp_all add: a_def b_def n_def sorted_nth_mono)
  have fa: "is_float a" and fb: "is_float b" using assms(3) idx by (simp_all add: a_def b_def n_def)
  have "2 * a \<le> fl (a + b)" "fl (a + b) \<le> 2 * b"
    using ab fl_ge_float [of "2 * a" "a + b"] fl_le_float [of "a + b" "2 * b"] is_float_double fa fb by simp_all
  then have "a \<le> fl (fl (a + b) / 2)" "fl (fl (a + b) / 2) \<le> b"
    using fl_ge_float [OF _ fa, of "fl (a + b) / 2"] fl_le_float [OF _ fb, of "fl (a + b) / 2"] by simp_all
  then show ?thesis using ab n False by (simp add: median_def a_def b_def n_def Let_def)
qed

lemma summary_ordered:
  assumes "ls \<noteq> []" "length ls \<le> 2 ^ 50" "\<forall>l \<in> set ls. is_float l"
  shows "min_latency_ms (summarize_latencies ls n p q) \<le> median_latency_ms (summarize_latencies ls n p q) \<and>
    median_latency_ms (summarize_latencies ls n p q) \<le> p95_latency_ms (summarize_latencies ls n p q) \<and>
    p95_latency_ms (summarize_latencies ls n p q) \<le> max_latency_ms (summarize_latencies ls n p q)"
proof -
  define xs where "xs = sort ls"
  have len: "length xs = length ls" by (simp add: xs_def)
  have "xs \<noteq> []" using len assms(1) by auto
  then have xs: "sorted xs" "xs \<noteq> []" "\<forall>x \<in> set xs. is_float x" "length xs = length ls"
    using assms len by (simp_all add: xs_def)
  have r: "int (length xs div 2) \<le> p95_index (length xs) \<and> p95_index (length xs) < int (length xs)"
    by (rule p95_index_range) (use xs assms in simp_all)
  then have i: "length xs div 2 \<le> nat (p95_index (length xs))" "nat (p95_index (length xs)) < length xs" by linarith+
  have "xs ! (length xs div 2) \<le> xs ! nat (p95_index (length xs))"
    using xs i by (simp add: sorted_nth_mono)
  moreover have "xs ! nat (p95_index (length xs)) \<le> last xs"
    using xs i by (simp add: last_conv_nth sorted_nth_mono)
  ultimately show ?thesis
    using median_between [OF xs(1-3)] by (simp add: summarize_latencies_def xs_def Let_def)
qed

lemma calibrate_Inr:
  assumes "calibrate B cfg is_file read_bytes wd path prompt n_runs = (Inr c, wd')"
  obtains jpeg task warm wd1 ls wd2 where "is_file path" "read_bytes path = Inr jpeg" "jpeg \<noteq> []" "1 \<le> n_runs"
    "classify_prompt prompt = Inr task"
    "run B cfg wd jpeg (JStr prompt) (JStr ''hybrid'') (JStr task) = (Inr warm, wd1)"
    "ir_kind warm \<noteq> KIND_ABSTAINED \<or> has_abstention (raw_answer warm)"
    "timed_runs B cfg jpeg prompt task (nat n_runs) wd1 = (Inr ls, wd2)"
    "c = summarize_latencies ls n_runs path prompt"
  using assms
  by (auto simp: calibrate_def Let_def bindr_eq_Inr catchr_eq_Inr split: prod.splits sum.splits if_splits)

text \<open>A calibration that returns, for the witnesses.\<close>

lemma demo_run_at:
  assumes "p \<noteq> []" "t \<in> fst ` set EXPECTED_SHAPE" "read_geometry answer p t 640 480 = Inr g"
  obtains latency plan where
    "run (demo_backend answer) demo_cfg wd demo_jpeg (JStr p) (JStr ''hybrid'') (JStr t) =
       (Inr (resolve_variant t g answer latency 640 480 plan), wd + 3)"
proof -
  obtain plan inputs kw where
    "prepare (demo_backend answer) demo_cfg demo_jpeg (JStr p) (JStr ''hybrid'') (JStr t) =
      Inr (p, t, (640, 480), plan, inputs, kw)"
    using demo_prepare [OF assms(1,2)] by blast
  with assms(3) that show thesis
    by (auto simp: run_def answer_text_def demo_backend_def Let_def)
qed

lemma demo_geometry: "t \<noteq> ''point'' \<Longrightarrow>
  read_geometry sample_answer p t 640 480 =
    Inr ([detection_to_json (make_box ''cat'' 10 20 30 40 640 480)], 0, [point_to_json (make_point ''cat'' 5 6 640 480)], 0, 0)"
proof -
  have m: "count_malformed_geometry sample_answer = 0"
    unfolding sample_answer_def by (subst malformed_shown) (simp_all add: sample_ok(2))
  show "t \<noteq> ''point'' \<Longrightarrow> ?thesis"
    by (simp add: read_geometry_def sample_boxes sample_points expected_boxes_def expected_points_def m)
qed

lemma demo_calibrate:
  "\<exists>c wd'. calibrate (demo_backend sample_answer) demo_cfg (\<lambda>_. True) (\<lambda>_. Inr demo_jpeg) 0 ''a.jpg''
      SCENE_TEXT_EXACT 1 = (Inr c, wd')"
proof -
  have p: "SCENE_TEXT_EXACT \<noteq> []" by (simp add: SCENE_TEXT_EXACT_def)
  have t: "''scene_text'' \<in> fst ` set EXPECTED_SHAPE" by (simp add: EXPECTED_SHAPE_def)
  note g = demo_geometry [of "''scene_text''" SCENE_TEXT_EXACT, simplified]
  from demo_run_at [OF p t g, of 0] obtain l0 p0 where
    w: "run (demo_backend sample_answer) demo_cfg 0 demo_jpeg (JStr SCENE_TEXT_EXACT) (JStr ''hybrid'') (JStr ''scene_text'') =
     (Inr (resolve_variant ''scene_text'' ([detection_to_json (make_box ''cat'' 10 20 30 40 640 480)], 0,
        [point_to_json (make_point ''cat'' 5 6 640 480)], 0, 0) sample_answer l0 640 480 p0), 3)"
    unfolding add_0 by blast
  from demo_run_at [OF p t g, of 4] obtain l1 p1 where
    w1: "run (demo_backend sample_answer) demo_cfg 4 demo_jpeg (JStr SCENE_TEXT_EXACT) (JStr ''hybrid'') (JStr ''scene_text'') =
     (Inr (resolve_variant ''scene_text'' ([detection_to_json (make_box ''cat'' 10 20 30 40 640 480)], 0,
        [point_to_json (make_point ''cat'' 5 6 640 480)], 0, 0) sample_answer l1 640 480 p1), 4 + 3)" by blast
  have k: "ir_kind (resolve_variant ''scene_text'' ([detection_to_json (make_box ''cat'' 10 20 30 40 640 480)], 0,
        [point_to_json (make_point ''cat'' 5 6 640 480)], 0, 0) sample_answer l0 640 480 p0) = KIND_BOXES"
    unfolding resolve_variant_cases(1) [OF t refl] by simp
  have j: "demo_jpeg \<noteq> []" by (simp add: demo_jpeg_def)
  have cl: "classify_prompt SCENE_TEXT_EXACT = Inr ''scene_text''" by (simp add: classify_prompt_def)
  have pc: "perf_counter (demo_backend sample_answer) n = (of_nat n, Suc n)" for n by (simp add: demo_backend_def)
  have tr: "timed_runs (demo_backend sample_answer) demo_cfg demo_jpeg SCENE_TEXT_EXACT ''scene_text'' (Suc 0) 3 =
     (Inr [fl (fl (of_nat 7 - of_nat 3) * 1000)], 8)"
    using w1 by (simp add: pc Let_def)
  show ?thesis
    unfolding calibrate_def by (simp add: cl j w k tr catchr_def Let_def del: timed_runs.simps)
qed

section \<open>Properties\<close>

text \<open>C30.
  A published calibration is sound: the image was read and is not empty, the prompt is canonical, the
  warm-up run gave geometry or the abstention literal, and the statistics of the timed runs are
  ordered, minimum, median, 95th percentile, maximum; in particular the percentile index, computed in
  floating point, never leaves the list.
\<close>

theorem calibration_sound:
  assumes "calibrate B cfg is_file read_bytes wd path prompt n_runs = (Inr c, wd')" and "n_runs \<le> 2 ^ 50"
  shows "cr_n_runs c = n_runs \<and> 1 \<le> n_runs \<and>
    min_latency_ms c \<le> median_latency_ms c \<and> median_latency_ms c \<le> p95_latency_ms c \<and>
    p95_latency_ms c \<le> max_latency_ms c \<and>
    (\<exists>jpeg task warm wd1. read_bytes path = Inr jpeg \<and> jpeg \<noteq> [] \<and> classify_prompt prompt = Inr task \<and>
       run B cfg wd jpeg (JStr prompt) (JStr ''hybrid'') (JStr task) = (Inr warm, wd1) \<and>
       (ir_kind warm \<noteq> KIND_ABSTAINED \<or> has_abstention (raw_answer warm)))"
proof -
  from calibrate_Inr [OF assms(1)] obtain jpeg task warm wd1 ls wd2 where
    a: "read_bytes path = Inr jpeg" "jpeg \<noteq> []" "1 \<le> n_runs" "classify_prompt prompt = Inr task"
    "run B cfg wd jpeg (JStr prompt) (JStr ''hybrid'') (JStr task) = (Inr warm, wd1)"
    "ir_kind warm \<noteq> KIND_ABSTAINED \<or> has_abstention (raw_answer warm)"
    and t: "timed_runs B cfg jpeg prompt task (nat n_runs) wd1 = (Inr ls, wd2)"
    and c: "c = summarize_latencies ls n_runs path prompt" by metis
  from timed_runs_length [OF t] have l: "length ls = nat n_runs" "\<forall>l \<in> set ls. is_float l" by blast+
  have "ls \<noteq> []" using l(1) a(3) by auto
  moreover have "length ls \<le> 2 ^ 50" using l(1) assms(2) by simp
  ultimately have "min_latency_ms c \<le> median_latency_ms c \<and> median_latency_ms c \<le> p95_latency_ms c \<and>
    p95_latency_ms c \<le> max_latency_ms c" unfolding c using summary_ordered l(2) by blast
  moreover have "cr_n_runs c = n_runs" by (simp add: c summarize_latencies_def Let_def)
  ultimately show ?thesis using a by blast
qed

lemma calibration_sound_witness:
  "\<exists>c. fst (calibrate (demo_backend sample_answer) demo_cfg (\<lambda>_. True) (\<lambda>_. Inr demo_jpeg) 0 ''a.jpg''
      SCENE_TEXT_EXACT 1) = Inr c \<and> cr_n_runs c = 1 \<and> median_latency_ms c \<le> p95_latency_ms c"
proof -
  obtain c wd' where c: "calibrate (demo_backend sample_answer) demo_cfg (\<lambda>_. True) (\<lambda>_. Inr demo_jpeg) 0 ''a.jpg''
      SCENE_TEXT_EXACT 1 = (Inr c, wd')" using demo_calibrate by blast
  have "(1 :: int) \<le> 2 ^ 50" by simp
  from calibration_sound [OF c this] c show ?thesis by simp
qed

end
