(* ===== verification/Rs_Float.thy ===== *)
theory Rs_Float
  imports Py_Float
begin

text \<open>
  Rust's \<open>f32\<close> (IEEE 754 binary32) and the text \<open>serde_json\<close> prints for one. \<open>fl32 x\<close> is the single-precision number nearest
  to \<open>x\<close>, ties to even, with gradual underflow at \<open>2 powi (-149)\<close>; as in theory Py_Float, overflow is not modelled, since the
  numbers of this program stay far below \<open>2 ^ 128\<close>. A printed number is a decimal, significand and exponent. The printer is a
  library and a parameter: \<open>shortest_at\<close> is what it documents, the fewest digits that read back.

  The lemmas show that a number of hundredths (what \<open>round(v, 2)\<close> gives) survives the narrowing to \<open>f32\<close>, the printing and the
  reading as a binary64 number unchanged.
\<close>

section \<open>Rounding to binary32\<close>

definition fexp32 :: "rat \<Rightarrow> int" where
  "fexp32 x = max (ilog2 \<bar>x\<bar> - 23) (- 149)"

definition fl32 :: "rat \<Rightarrow> rat" where
  "fl32 x = (if x = 0 then 0 else let u = 2 powi fexp32 x in of_int (rne (x / u)) * u)"

section \<open>Decimal text\<close>

type_synonym decimal = "int \<times> int"

definition dec :: "decimal \<Rightarrow> rat" where
  "dec d = of_int (fst d) * 10 powi (snd d)"

text \<open>The printed text of \<open>x\<close> reads back as \<open>x\<close>, and no decimal that reads back has fewer digits.\<close>

definition shortest_at :: "(rat \<Rightarrow> decimal) \<Rightarrow> rat \<Rightarrow> bool" where
  "shortest_at print x \<longleftrightarrow> fl32 (dec (print x)) = x \<and>
     (\<forall>d n. fl32 (dec d) = x \<and> \<bar>fst d\<bar> < 10 ^ n \<longrightarrow> \<bar>fst (print x)\<bar> < 10 ^ n)"

text \<open>What a reader of binary64 numbers gets of a binary64 number that went through an \<open>f32\<close> field.\<close>

definition through_f32 :: "(rat \<Rightarrow> decimal) \<Rightarrow> rat \<Rightarrow> rat" where
  "through_f32 print v = fl (dec (print (fl32 v)))"

section \<open>Lemmas on fl32\<close>

lemma fl32_0 [simp]: "fl32 0 = 0"
  by (simp add: fl32_def)

lemma fl32_error: "\<bar>fl32 x - x\<bar> \<le> \<bar>x\<bar> / 2 ^ 24 + 1 / 2 ^ 100"
proof (cases "x = 0")
  case False
  define u where "u = (2 :: rat) powi fexp32 x"
  have u: "0 < u" by (simp add: u_def)
  have "fl32 x - x = (of_int (rne (x / u)) - x / u) * u"
    using False u by (simp add: fl32_def Let_def left_diff_distrib flip: u_def)
  then have e: "\<bar>fl32 x - x\<bar> \<le> u / 2"
    using rne_error [of "x / u"] u by (simp add: abs_mult)
  have "u \<le> \<bar>x\<bar> / 2 ^ 23 + 2 / 2 ^ 100"
  proof (cases "ilog2 \<bar>x\<bar> - 23 \<le> - 149")
    case True
    then have "u = 2 powi (- 149)" by (simp add: u_def fexp32_def)
    also have "\<dots> \<le> 2 / 2 ^ 100" by (simp add: power_int_def power_divide)
    finally show ?thesis by (simp add: add_increasing)
  next
    case False
    then have "u = 2 powi (ilog2 \<bar>x\<bar> - 23)" by (simp add: u_def fexp32_def)
    also have "\<dots> = 2 powi ilog2 \<bar>x\<bar> / 2 ^ 23" by (simp add: power_int_diff)
    also have "\<dots> \<le> \<bar>x\<bar> / 2 ^ 23"
      using ilog2_bounds(1) [of "\<bar>x\<bar>"] \<open>x \<noteq> 0\<close> by (simp add: divide_right_mono)
    finally show ?thesis by simp
  qed
  with e show ?thesis by (simp add: field_simps)
qed simp

text \<open>On an interval between two powers of two, the upper end included, \<open>fl32\<close> rounds to multiples of one unit.\<close>

lemma fl32_unit:
  assumes "2 powi q \<le> y" "y \<le> 2 powi (q + 1)" "- 126 \<le> q"
  shows "fl32 y = of_int (rne (y / 2 powi (q - 23))) * 2 powi (q - 23)"
proof -
  have y: "0 < y" using assms(1) two_powi_pos(1) [of q] by linarith
  show ?thesis
  proof (cases "y = 2 powi (q + 1)")
    case False
    with assms y have "ilog2 \<bar>y\<bar> = q" by (intro ilog2_unique) auto
    with assms(3) y show ?thesis by (simp add: fl32_def fexp32_def Let_def)
  next
    case True
    have split: "y = of_int (2 ^ nat (q + 1 - e)) * 2 powi e" if "e \<le> q + 1" for e
      using two_powi_split [OF that] True by simp
    have fix_y: "of_int (rne (y / 2 powi e)) * 2 powi e = y" if "e \<le> q + 1" for e
    proof -
      have "y / 2 powi e = of_int (2 ^ nat (q + 1 - e))" using split [OF that] by simp
      with split [OF that] show ?thesis by (simp only: rne_of_int)
    qed
    have "ilog2 \<bar>y\<bar> = q + 1" using True y by (intro ilog2_unique) (auto intro: two_powi_less)
    with assms(3) have "fexp32 y \<le> q + 1" by (simp add: fexp32_def)
    with fix_y [of "fexp32 y"] fix_y [of "q - 23"] y show ?thesis by (simp add: fl32_def Let_def)
  qed
qed

section \<open>Hundredths\<close>

text \<open>Narrowing a hundredth, which \<open>fl\<close> has already rounded once, rounds like narrowing the exact number: the double
  rounding does no harm, since a hundredth is either a binary64 number or far from the middle between two \<open>f32\<close>.\<close>

lemma fl32_fl_hundredths:
  assumes "0 < k" "k < 10 ^ 6"
  shows "fl32 (fl (of_int k / 100)) = fl32 (of_int k / 100)"
proof -
  define d :: rat where "d = of_int k / 100"
  define q where "q = ilog2 d"
  define j where "j = nat (23 - q)"
  have d: "1 / 100 \<le> d" "d < 10 ^ 4" "0 < d" using assms by (auto simp: d_def)
  have b: "2 powi q \<le> d" "d < 2 powi (q + 1)" using ilog2_bounds [OF d(3)] by (simp_all add: q_def)
  have "(2 :: rat) powi (- 7) < 2 powi (q + 1)" "(2 :: rat) powi q < 2 powi 14"
    using b d by (auto simp: power_int_def power_divide)
  then have q: "- 7 \<le> q" "q \<le> 13" using two_powi_less_cancel by fastforce+
  have j: "2 powi (q - 23) = 1 / (2 :: rat) ^ j"
    using q by (simp add: j_def power_int_def power_one_over divide_simps)
  have fl_in: "2 powi q \<le> fl d" "fl d \<le> 2 powi (q + 1)"
    using b q fl_ge_float [of "2 powi q" d] fl_le_float [of d "2 powi (q + 1)"] by (auto simp: is_float_def fl_powi)
  define z where "z = d * 2 ^ j"
  define n where "n = rne z"
  have z: "z = of_int (k * 2 ^ j) / 100" by (simp add: z_def d_def)
  have small: "z < 2 ^ 24" "0 \<le> z"
  proof -
    have "2 powi (q + 1) = 2 powi (q - 23) * (2 :: rat) ^ 24" using power_int_add [of "2 :: rat" "q - 23" 24] by (simp add: add.commute)
    with b(2) have "d < 1 / 2 ^ j * 2 ^ 24" unfolding j by simp
    then show "z < 2 ^ 24" by (simp add: z_def pos_less_divide_eq)
  qed (use d in \<open>simp add: z_def\<close>)
  have near: "\<bar>fl d * 2 ^ j - z\<bar> < 1 / 200"
  proof -
    have "2 powi (- 1022) \<le> \<bar>d\<bar>" using d two_powi_mono [of "- 1022" "- 7"] by (simp add: power_int_def power_divide)
    from fl_error [OF this] have "\<bar>fl d - d\<bar> \<le> d / 2 ^ 53" using d by (simp add: power_int_def power_divide)
    moreover have "\<bar>fl d * 2 ^ j - z\<bar> = \<bar>fl d - d\<bar> * 2 ^ j"
      by (simp add: z_def abs_mult flip: left_diff_distrib)
    ultimately have "\<bar>fl d * 2 ^ j - z\<bar> \<le> d * 2 ^ j / 2 ^ 53" by (simp add: mult_right_mono)
    also have "\<dots> < 1 / 200" using small by (simp add: z_def)
    finally show ?thesis .
  qed
  have "rne (fl d * 2 ^ j) = n"
  proof (cases "\<bar>z - of_int n\<bar> = 1 / 2")
    case True
    then obtain m where m: "z = of_int m / 2"
      by (cases "of_int n \<le> z") (simp_all add: that [of "2 * n + 1"] that [of "2 * n - 1"] field_simps)
    with small have "rat_of_int m < of_int (2 ^ 25)" "rat_of_int 0 \<le> of_int m" by simp_all
    then have "m < 2 ^ 25" "0 \<le> m" by (simp_all only: of_int_less_iff of_int_le_iff)
    then have "\<bar>m\<bar> \<le> 2 ^ 53" by simp
    moreover have "d = of_int m * 2 powi (- int (j + 1))"
      using m by (simp only: z_def power_int_minus power_int_of_nat) (simp add: field_simps)
    ultimately have "fl d = d" using q fl_rep [of m "- int (j + 1)"] by (simp add: j_def)
    then show ?thesis by (simp add: n_def z_def)
  next
    case False
    have "\<bar>z - of_int n\<bar> \<le> 1 / 2" using rne_error [of z] by (simp add: n_def abs_minus_commute)
    with False have "\<bar>of_int (k * 2 ^ j - 100 * n)\<bar> < (50 :: rat)" unfolding z by (simp add: field_simps)
    then have "\<bar>k * 2 ^ j - 100 * n\<bar> \<le> 49" by linarith
    then have "\<bar>of_int (k * 2 ^ j - 100 * n)\<bar> \<le> (49 :: rat)" by linarith
    then have "\<bar>z - of_int n\<bar> \<le> 1 / 2 - 1 / 100" unfolding z by (simp add: abs_le_iff field_simps)
    with near have "\<bar>fl d * 2 ^ j - of_int n\<bar> < 1 / 2" by linarith
    then show ?thesis by (rule rne_near)
  qed
  moreover have "fl32 d = of_int n / 2 ^ j"
    using fl32_unit [of q d] b q j by (simp add: n_def z_def)
  moreover have "fl32 (fl d) = of_int (rne (fl d * 2 ^ j)) / 2 ^ j"
    using fl32_unit [OF fl_in] q j by simp
  ultimately show ?thesis by (simp add: d_def)
qed

text \<open>A decimal that reads back as the same \<open>f32\<close> is close, and with no more digits it is the hundredth itself.\<close>

lemma reads_back_close:
  assumes "fl32 p = fl32 d" "1 / 100 \<le> d"
  shows "\<bar>p - d\<bar> \<le> d / 2 ^ 22"
proof -
  have "\<bar>fl32 d - p\<bar> \<le> \<bar>p\<bar> / 2 ^ 24 + 1 / 2 ^ 100" "\<bar>fl32 d - d\<bar> \<le> d / 2 ^ 24 + 1 / 2 ^ 100"
    using fl32_error [of p] fl32_error [of d] assms by simp_all
  moreover have "\<bar>p\<bar> \<le> d + \<bar>p - d\<bar>" "\<bar>p - d\<bar> \<le> \<bar>fl32 d - p\<bar> + \<bar>fl32 d - d\<bar>" using assms(2) by linarith+
  moreover have "b \<le> d / 2 ^ 22"
    if "x \<le> a / 2 ^ 24 + 1 / 2 ^ 100" "y \<le> d / 2 ^ 24 + 1 / 2 ^ 100" "a \<le> d + b" "b \<le> x + y" for a b x y :: rat
    using that assms(2) by simp
  ultimately show ?thesis by blast
qed

lemma shortest_unique:
  assumes k: "0 < k" "k < 10 ^ 6" and p: "fl32 (dec (k', e)) = fl32 (of_int k / 100)"
    and digits: "\<And>n. k < 10 ^ n \<Longrightarrow> \<bar>k'\<bar> < 10 ^ n"
  shows "dec (k', e) = of_int k / 100"
proof -
  let ?d = "of_int k / 100 :: rat" and ?p = "dec (k', e)"
  have d: "1 / 100 \<le> ?d" "?d < 10 ^ 4" using k by simp_all
  from reads_back_close [OF p d(1)] have close: "\<bar>?p - ?d\<bar> \<le> ?d / 2 ^ 22" .
  show ?thesis
  proof (cases "- 2 \<le> e")
    case True
    then obtain i where "e + 2 = int i" using nonneg_int_cases [of "e + 2"] by fastforce
    then have e: "e = int i - 2" by simp
    have pe: "?p = of_int (k' * 10 ^ i) / 100" by (simp add: e dec_def power_int_diff)
    then have "?p - ?d = of_int (k' * 10 ^ i - k) / 100" by (simp add: diff_divide_distrib)
    with close have "\<bar>rat_of_int (k' * 10 ^ i - k)\<bar> / 100 \<le> ?d / 2 ^ 22" by (simp only: abs_divide)
    then have "\<bar>rat_of_int (k' * 10 ^ i - k)\<bar> < 1" using d(2) by simp
    then have "k' * 10 ^ i = k" by linarith
    with pe show ?thesis by simp
  next
    case False
    define n where "n = (LEAST n. k < 10 ^ n)"
    have n: "k < 10 ^ n" "n \<le> 6" unfolding n_def using k(2) by (rule LeastI, rule Least_le)
    have "n \<noteq> 0" using n(1) k(1) by (cases n) simp_all
    then have "\<not> k < 10 ^ (n - 1)" unfolding n_def by (intro not_less_Least) simp
    then have low: "10 ^ n \<le> 10 * k" using \<open>n \<noteq> 0\<close> by (cases n) simp_all
    have "(10 :: rat) powi e \<le> 10 powi (- 3)" using False by (intro power_int_increasing) simp_all
    then have ten: "(10 :: rat) powi e \<le> 1 / 1000" "0 < (10 :: rat) powi e" by (simp_all add: power_int_def power_divide)
    have "?d - ?d / 2 ^ 22 \<le> ?p" using close by linarith
    moreover have "0 < ?d - ?d / 2 ^ 22" using k(1) by simp
    ultimately have "0 < ?p" by linarith
    then have "0 < k'" using ten(2) by (simp add: dec_def zero_less_mult_iff)
    then have "?p \<le> of_int k' / 1000" using ten(1) mult_left_mono [OF ten(1), of "of_int k'"] by (simp add: dec_def)
    then have "rat_of_int (10 * k) * (1 - 1 / 2 ^ 22) \<le> of_int k'"
      using \<open>?d - ?d / 2 ^ 22 \<le> ?p\<close> by simp
    moreover have "rat_of_int (10 ^ n) \<le> of_int (10 * k)" using low by (simp only: of_int_le_iff)
    moreover have "(10 :: rat) ^ n \<le> 10 ^ 6" using n(2) by (intro power_increasing) simp_all
    ultimately have "rat_of_int (10 ^ n) - 1 < of_int k'" by simp
    then have "10 ^ n \<le> k'" by linarith
    with digits [OF n(1)] show ?thesis by simp
  qed
qed

definition shortest_hundredths :: "(rat \<Rightarrow> decimal) \<Rightarrow> bool" where
  "shortest_hundredths print \<longleftrightarrow> (\<forall>k. 0 \<le> k \<and> k < 10 ^ 6 \<longrightarrow> shortest_at print (fl32 (fl (of_int k / 100))))"

lemma through_f32_hundredths:
  assumes "shortest_hundredths print" "0 \<le> k" "k < 10 ^ 6"
  shows "through_f32 print (fl (of_int k / 100)) = fl (of_int k / 100)"
proof (cases "k = 0")
  case True
  with assms have "\<bar>fst (print 0)\<bar> < 10 ^ 0" 
    unfolding shortest_hundredths_def shortest_at_def by (auto simp: dec_def dest!: spec [of _ 0] spec [of _ "(0, 0)"])
  with True show ?thesis by (simp add: through_f32_def dec_def)
next
  case False
  with assms(2,3) have k: "0 < k" "k < 10 ^ 6" by simp_all
  obtain k' e where pr: "print (fl32 (of_int k / 100)) = (k', e)" by fastforce
  have hundredth: "dec (k, - 2) = of_int k / 100" by (simp add: dec_def power_int_def power2_eq_square)
  from assms have s: "shortest_at print (fl32 (of_int k / 100))"
    using fl32_fl_hundredths [OF k] by (auto simp: shortest_hundredths_def)
  then have "fl32 (dec (k', e)) = fl32 (of_int k / 100)" by (simp add: shortest_at_def pr)
  moreover have "\<bar>k'\<bar> < 10 ^ n" if "k < 10 ^ n" for n
    using s that k(1) unfolding shortest_at_def pr
    by (elim conjE allE [of _ "(k, - 2)"] allE [of _ n]) (simp only: hundredth abs_of_pos simp_thms fst_conv)
  ultimately have "dec (k', e) = of_int k / 100" using shortest_unique [OF k] by blast
  then show ?thesis by (simp only: through_f32_def fl32_fl_hundredths [OF k] pr)
qed

text \<open>A printer for hundredths that is shortest there: the digits of the hundredth without their trailing zeros.\<close>

function strip_zeros :: "int \<Rightarrow> int \<Rightarrow> decimal" where
  "strip_zeros k e = (if k \<noteq> 0 \<and> k mod 10 = 0 then strip_zeros (k div 10) (e + 1) else (k, e))"
  by pat_completeness auto
termination by (relation "measure (\<lambda>(k, e). nat \<bar>k\<bar>)") auto

declare strip_zeros.simps [simp del]

lemma strip_zeros:
  assumes "0 \<le> k" "strip_zeros k e = (k', e')"
  shows "dec (k', e') = dec (k, e) \<and> 0 \<le> k' \<and> k' \<le> k \<and> (k' \<noteq> 0 \<longrightarrow> k' mod 10 \<noteq> 0)"
  using assms
proof (induction k e rule: strip_zeros.induct)
  case (1 k e)
  show ?case
  proof (cases "k \<noteq> 0 \<and> k mod 10 = 0")
    case True
    then obtain i where "k = 10 * i" by auto
    then have "dec (k div 10, e + 1) = dec (k, e)" by (simp add: dec_def power_int_add)
    with 1 True show ?thesis by (subst (asm) (2) strip_zeros.simps) (auto intro: order_trans)
  next
    case False
    with 1(2,3) show ?thesis by (subst (asm) strip_zeros.simps) auto
  qed
qed

lemma fewest_digits:
  assumes "dec (m, i) = dec (k', e)" "0 \<le> k'" "k' \<noteq> 0 \<longrightarrow> k' mod 10 \<noteq> 0"
  shows "k' \<le> m"
proof (cases "i \<le> e")
  case True
  have "(10 :: rat) powi e = 10 ^ nat (e - i) * 10 powi i"
    using True power_int_add [of "10 :: rat" "e - i" i] by (simp add: power_int_def)
  with assms(1) have "rat_of_int m = of_int (k' * 10 ^ nat (e - i))" by (simp add: dec_def)
  then have "m = k' * 10 ^ nat (e - i)" by (simp only: of_int_eq_iff)
  with assms(2) mult_left_mono [of 1 "10 ^ nat (e - i)" k'] show ?thesis by simp
next
  case False
  have "(10 :: rat) powi i = 10 ^ nat (i - e) * 10 powi e"
    using False power_int_add [of "10 :: rat" "i - e" e] by (simp add: power_int_def)
  with assms(1) have "rat_of_int k' = of_int (m * 10 ^ nat (i - e))" by (simp add: dec_def)
  then have "k' = m * 10 ^ nat (i - e)" by (simp only: of_int_eq_iff)
  moreover have "(10 :: int) ^ nat (i - e) mod 10 = 0" using False by (cases "nat (i - e)") simp_all
  ultimately have "k' mod 10 = 0" by (metis mod_mult_right_eq mult_zero_right mod_0)
  with assms(3) have "k' = 0" by blast
  with \<open>k' = m * 10 ^ nat (i - e)\<close> show ?thesis by simp
qed

definition hundredths_text :: "rat \<Rightarrow> decimal" where
  "hundredths_text x = strip_zeros (rne (100 * x)) (- 2)"

lemma hundredths_text_shortest: "shortest_hundredths hundredths_text"
  unfolding shortest_hundredths_def
proof (intro allI impI, elim conjE)
  fix k :: int
  assume k: "0 \<le> k" "k < 10 ^ 6"
  have x: "fl32 (fl (of_int k / 100)) = fl32 (of_int k / 100)" using k fl32_fl_hundredths [of k] by (cases "k = 0") simp_all
  have "rne (100 * fl32 (of_int k / 100)) = k"
  proof (rule rne_near)
    have "rat_of_int k < of_int (10 ^ 6)" using k(2) by (simp only: of_int_less_iff)
    with fl32_error [of "of_int k / 100"] k(1)
    have "\<bar>fl32 (of_int k / 100) - of_int k / 100\<bar> < 1 / 200" by simp
    then show "\<bar>100 * fl32 (of_int k / 100) - of_int k\<bar> < 1 / 2" by linarith
  qed
  then obtain k' e where pr: "hundredths_text (fl32 (of_int k / 100)) = (k', e)" "strip_zeros k (- 2) = (k', e)"
    by (cases "strip_zeros k (- 2)") (simp add: hundredths_text_def)
  from strip_zeros [OF k(1) pr(2)] have t: "dec (k', e) = of_int k / 100" "0 \<le> k'" "k' \<le> k" "k' \<noteq> 0 \<longrightarrow> k' mod 10 \<noteq> 0"
    by (simp_all add: dec_def power_int_def power2_eq_square)
  have "k' < 10 ^ n" if r: "fl32 (dec d) = fl32 (of_int k / 100)" "\<bar>fst d\<bar> < 10 ^ n" for d n
  proof (cases "k < 10 ^ n")
    case False
    obtain m i where d: "d = (m, i)" by fastforce
    have pos: "0 < k" using False by (cases "k = 0") (use k(1) in simp_all)
    have "\<bar>m\<bar> < 10 ^ n'" if "k < 10 ^ n'" for n'
      using that False r(2) d by simp
    with shortest_unique [OF pos k(2), of m i] r(1) d have eq: "dec (m, i) = dec (k', e)" using t(1) by simp
    have "k' \<le> m" by (rule fewest_digits [OF eq t(2,4)])
    with r(2) d show ?thesis by simp
  qed (use t in simp)
  then show "shortest_at hundredths_text (fl32 (fl (of_int k / 100)))"
    unfolding shortest_at_def x pr(1) fst_conv t(1) abs_of_nonneg [OF t(2)] by blast
qed

end
