(* ===== verification/Egress.thy ===== *)
theory Egress
  imports Inference Rs_Float
begin

text \<open>
  The contract of the worker's reply with its consumer: the structs of \<^verbatim>\<open>rust_server/src/protocol.rs\<close> as
  \<open>serde\<close> reads them (every field present, no unknown field, every number in the range of its type), and
  the acceptance test of \<open>IpcClient::infer\<close> in \<^verbatim>\<open>rust_server/src/ipc.rs\<close>, which strips the \<open>ok\<close> discriminator
  and requires it to agree with the tag. \<open>serialize_response\<close> of \<^verbatim>\<open>ws.rs\<close> prints the typed value. The lemmas show that the
  dictionaries the parser and the resize plan give are values of these structs, that printing keeps the schema, and that
  pixel coordinates go through the \<open>f32\<close> fields unchanged.
\<close>

section \<open>Numbers and fields\<close>

fun json_u :: "int \<Rightarrow> json \<Rightarrow> bool" where
  "json_u bound (JInt i) = (0 \<le> i \<and> i < bound)"
| "json_u bound _ = False"

definition u16 :: "json \<Rightarrow> bool" where "u16 = json_u 65536"
definition u32 :: "json \<Rightarrow> bool" where "u32 = json_u 4294967296"

fun json_number :: "json \<Rightarrow> bool" where
  "json_number (JInt i) = True"
| "json_number (JFloat x) = True"
| "json_number _ = False"

fun json_bool :: "json \<Rightarrow> bool" where
  "json_bool (JBool b) = True"
| "json_bool _ = False"

fun json_array :: "nat \<Rightarrow> (json \<Rightarrow> bool) \<Rightarrow> json \<Rightarrow> bool" where
  "json_array n P (JList vs) = (length vs = n \<and> list_all P vs)"
| "json_array n P _ = False"

fun json_vec :: "(json \<Rightarrow> bool) \<Rightarrow> json \<Rightarrow> bool" where
  "json_vec P (JList vs) = list_all P vs"
| "json_vec P _ = False"

text \<open>A struct with \<open>deny_unknown_fields\<close>: exactly the fields of the list, each once, each of its type.\<close>

fun has_fields :: "(string \<times> (json \<Rightarrow> bool)) list \<Rightarrow> json \<Rightarrow> bool" where
  "has_fields spec (JObj kvs) =
     (distinct (map fst kvs) \<and> list_all (\<lambda>(k, v). k \<in> fst ` set spec) kvs \<and>
      list_all (\<lambda>(k, P). case map_of kvs k of None \<Rightarrow> False | Some v \<Rightarrow> P v) spec)"
| "has_fields spec _ = False"

section \<open>The structs of protocol.rs\<close>

definition LabeledBox :: "json \<Rightarrow> bool" where
  "LabeledBox = has_fields [(''label'', is_str), (''bbox_norm'', json_array 4 u16), (''bbox_px'', json_array 4 json_number)]"

definition LabeledPoint :: "json \<Rightarrow> bool" where
  "LabeledPoint = has_fields [(''label'', is_str), (''point_norm'', json_array 2 u16), (''point_px'', json_array 2 json_number)]"

definition ResizePlan :: "json \<Rightarrow> bool" where
  "ResizePlan = has_fields [(''dst_w'', u32), (''dst_h'', u32), (''n_llm_tokens'', u32), (''scale'', json_number)]"

definition GenerationMode :: "json \<Rightarrow> bool" where
  "GenerationMode j \<longleftrightarrow> j \<in> JStr ` {''fast'', ''hybrid'', ''slow''}"

definition ErrorCode :: "json \<Rightarrow> bool" where
  "ErrorCode j \<longleftrightarrow> j \<in> JStr ` {''invalid_request'', ''invalid_image'', ''model_deviation'', ''internal''}"

definition Meta :: "(string \<times> (json \<Rightarrow> bool)) list" where
  "Meta = [(''raw_text'', is_str), (''model_output_truncated'', json_bool), (''deviations_dropped'', u32),
     (''image_size'', json_array 2 u32), (''resize_plan'', ResizePlan), (''generation_mode_used'', GenerationMode),
     (''latency_ms'', json_number), (''total_ms'', json_number)]"

definition BoxesBody :: "(string \<times> (json \<Rightarrow> bool)) list" where
  "BoxesBody = (''frame_id'', is_str) # (''boxes'', json_vec LabeledBox) # Meta"

definition PointsBody :: "(string \<times> (json \<Rightarrow> bool)) list" where
  "PointsBody = (''frame_id'', is_str) # (''points'', json_vec LabeledPoint) # Meta"

definition AbstainedBody :: "(string \<times> (json \<Rightarrow> bool)) list" where
  "AbstainedBody = (''frame_id'', is_str) # Meta"

definition ErrorBody :: "(string \<times> (json \<Rightarrow> bool)) list" where
  "ErrorBody = [(''frame_id'', is_str), (''code'', ErrorCode), (''message'', is_str)]"

text \<open>The internally tagged enum \<open>Response\<close>.\<close>

definition Response_variants :: "(string \<times> (string \<times> (json \<Rightarrow> bool)) list) list" where
  "Response_variants = [(''boxes'', BoxesBody), (''points'', PointsBody), (''abstained'', AbstainedBody), (''error'', ErrorBody)]"

fun without :: "string \<Rightarrow> json \<Rightarrow> json" where
  "without k (JObj kvs) = JObj (filter (\<lambda>(k', v). k' \<noteq> k) kvs)"
| "without k j = j"

definition is_Response :: "json \<Rightarrow> bool" where
  "is_Response j = (case jget j ''type'' of
     Some (JStr t) \<Rightarrow> (case map_of Response_variants t of
        None \<Rightarrow> False | Some body \<Rightarrow> has_fields body (without ''type'' j))
   | _ \<Rightarrow> False)"

definition infer_accepts :: "json \<Rightarrow> bool" where
  "infer_accepts v = (case jget v ''ok'' of
     Some (JBool ok) \<Rightarrow>
       let response = without ''ok'' v
       in is_Response response \<and> ok \<noteq> (jget response ''type'' = Some (JStr ''error''))
   | _ \<Rightarrow> False)"

section \<open>Serialization\<close>

text \<open>\<open>serialize_response\<close> prints the typed value: the tag first, then the fields in the order of the structs. Integers and \<open>f64\<close>
  numbers are printed as they are read; an \<open>f32\<close> field narrows its number, and the client reads what the shortest decimal of
  the narrow number says. The printer of \<open>serde_json\<close> is the parameter \<open>print\<close>.\<close>

fun as_f64 :: "json \<Rightarrow> json" where
  "as_f64 (JInt i) = JFloat (fl (of_int i))"
| "as_f64 v = v"

fun as_f32 :: "(rat \<Rightarrow> decimal) \<Rightarrow> json \<Rightarrow> json" where
  "as_f32 print (JInt i) = JFloat (through_f32 print (of_int i))"
| "as_f32 print (JFloat x) = JFloat (through_f32 print x)"
| "as_f32 print v = v"

fun json_map :: "(json \<Rightarrow> json) \<Rightarrow> json \<Rightarrow> json" where
  "json_map f (JList vs) = JList (map f vs)"
| "json_map f v = v"

fun struct_of :: "(string \<times> (json \<Rightarrow> json)) list \<Rightarrow> json \<Rightarrow> (string \<times> json) list" where
  "struct_of [] j = []"
| "struct_of ((k, f) # out) j = (case jget j k of None \<Rightarrow> struct_of out j | Some v \<Rightarrow> (k, f v) # struct_of out j)"

definition LabeledBox_out :: "(rat \<Rightarrow> decimal) \<Rightarrow> json \<Rightarrow> json" where
  "LabeledBox_out print j = JObj (struct_of [(''label'', id), (''bbox_norm'', id), (''bbox_px'', json_map (as_f32 print))] j)"

definition LabeledPoint_out :: "(rat \<Rightarrow> decimal) \<Rightarrow> json \<Rightarrow> json" where
  "LabeledPoint_out print j = JObj (struct_of [(''label'', id), (''point_norm'', id), (''point_px'', json_map (as_f32 print))] j)"

definition ResizePlan_out :: "json \<Rightarrow> json" where
  "ResizePlan_out j = JObj (struct_of [(''dst_w'', id), (''dst_h'', id), (''n_llm_tokens'', id), (''scale'', as_f64)] j)"

definition Meta_out :: "(string \<times> (json \<Rightarrow> json)) list" where
  "Meta_out = [(''raw_text'', id), (''model_output_truncated'', id), (''deviations_dropped'', id), (''image_size'', id),
     (''resize_plan'', ResizePlan_out), (''generation_mode_used'', id), (''latency_ms'', as_f64), (''total_ms'', as_f64)]"

definition Response_out :: "(rat \<Rightarrow> decimal) \<Rightarrow> (string \<times> (string \<times> (json \<Rightarrow> json)) list) list" where
  "Response_out print =
     [(''boxes'', (''frame_id'', id) # (''boxes'', json_map (LabeledBox_out print)) # Meta_out),
      (''points'', (''frame_id'', id) # (''points'', json_map (LabeledPoint_out print)) # Meta_out),
      (''abstained'', (''frame_id'', id) # Meta_out),
      (''error'', [(''frame_id'', id), (''code'', id), (''message'', id)])]"

definition serialize_response :: "(rat \<Rightarrow> decimal) \<Rightarrow> json \<Rightarrow> json" where
  "serialize_response print r = (case jget r ''type'' of
     Some (JStr t) \<Rightarrow> (case map_of (Response_out print) t of
        Some out \<Rightarrow> JObj ((''type'', JStr t) # struct_of out r) | None \<Rightarrow> r)
   | _ \<Rightarrow> r)"

section \<open>Lemmas\<close>

lemma u16_JInt [simp]: "u16 (JInt i) \<longleftrightarrow> 0 \<le> i \<and> i < 65536"
  by (simp add: u16_def)

lemma u32_JInt [simp]: "u32 (JInt i) \<longleftrightarrow> 0 \<le> i \<and> i < 4294967296"
  by (simp add: u32_def)

lemma infer_accepts_Response: "infer_accepts v \<Longrightarrow> is_Response (without ''ok'' v)"
  by (auto simp: infer_accepts_def Let_def split: option.splits json.splits)

lemma LabeledBox_detection:
  assumes "box_ok s W H d"
  shows "LabeledBox (detection_to_json d)"
proof -
  from assms obtain x1 y1 x2 y2 where
    "bbox_norm d = [x1, y1, x2, y2]" "0 \<le> x1" "x1 \<le> x2" "x2 \<le> 1000" "0 \<le> y1" "y1 \<le> y2" "y2 \<le> 1000"
    "bbox_px d = [scale_px x1 W, scale_px y1 H, scale_px x2 W, scale_px y2 H]"
    unfolding box_ok_def by blast
  then show ?thesis by (simp add: LabeledBox_def detection_to_json_def)
qed

lemma LabeledPoint_point:
  assumes "point_ok s l W H p"
  shows "LabeledPoint (point_to_json p)"
proof -
  from assms obtain x y where
    "point_norm p = [x, y]" "0 \<le> x" "x \<le> 1000" "0 \<le> y" "y \<le> 1000" "point_px p = [scale_px x W, scale_px y H]"
    unfolding point_ok_def by blast
  then show ?thesis by (simp add: LabeledPoint_def point_to_json_def)
qed

lemma within_gates_small:
  assumes "within_gates w h" "0 < w" "0 < h"
  shows "w < 7168 \<and> h < 7168"
  using assms by (auto simp: within_gates_def ceil_grid_def pixel_consts)

lemma ResizePlan_plan:
  assumes "0 < w" "0 < h" "within_gates w h" "plan_resize w h = Inr plan"
  shows "ResizePlan (resize_plan_json plan)"
proof -
  have small: "w < 7168" "h < 7168" using within_gates_small assms(1-3) by blast+
  have g: "0 \<le> ceil_grid w" "ceil_grid w < 7196" "0 \<le> ceil_grid h" "ceil_grid h < 7196"
    using ceil_grid_bounds [of w] ceil_grid_bounds [of h] assms(1,2) small by linarith+
  have t: "0 \<le> ceil_grid w div 28" "ceil_grid w div 28 \<le> 257" "0 \<le> ceil_grid h div 28" "ceil_grid h div 28 \<le> 257"
    using g by auto
  have "ceil_grid w div 28 * (ceil_grid h div 28) \<le> 257 * 257" using t by (intro mult_mono) simp_all
  moreover have "0 \<le> ceil_grid w div 28 * (ceil_grid h div 28)" using t by simp
  ultimately show ?thesis
    using g plan_resize_eq [OF assms(1-3)] assms(4) by (auto simp: ResizePlan_def resize_plan_json_def)
qed

context coord_pattern
begin

lemma card_occs_le: "card (occs n s) \<le> length s"
  unfolding length_finditer [symmetric] finditer_def by (rule finditer_length [OF positive])

end

text \<open>An answer has at most as many blocks of each kind as it has characters.\<close>

lemma dropped_bound:
  assumes "run B cfg wd jpeg prompt mode prompt_task = (Inr r, wd')"
  shows "deviations_dropped r \<le> 3 * length (raw_answer r)"
proof -
  let ?s = "raw_answer r"
  from run_parsed [OF assms] obtain t w h ds box_off lbl ps point_off latency plan where
    t: "t \<in> fst ` set EXPECTED_SHAPE" and pb: "parse_boxes ?s w h = Inr (ds, box_off)"
    and pp: "parse_points ?s w h lbl = Inr (ps, point_off)"
    and r: "r = resolve_variant t (map detection_to_json ds, box_off, map point_to_json ps, point_off,
       count_malformed_geometry ?s) ?s latency w h plan" by metis
  have "deviations_dropped r \<le> length ds + box_off + (length ps + point_off) + count_malformed_geometry ?s"
    using resolve_variant_cases(4) [OF t r] by simp
  also have "\<dots> = card (occs 4 ?s) + card (occs 2 ?s) + count_malformed_geometry ?s"
    using parse_boxes_accounts [OF pb] parse_points_accounts [OF pp] by simp
  also have "card (occs 4 ?s) \<le> length ?s"
    by (rule box.card_occs_le)
  also have "card (occs 2 ?s) \<le> length ?s"
    by (rule point.card_occs_le)
  also have "count_malformed_geometry ?s \<le> length ?s"
    unfolding count_malformed_geometry_def finditer_def
    by (rule order_trans [OF length_filter_le finditer_length [OF ANY_min_len]])
  finally show ?thesis by simp
qed

section \<open>Lemmas on serialization\<close>

lemma jget_without: "k \<noteq> k' \<Longrightarrow> jget (without k j) k' = jget j k'"
proof (cases j)
  case (JObj kvs)
  assume "k \<noteq> k'"
  then have "map_of (filter (\<lambda>(k'', v). k'' \<noteq> k) kvs) k' = map_of kvs k'" by (induction kvs) auto
  with JObj show ?thesis by simp
qed simp_all

lemma struct_of_keys: "set (map fst (struct_of out j)) \<subseteq> set (map fst out)"
  by (induction out j rule: struct_of.induct) (auto split: option.splits)

lemma distinct_struct_of: "distinct (map fst out) \<Longrightarrow> distinct (map fst (struct_of out j))"
proof (induction out j rule: struct_of.induct)
  case (2 k f out j)
  with struct_of_keys [of out j] show ?case by (auto split: option.split)
qed simp

lemma map_of_struct_of:
  "distinct (map fst out) \<Longrightarrow>
   map_of (struct_of out j) k = (case map_of out k of None \<Rightarrow> None | Some f \<Rightarrow> map_option f (jget j k))"
proof (induction out j rule: struct_of.induct)
  case (2 k' f out j)
  then have "map_of out k' = None" by (simp add: map_of_eq_None_iff)
  with 2 show ?case by (auto split: option.split)
qed simp

lemma struct_of_without: "k \<notin> set (map fst out) \<Longrightarrow> struct_of out (without k j) = struct_of out j"
  by (induction out j rule: struct_of.induct) (auto simp: jget_without split: option.split)

text \<open>A serializer keeps the schema, when each field's does.\<close>

definition keeps :: "(string \<times> (json \<Rightarrow> bool)) list \<Rightarrow> (string \<times> (json \<Rightarrow> json)) list \<Rightarrow> bool" where
  "keeps spec out \<longleftrightarrow> distinct (map fst spec) \<and> list_all2 (\<lambda>(k, P) (k', f). k' = k \<and> (\<forall>v. P v \<longrightarrow> P (f v))) spec out"

lemma keeps_keys: "keeps spec out \<Longrightarrow> map fst out = map fst spec"
  unfolding keeps_def by (auto simp: list_all2_conv_all_nth intro!: nth_equalityI)

lemma has_fields_struct_of:
  assumes "keeps spec out" "has_fields spec j"
  shows "has_fields spec (JObj (struct_of out j))"
proof -
  have d: "distinct (map fst out)" using assms(1) keeps_keys [OF assms(1)] unfolding keeps_def by simp
  have field: "\<exists>v. map_of (struct_of out j) k = Some v \<and> P v" if kP: "(k, P) \<in> set spec" for k P
  proof -
    from kP assms(1) obtain f where f: "(k, f) \<in> set out" "\<forall>v. P v \<longrightarrow> P (f v)"
      unfolding keeps_def list_all2_conv_all_nth in_set_conv_nth by fastforce
    from assms(2) kP obtain v where "jget j k = Some v" "P v" by (cases j) (auto simp: list_all_iff split: option.splits)
    with f d show ?thesis by (simp add: map_of_struct_of map_of_is_SomeI)
  qed
  have "fst ` set (struct_of out j) \<subseteq> fst ` set spec"
    using struct_of_keys [of out j] keeps_keys [OF assms(1)] by (metis list.set_map)
  then have "list_all (\<lambda>(k, v). k \<in> fst ` set spec) (struct_of out j)" by (force simp: list_all_iff)
  moreover have "list_all (\<lambda>(k, P). case map_of (struct_of out j) k of None \<Rightarrow> False | Some v \<Rightarrow> P v) spec"
    unfolding list_all_iff using field by fastforce
  ultimately show ?thesis using distinct_struct_of [OF d] by simp
qed

lemma json_map_vec: "json_vec P v \<Longrightarrow> (\<And>x. P x \<Longrightarrow> P (f x)) \<Longrightarrow> json_vec P (json_map f v)"
  by (cases v) (auto simp: list_all_iff)

lemma json_map_array: "json_array n P v \<Longrightarrow> (\<And>x. P x \<Longrightarrow> P (f x)) \<Longrightarrow> json_array n P (json_map f v)"
  by (cases v) (auto simp: list_all_iff)

lemma number_out: "json_number v \<Longrightarrow> json_number (as_f64 v)" "json_number v \<Longrightarrow> json_number (as_f32 print v)"
  by (cases v; simp)+

lemma LabeledBox_kept: "LabeledBox j \<Longrightarrow> LabeledBox (LabeledBox_out print j)"
  unfolding LabeledBox_def LabeledBox_out_def
  by (rule has_fields_struct_of) (auto simp: keeps_def intro: json_map_array number_out)

lemma LabeledPoint_kept: "LabeledPoint j \<Longrightarrow> LabeledPoint (LabeledPoint_out print j)"
  unfolding LabeledPoint_def LabeledPoint_out_def
  by (rule has_fields_struct_of) (auto simp: keeps_def intro: json_map_array number_out)

lemma ResizePlan_kept: "ResizePlan j \<Longrightarrow> ResizePlan (ResizePlan_out j)"
  unfolding ResizePlan_def ResizePlan_out_def
  by (rule has_fields_struct_of) (auto simp: keeps_def intro: number_out)

lemma bodies_kept:
  assumes "map_of Response_variants t = Some body"
  shows "\<exists>out. map_of (Response_out print) t = Some out \<and> keeps body out \<and> ''type'' \<notin> set (map fst out)"
  using assms
  by (auto simp: Response_variants_def Response_out_def BoxesBody_def PointsBody_def AbstainedBody_def ErrorBody_def Meta_def
      Meta_out_def keeps_def split: if_splits intro: json_map_vec LabeledBox_kept LabeledPoint_kept ResizePlan_kept number_out)

lemma serialize_response:
  assumes "is_Response r"
  shows "is_Response (serialize_response print r) \<and> jget (serialize_response print r) ''type'' = jget r ''type'' \<and>
    jget (serialize_response print r) ''frame_id'' = jget r ''frame_id''"
proof -
  from assms obtain t body where t: "jget r ''type'' = Some (JStr t)" "map_of Response_variants t = Some body"
    "has_fields body (without ''type'' r)" by (auto simp: is_Response_def split: option.splits json.splits)
  from bodies_kept [OF t(2)] obtain out where out: "map_of (Response_out print) t = Some out" "keeps body out"
    "''type'' \<notin> set (map fst out)" by blast
  have s: "serialize_response print r = JObj ((''type'', JStr t) # struct_of out r)"
    using t(1) out(1) by (simp add: serialize_response_def)
  have "without ''type'' (serialize_response print r) = JObj (struct_of out r)"
    using struct_of_keys [of out r] out(3) unfolding s by (force simp: filter_id_conv)
  moreover have "has_fields body (JObj (struct_of out r))"
    using has_fields_struct_of [OF out(2) t(3)] struct_of_without [OF out(3)] by simp
  ultimately have "is_Response (serialize_response print r)" using t(2) by (simp add: is_Response_def s)
  moreover have "map_of out ''frame_id'' = Some id" using out(1) by (auto simp: Response_out_def split: if_splits)
  moreover have "distinct (map fst out)" using out(2) keeps_keys [OF out(2)] by (simp add: keeps_def)
  ultimately show ?thesis using t(1) by (simp add: s map_of_struct_of option.map_id)
qed

text \<open>A value all of whose fields are left alone is printed as it is, up to the order of the members.\<close>

lemma serialize_same:
  assumes "is_Response r" and "jget r ''type'' = Some (JStr t)" and "map_of (Response_out print) t = Some out"
    and same: "\<And>k f v. (k, f) \<in> set out \<Longrightarrow> jget r k = Some v \<Longrightarrow> f v = v"
  shows "jget (serialize_response print r) k = jget r k"
proof -
  from assms(1,2) obtain body where b: "map_of Response_variants t = Some body" "has_fields body (without ''type'' r)"
    by (auto simp: is_Response_def split: option.splits)
  from bodies_kept [OF b(1), of print] assms(3) have out: "keeps body out" "''type'' \<notin> set (map fst out)" by auto
  then have d: "distinct (map fst out)" using keeps_keys [OF out(1)] by (simp add: keeps_def)
  show ?thesis
  proof (cases "k = ''type''")
    case False
    have "map_of (struct_of out r) k = jget r k"
    proof (cases "map_of out k")
      case None
      then have "k \<notin> fst ` set body" using keeps_keys [OF out(1)] by (metis list.set_map map_of_eq_None_iff)
      with b(2) have "jget (without ''type'' r) k = None"
        by (cases "without ''type'' r") (auto simp: list_all_iff map_of_eq_None_iff)
      with None False show ?thesis by (simp add: map_of_struct_of [OF d] jget_without)
    next
      case (Some f)
      from same [OF map_of_SomeD [OF Some]] show ?thesis
        by (cases "jget r k") (simp_all add: map_of_struct_of [OF d] Some)
    qed
    with False show ?thesis using assms(2,3) by (simp add: serialize_response_def)
  qed (use assms(2,3) in \<open>simp add: serialize_response_def\<close>)
qed

text \<open>The pixel coordinates are hundredths, so they go through the \<open>f32\<close> fields unharmed.\<close>

lemma through_f32_scale_px:
  assumes "shortest_hundredths print" "0 \<le> c" "c \<le> 1000" "0 \<le> W" "W < 10000"
  shows "through_f32 print (scale_px c W) = scale_px c W"
proof -
  define y where "y = fl (fl (of_int c / 1000) * fl (of_int W))"
  have W: "fl (of_int W) = of_int W" using assms(4,5) by (intro fl_of_int) simp
  then have "is_float (of_int W)" by (simp add: is_float_def)
  have "fl (of_int c / 1000) \<le> 1" using assms(3) fl_of_int [of 1] by (intro fl_le_float) (simp_all add: is_float_def)
  moreover have "0 \<le> fl (of_int c / 1000)" using assms(2) by (intro fl_nonneg) simp
  ultimately have "0 \<le> y" "y \<le> of_int W"
    using assms(4) \<open>is_float (of_int W)\<close> unfolding y_def W by (auto intro!: fl_nonneg fl_le_float mult_left_le_one_le)
  then have "0 \<le> rne (y * 10 ^ 2)" "rne (y * 10 ^ 2) \<le> 100 * W" by (auto intro!: rne_nonneg rne_le_int)
  with assms(5) have "through_f32 print (fl (of_int (rne (y * 10 ^ 2)) / 100)) = fl (of_int (rne (y * 10 ^ 2)) / 100)"
    by (intro through_f32_hundredths [OF assms(1)]) simp_all
  then show ?thesis unfolding scale_px_def py_round_def y_def by simp
qed

lemma LabeledBox_out_same:
  assumes "box_ok s W H d" "shortest_hundredths print" "0 \<le> W" "W < 10000" "0 \<le> H" "H < 10000"
  shows "LabeledBox_out print (detection_to_json d) = detection_to_json d"
proof -
  from assms(1) obtain x1 y1 x2 y2 where
    "0 \<le> x1" "x1 \<le> x2" "x2 \<le> 1000" "0 \<le> y1" "y1 \<le> y2" "y2 \<le> 1000"
    "bbox_px d = [scale_px x1 W, scale_px y1 H, scale_px x2 W, scale_px y2 H]" unfolding box_ok_def by blast
  with assms(2-) show ?thesis by (simp add: LabeledBox_out_def detection_to_json_def through_f32_scale_px)
qed

lemma LabeledPoint_out_same:
  assumes "point_ok s l W H p" "shortest_hundredths print" "0 \<le> W" "W < 10000" "0 \<le> H" "H < 10000"
  shows "LabeledPoint_out print (point_to_json p) = point_to_json p"
proof -
  from assms(1) obtain x y where
    "0 \<le> x" "x \<le> 1000" "0 \<le> y" "y \<le> 1000" "point_px p = [scale_px x W, scale_px y H]" unfolding point_ok_def by blast
  with assms(2-) show ?thesis by (simp add: LabeledPoint_out_def point_to_json_def through_f32_scale_px)
qed

end
