(* ===== verification/Sha256.thy ===== *)
theory Sha256
  imports Framing
begin

text \<open>
  \<^verbatim>\<open>hashlib.sha256\<close>, as \<^verbatim>\<open>worker/validate_startup.py\<close> and \<^verbatim>\<open>worker/la_worker.py\<close> use it: an object that is
  fed with \<open>update\<close> and asked for \<open>hexdigest\<close>. The object keeps the chaining value, the bytes that do not fill a
  block yet and the number of bytes seen; the compression function is that of FIPS 180-4 on 32-bit words.

  The lemmas show that feeding a file in chunks of any size gives the digest of its whole content.
\<close>

unbundle bit_operations_syntax

type_synonym w32 = "32 word"

section \<open>The compression function\<close>

text \<open>The constants of the standard: the first 32 bits of the fractional parts of the cube roots of the first 64
  primes, and of the square roots of the first eight; the roots are found bit by bit.\<close>

fun root_bits :: "nat \<Rightarrow> nat \<Rightarrow> nat \<Rightarrow> nat \<Rightarrow> nat" where
  "root_bits k n 0 r = r"
| "root_bits k n (Suc b) r = root_bits k n b (if (r + 2 ^ b) ^ k \<le> n then r + 2 ^ b else r)"

definition root_fraction :: "nat \<Rightarrow> nat \<Rightarrow> w32" where
  "root_fraction k p = of_nat (root_bits k (p * 2 ^ (32 * k)) 36 0)"

definition primes_below :: "nat \<Rightarrow> nat list" where
  "primes_below n = filter (\<lambda>p. list_all (\<lambda>d. p mod d \<noteq> 0) [2..<p]) [2..<n]"

definition K256 :: "w32 list" where "K256 = map (root_fraction 3) (primes_below 312)"

definition H256 :: "w32 list" where "H256 = map (root_fraction 2) (primes_below 20)"

definition rotr :: "nat \<Rightarrow> w32 \<Rightarrow> w32" where
  "rotr n x = drop_bit n x OR push_bit (32 - n) x"

definition big_sigma0 :: "w32 \<Rightarrow> w32" where "big_sigma0 x = rotr 2 x XOR rotr 13 x XOR rotr 22 x"
definition big_sigma1 :: "w32 \<Rightarrow> w32" where "big_sigma1 x = rotr 6 x XOR rotr 11 x XOR rotr 25 x"
definition small_sigma0 :: "w32 \<Rightarrow> w32" where "small_sigma0 x = rotr 7 x XOR rotr 18 x XOR drop_bit 3 x"
definition small_sigma1 :: "w32 \<Rightarrow> w32" where "small_sigma1 x = rotr 17 x XOR rotr 19 x XOR drop_bit 10 x"
definition sha_ch :: "w32 \<Rightarrow> w32 \<Rightarrow> w32 \<Rightarrow> w32" where "sha_ch x y z = (x AND y) XOR (NOT x AND z)"
definition sha_maj :: "w32 \<Rightarrow> w32 \<Rightarrow> w32 \<Rightarrow> w32" where
  "sha_maj x y z = (x AND y) XOR (x AND z) XOR (y AND z)"

fun be_words :: "byte list \<Rightarrow> w32 list" where
  "be_words (a # b # c # d # bs) =
     (push_bit 24 (ucast a) OR push_bit 16 (ucast b) OR push_bit 8 (ucast c) OR ucast d) # be_words bs"
| "be_words _ = []"

text \<open>The message schedule, newest word first: each step looks 2, 7, 15 and 16 words back.\<close>

fun schedule :: "nat \<Rightarrow> w32 list \<Rightarrow> w32 list" where
  "schedule 0 ws = ws"
| "schedule (Suc n) ws =
     schedule n ((small_sigma1 (ws ! 1) + ws ! 6 + small_sigma0 (ws ! 14) + ws ! 15) # ws)"

fun sha_round :: "w32 list \<Rightarrow> w32 \<times> w32 \<Rightarrow> w32 list" where
  "sha_round [a, b, c, d, e, f, g, h] (k, w) =
     (let t1 = h + big_sigma1 e + sha_ch e f g + k + w;
          t2 = big_sigma0 a + sha_maj a b c
      in [t1 + t2, a, b, c, d + t1, e, f, g])"
| "sha_round st kw = st"

definition compress :: "w32 list \<Rightarrow> byte list \<Rightarrow> w32 list" where
  "compress st block =
     map2 (+) st (foldl sha_round st (zip K256 (rev (schedule 48 (rev (be_words block))))))"

section \<open>The object\<close>

record sha256 =
  chaining :: "w32 list"
  pending :: "byte list"
  seen :: nat

definition sha256_new :: sha256 where
  "sha256_new = \<lparr>chaining = H256, pending = [], seen = 0\<rparr>"

text \<open>The full blocks of a text, and what is left of it.\<close>

function absorb :: "w32 list \<Rightarrow> byte list \<Rightarrow> w32 list \<times> byte list" where
  "absorb st bs = (if length bs < 64 then (st, bs) else absorb (compress st (take 64 bs)) (drop 64 bs))"
  by pat_completeness auto
termination by (relation "measure (\<lambda>(st, bs). length bs)") auto

declare absorb.simps [simp del]

definition sha256_update :: "sha256 \<Rightarrow> byte list \<Rightarrow> sha256" where
  "sha256_update h bs = (let (st, rest) = absorb (chaining h) (pending h @ bs)
     in \<lparr>chaining = st, pending = rest, seen = seen h + length bs\<rparr>)"

definition be_bytes :: "nat \<Rightarrow> nat \<Rightarrow> byte list" where
  "be_bytes k n = map (\<lambda>i. of_nat (n div 256 ^ (k - 1 - i))) [0..<k]"

definition padding :: "nat \<Rightarrow> byte list" where
  "padding n = 0x80 # replicate ((119 - n mod 64) mod 64) 0 @ be_bytes 8 (8 * n)"

definition hex_digit :: "nat \<Rightarrow> char" where
  "hex_digit n = char_of (if n < 10 then 48 + n else 87 + n)"

definition hex_byte :: "byte \<Rightarrow> string" where
  "hex_byte b = [hex_digit (unat b div 16), hex_digit (unat b mod 16)]"

definition word_bytes :: "w32 \<Rightarrow> byte list" where
  "word_bytes w = be_bytes 4 (unat w)"

definition hexdigest :: "sha256 \<Rightarrow> string" where
  "hexdigest h = concat (map hex_byte (concat (map word_bytes
     (fst (absorb (chaining h) (pending h @ padding (seen h)))))))"

definition sha256_hex :: "byte list \<Rightarrow> string" where
  "sha256_hex bs = hexdigest (sha256_update sha256_new bs)"

section \<open>Lemmas\<close>

lemma absorb_append:
  "absorb st (as @ bs) = (case absorb st as of (st', rest) \<Rightarrow> absorb st' (rest @ bs))"
proof (induction st as rule: absorb.induct)
  case (1 st as)
  show ?case
  proof (cases "length as < 64")
    case True
    then show ?thesis by (simp add: absorb.simps [of st as])
  next
    case False
    then have "absorb st (as @ bs) = absorb (compress st (take 64 as)) (drop 64 as @ bs)"
      by (simp add: absorb.simps [of st "as @ bs"])
    with "1.IH" [OF False] False show ?thesis by (simp add: absorb.simps [of st as])
  qed
qed

lemma absorb_rest: "length (snd (absorb st bs)) < 64 \<and> absorb (fst (absorb st bs)) (snd (absorb st bs)) = absorb st bs"
proof (induction st bs rule: absorb.induct)
  case (1 st bs)
  then show ?case by (cases "length bs < 64") (simp_all add: absorb.simps [of st bs])
qed

lemma sha256_update_append: "sha256_update (sha256_update h as) bs = sha256_update h (as @ bs)"
  using absorb_append [of "chaining h" "pending h @ as" bs]
  by (auto simp: sha256_update_def Let_def split: prod.splits)

lemma foldl_update: "foldl sha256_update (sha256_update h as) cs = sha256_update h (as @ concat cs)"
  by (induction cs arbitrary: as) (simp_all add: sha256_update_append)

lemma sha256_new_update_Nil: "sha256_update sha256_new [] = sha256_new"
  by (simp add: sha256_update_def sha256_new_def absorb.simps)

lemma sha256_chunks: "hexdigest (foldl sha256_update sha256_new cs) = sha256_hex (concat cs)"
  using foldl_update [of sha256_new "[]" cs] by (simp add: sha256_new_update_Nil sha256_hex_def)

section \<open>Texts and files\<close>

text \<open>\<open>str.encode("utf-8")\<close> on the code points of a \<open>char\<close>, below 256.\<close>

definition utf8_char :: "char \<Rightarrow> byte list" where
  "utf8_char c = (let n = of_char c :: nat in
     if n < 128 then [of_nat n] else [of_nat (192 + n div 64), of_nat (128 + n mod 64)])"

definition utf8 :: "string \<Rightarrow> byte list" where
  "utf8 s = concat (map utf8_char s)"

fun utf8_decode :: "byte list \<Rightarrow> string" where
  "utf8_decode [] = []"
| "utf8_decode [b] = [char_of (unat b)]"
| "utf8_decode (b # c # bs) = (if unat b < 128 then char_of (unat b) # utf8_decode (c # bs)
     else char_of (64 * (unat b - 192) + (unat c - 128)) # utf8_decode bs)"

lemma unat_byte_small: "n < 256 \<Longrightarrow> unat (of_nat n :: byte) = n"
  by (simp add: unat_of_nat)

lemma utf8_decode_append: "utf8_decode (utf8_char c @ bs) = c # utf8_decode bs"
proof -
  define n where "n = (of_char c :: nat)"
  have n: "n < 256" by (simp add: n_def)
  have c: "char_of n = c" by (simp add: n_def)
  show ?thesis
  proof (cases "n < 128")
    case True
    then have u: "unat (of_nat n :: byte) = n" by (simp add: unat_byte_small)
    show ?thesis using True u c by (cases bs) (simp_all add: utf8_char_def n_def [symmetric])
  next
    case False
    have u: "unat (of_nat (192 + n div 64) :: byte) = 192 + n div 64" using n by (intro unat_byte_small) auto
    have v: "unat (of_nat (128 + n mod 64) :: byte) = 128 + n mod 64" by (intro unat_byte_small) (simp add: trans_less_add2)
    have enc: "utf8_char c = [of_nat (192 + n div 64), of_nat (128 + n mod 64)]"
      using False by (simp add: utf8_char_def n_def [symmetric])
    have "64 * (n div 64) + n mod 64 = n" by simp
    then show ?thesis unfolding enc using c by (simp add: u v del: of_nat_add of_nat_numeral)
  qed
qed

lemma utf8_decode_utf8: "utf8_decode (utf8 s) = s"
  by (induction s) (simp_all add: utf8_def utf8_decode_append)

lemma utf8_inj: "utf8 s = utf8 t \<longleftrightarrow> s = t"
  using utf8_decode_utf8 by metis

lemma utf8_concat: "concat (map utf8 ss) = utf8 (concat ss)"
  by (induction ss) (simp_all add: utf8_def)

text \<open>\<open>_sha256_of_file\<close>: unbuffered reads of at most 1 MiB until one gives nothing. The operating system may give
  fewer bytes than asked for, at least one before the end: \<open>avail\<close> says how many, from what is left.\<close>

definition read_chunk :: "(nat \<Rightarrow> nat) \<Rightarrow> byte list \<Rightarrow> nat" where
  "read_chunk avail left = min (2 ^ 20) (max 1 (avail (length left)))"

function hash_loop :: "(nat \<Rightarrow> nat) \<Rightarrow> sha256 \<Rightarrow> byte list \<Rightarrow> sha256" where
  "hash_loop avail h left =
     (let chunk = take (read_chunk avail left) left
      in if chunk = [] then h else hash_loop avail (sha256_update h chunk) (drop (read_chunk avail left) left))"
  by pat_completeness auto
termination by (relation "measure (\<lambda>(avail, h, left). length left)") (auto simp: read_chunk_def)

declare hash_loop.simps [simp del]

definition sha256_of_file :: "(nat \<Rightarrow> nat) \<Rightarrow> byte list \<Rightarrow> string" where
  "sha256_of_file avail content = hexdigest (hash_loop avail sha256_new content)"

lemma hash_loop_update: "hash_loop avail (sha256_update h as) left = sha256_update h (as @ left)"
proof (induction "length left" arbitrary: as left rule: less_induct)
  case less
  let ?n = "read_chunk avail left"
  have n: "0 < ?n" by (simp add: read_chunk_def)
  show ?case
  proof (cases "left = []")
    case True
    then show ?thesis by (subst hash_loop.simps) simp
  next
    case False
    with n have "hash_loop avail (sha256_update h as) left =
        hash_loop avail (sha256_update h (as @ take ?n left)) (drop ?n left)"
      by (subst hash_loop.simps) (simp add: sha256_update_append)
    also have "\<dots> = sha256_update h ((as @ take ?n left) @ drop ?n left)"
      by (rule less) (use False n in simp)
    finally show ?thesis by simp
  qed
qed

lemma streamed_hash_is_whole: "sha256_of_file avail content = sha256_hex content"
  using hash_loop_update [of avail sha256_new "[]" content]
  by (simp add: sha256_of_file_def sha256_hex_def sha256_new_update_Nil)

section \<open>Properties\<close>

text \<open>C37.
  The digest of a file does not depend on how the operating system cuts it into reads: the streamed hash
  of \<open>_sha256_of_file\<close> is the SHA-256 of the whole content.
\<close>

theorem streamed_hash_is_whole_hash:
  "sha256_of_file avail content = sha256_hex content \<and>
   hexdigest (foldl sha256_update sha256_new chunks) = sha256_hex (concat chunks)"
  using streamed_hash_is_whole sha256_chunks by simp

end
