(* ===== verification/Worker.thy ===== *)
theory Worker
  imports Calibration Egress Sha256 "HOL-Library.Char_ord" "HOL-Library.List_Lexorder"
begin

text \<open>
  \<^verbatim>\<open>worker/la_worker.py\<close>: the application behind the Unix socket. One connection is a stream of requests,
  two frames each (a JSON header and a payload), answered by one frame each. \<open>infer\<close> is the method
  \<open>_infer\<close>, \<open>serve\<close> the loop of \<open>handle_connection\<close>, with the order of its \<open>except\<close> clauses.

  The JSON codec, the CUDA queries and the deadline of \<open>asyncio.wait_for\<close> are the fields of \<open>worker_libs\<close>.
  The lemmas show that every reply is one the Rust side accepts, that a connection answers its requests
  one by one in their order, and exactly when the process is given up.
\<close>

section \<open>The application\<close>

record 'w worker_libs =
  json_loads :: "byte list \<Rightarrow> json res"
  json_dumps :: "json \<Rightarrow> byte list res"
  times_out :: "rat \<Rightarrow> 'w \<Rightarrow> bool"
  torch_arches :: "string list res"
  gpu_name :: "string res"
  mem_get_info :: "'w \<Rightarrow> (int \<times> int) res"

record ('img, 'prof, 'vis, 'inp, 'tok, 'w) worker_app =
  engine :: "('img, 'prof, 'vis, 'inp, 'tok, 'w) backend"
  gen_cfg :: gen_config
  model_dir :: string
  attn_impl :: string
  model_manifest_sha256 :: "string option"
  calibration :: calibration_result
  inference_timeout_s :: rat

definition WORKER_RESTART_EXIT_CODE :: int where "WORKER_RESTART_EXIT_CODE = 75"

text \<open>\<open>LA_INFERENCE_TIMEOUT_S\<close>, read once when the module is imported.\<close>

definition read_inference_timeout :: "env \<Rightarrow> rat res" where
  "read_inference_timeout env = py_float (case env ''LA_INFERENCE_TIMEOUT_S'' of None \<Rightarrow> ''600'' | Some v \<Rightarrow> v)"

definition capabilities :: "('img, 'prof, 'vis, 'inp, 'tok, 'w) worker_app \<Rightarrow> json res" where
  "capabilities app =
     bindr DRONE_PRESETS_RANKED (\<lambda>drone. bindr HOUSEHOLD_PRESETS (\<lambda>household.
     let gen = gen_cfg app in
     ret (JObj [
       (''model'', JStr ''nvidia/LocateAnything-3B''), (''model_dir'', JStr (model_dir app)),
       (''model_manifest_sha256'', (case model_manifest_sha256 app of None \<Rightarrow> JNull | Some h \<Rightarrow> JStr h)),
       (''dtype'', JStr ''bfloat16''), (''attn_impl'', JStr (attn_impl app)),
       (''max_image_dim'', JInt 2240), (''in_token_limit'', JInt 25600), (''max_llm_tokens_per_image'', JInt 6400),
       (''patch_px'', JInt 14), (''llm_token_px'', JInt 28), (''max_prompt_tokens'', JInt 16384),
       (''trained_generation_params'', JObj [
          (''do_sample'', JBool (do_sample gen)), (''temperature'', JFloat (temperature gen)),
          (''top_p'', JFloat (top_p gen)), (''repetition_penalty'', JFloat (repetition_penalty gen)),
          (''max_new_tokens'', JInt (max_new_tokens gen)), (''n_future_tokens'', JInt (n_future_tokens gen))]),
       (''supported_generation_modes'', JList [JStr ''fast'', JStr ''hybrid'', JStr ''slow'']),
       (''calibration'', calibration_to_json (calibration app)),
       (''prompt_templates_reference_url'', JStr CANONICAL_REFERENCE_URL),
       (''preset_prompts'', JObj [(''drone_ranked'', JList drone), (''household'', JList household)])])))"

definition gib :: "int \<Rightarrow> json" where
  "gib b = JFloat (py_round 2 (fl (of_int b / of_int (1024 ^ 3))))"

definition info :: "'w worker_libs \<Rightarrow> 'w \<Rightarrow> json res" where
  "info libs wd =
     bindr (mem_get_info libs wd) (\<lambda>(free_b, total_b).
     bindr (torch_arches libs) (\<lambda>arches.
     bindr (gpu_name libs) (\<lambda>name.
     bindr (summarize 1920 1080) (\<lambda>s1. bindr (summarize 2560 1440) (\<lambda>s2.
     bindr (summarize 3840 2160) (\<lambda>s3. bindr (summarize 2240 2240) (\<lambda>s4.
     ret (JObj [
       (''ok'', JBool True), (''model_loaded'', JBool True),
       (''torch_arches'', JList (map JStr arches)), (''gpu_name'', JStr name),
       (''gpu_total_mem_gib'', gib total_b), (''gpu_free_mem_gib'', gib free_b),
       (''gpu_used_mem_gib'', gib (total_b - free_b)),
       (''pixel_token_examples'', JObj [(''1080p'', s1), (''1440p'', s2), (''4K'', s3), (''square_2240'', s4)])]))))))))"

section \<open>Error replies\<close>

definition ERROR_CODES :: "string set" where
  "ERROR_CODES = {''invalid_request'', ''invalid_image'', ''model_deviation'', ''internal''}"

definition frame_error :: "string \<Rightarrow> string \<Rightarrow> string \<Rightarrow> json res" where
  "frame_error frame_id code message =
     (if code \<notin> ERROR_CODES then raise ValueError ''_frame_error called with non-A.2 code''
      else ret (JObj [(''ok'', JBool False), (''type'', JStr ''error''), (''frame_id'', JStr frame_id),
                      (''code'', JStr code), (''message'', JStr message)]))"

definition err_frame_bytes :: "'w worker_libs \<Rightarrow> string \<Rightarrow> string \<Rightarrow> string \<Rightarrow> byte list res" where
  "err_frame_bytes libs frame_id code message = bindr (frame_error frame_id code message) (json_dumps libs)"

section \<open>_infer\<close>

text \<open>The checks of \<open>_infer\<close> before the lock: an early return \<open>Inl reply\<close>, or the fields to run on.\<close>

definition check_header :: "json \<Rightarrow> byte list \<Rightarrow> (json res) + (string \<times> string \<times> json \<times> json)" where
  "check_header header jpeg =
     (case as_nonempty_str (jget header ''frame_id'') of
        None \<Rightarrow> Inl (frame_error [] ''internal'' ''header.frame_id missing or not a non-empty string'')
      | Some frame_id \<Rightarrow>
          if \<exists>key \<in> set [''prompt'', ''generation_mode'', ''prompt_task'']. jget header key = None
          then Inl (frame_error frame_id ''internal'' ''header key missing'')
          else (case as_nonempty_str (jget header ''prompt'') of
             None \<Rightarrow> Inl (frame_error frame_id ''internal'' ''header.prompt must be a non-empty string'')
           | Some prompt \<Rightarrow>
               if length prompt > 16384
               then Inl (frame_error frame_id ''internal'' ''header.prompt too long'')
               else let mode = the (jget header ''generation_mode'') in
               if mode \<notin> JStr ` {''fast'', ''hybrid'', ''slow''}
               then Inl (frame_error frame_id ''internal'' ''header.generation_mode is not one of fast|hybrid|slow'')
               else if jpeg = [] then Inl (frame_error frame_id ''invalid_image'' ''JPEG payload is empty'')
               else if take 3 jpeg \<noteq> [0xFF, 0xD8, 0xFF]
               then Inl (frame_error frame_id ''invalid_image'' ''JPEG payload missing SOI marker'')
               else Inr (frame_id, prompt, mode, the (jget header ''prompt_task''))))"

text \<open>The body of \<open>async with self.lock\<close>: the run under the deadline, and the total time. When the deadline has
  passed before the run was over, \<open>wait_for\<close> raises, although the thread goes on.\<close>

definition timed_inference ::
  "('img, 'prof, 'vis, 'inp, 'tok, 'w) worker_app \<Rightarrow> 'w worker_libs \<Rightarrow> 'w \<Rightarrow> byte list \<Rightarrow> string \<Rightarrow> json \<Rightarrow> json \<Rightarrow>
   (inference_result \<times> rat) res \<times> 'w" where
  "timed_inference app libs wd jpeg prompt mode prompt_task =
     (let (t0, wd1) = perf_counter (engine app) wd;
          (result, wd2) = run (engine app) (gen_cfg app) wd1 jpeg (JStr prompt) mode prompt_task
      in if times_out libs (inference_timeout_s app) wd2 then (raise TimeoutError [], wd2)
         else (case result of
             Inl e \<Rightarrow> (Inl e, wd2)
           | Inr result \<Rightarrow> let (t1, wd3) = perf_counter (engine app) wd2
                          in (ret (result, fl (fl (t1 - t0) * 1000)), wd3)))"

definition reply_body :: "string \<Rightarrow> json \<Rightarrow> inference_result \<Rightarrow> rat \<Rightarrow> json" where
  "reply_body frame_id mode result total_ms = JObj ([
     (''ok'', JBool True), (''type'', JStr (kind_name (ir_kind result))), (''frame_id'', JStr frame_id),
     (''raw_text'', JStr (raw_answer result)),
     (''model_output_truncated'', JBool (model_output_truncated result)),
     (''deviations_dropped'', JInt (int (deviations_dropped result))),
     (''image_size'', JList [JInt (fst (image_size result)), JInt (snd (image_size result))]),
     (''resize_plan'', resize_plan result), (''generation_mode_used'', mode),
     (''latency_ms'', JFloat (py_round 1 (latency_ms result))), (''total_ms'', JFloat (py_round 1 total_ms))] @
     (if ir_kind result = KIND_BOXES then [(''boxes'', JList (ir_boxes result))]
      else if ir_kind result = KIND_POINTS then [(''points'', JList (ir_points result))] else []))"

definition infer ::
  "('img, 'prof, 'vis, 'inp, 'tok, 'w) worker_app \<Rightarrow> 'w worker_libs \<Rightarrow> 'w \<Rightarrow> json \<Rightarrow> byte list \<Rightarrow> json res \<times> 'w" where
  "infer app libs wd header jpeg =
     (case check_header header jpeg of
        Inl reply \<Rightarrow> (reply, wd)
      | Inr (frame_id, prompt, mode, prompt_task) \<Rightarrow>
          (case timed_inference app libs wd jpeg prompt mode prompt_task of
             (Inl e, wd1) \<Rightarrow>
               (if exc_isa (exc_cls e) ValueError then frame_error frame_id ''invalid_image'' (exc_msg e) else Inl e, wd1)
           | (Inr (result, total_ms), wd1) \<Rightarrow>
               (if ir_kind result = KIND_DEVIATION
                then frame_error frame_id ''model_deviation'' (the (deviation_message result))
                else ret (reply_body frame_id mode result total_ms), wd1)))"

section \<open>handle_connection\<close>

datatype outcome = Closed | Crashed py_exc | HardExit int

text \<open>Writing a reply: \<open>await write_frame(writer, json.dumps(reply).encode())\<close>.\<close>

definition write_bytes :: "byte list res \<Rightarrow> writer \<Rightarrow> unit res \<times> writer" where
  "write_bytes body wr = (case body of Inl e \<Rightarrow> (Inl e, wr) | Inr data \<Rightarrow> write_frame wr data)"

definition route ::
  "('img, 'prof, 'vis, 'inp, 'tok, 'w) worker_app \<Rightarrow> 'w worker_libs \<Rightarrow> json \<Rightarrow> string \<Rightarrow> byte list \<Rightarrow> writer \<Rightarrow> 'w \<Rightarrow>
   unit res \<times> writer \<times> 'w" where
  "route app libs header req_frame_id payload wr wd =
     (let kind = jget header ''kind'';
          (body, wd') =
            (if kind = Some (JStr ''capabilities'') then (bindr (capabilities app) (json_dumps libs), wd)
             else if kind = Some (JStr ''info'') then (bindr (info libs wd) (json_dumps libs), wd)
             else if kind = Some (JStr ''frame'')
             then let (resp, wd1) = infer app libs wd header payload in (bindr resp (json_dumps libs), wd1)
             else (err_frame_bytes libs req_frame_id ''internal'' ''unknown header.kind'', wd));
          (r, wr') = write_bytes body wr
      in (r, wr', wd'))"

text \<open>The \<open>except\<close> clauses, in their order: \<open>None\<close> goes on with the next request. The reply before a hard exit is
  best effort: an \<open>Exception\<close> of its write is swallowed.\<close>

definition write_and_exit :: "byte list res \<Rightarrow> writer \<Rightarrow> outcome option \<times> writer" where
  "write_and_exit body wr = (case write_bytes body wr of
     (Inr _, wr') \<Rightarrow> (Some (HardExit WORKER_RESTART_EXIT_CODE), wr')
   | (Inl e, wr') \<Rightarrow> (Some (if exc_isa (exc_cls e) Exception then HardExit WORKER_RESTART_EXIT_CODE else Crashed e), wr'))"

definition write_and_continue :: "byte list res \<Rightarrow> writer \<Rightarrow> outcome option \<times> writer" where
  "write_and_continue body wr = (case write_bytes body wr of
     (Inr _, wr') \<Rightarrow> (None, wr')
   | (Inl e, wr') \<Rightarrow> (Some (Crashed e), wr'))"

definition handle_exception :: "'w worker_libs \<Rightarrow> string \<Rightarrow> py_exc \<Rightarrow> writer \<Rightarrow> outcome option \<times> writer" where
  "handle_exception libs req_frame_id e wr =
     (if exc_isa (exc_cls e) OutOfMemoryError
      then write_and_exit (err_frame_bytes libs req_frame_id ''internal'' (''CUDA out of memory: '' @ exc_msg e)) wr
      else if exc_isa (exc_cls e) TimeoutError
      then write_and_exit (err_frame_bytes libs req_frame_id ''internal'' ''inference timeout'') wr
      else if exc_isa (exc_cls e) ValueError
      then write_and_continue (err_frame_bytes libs req_frame_id ''internal'' (exc_msg e)) wr
      else if exc_isa (exc_cls e) RuntimeError
      then write_and_continue (err_frame_bytes libs req_frame_id ''internal'' (exc_msg e)) wr
      else if exc_isa (exc_cls e) Exception
      then write_and_continue (err_frame_bytes libs req_frame_id ''internal'' (exc_msg e)) wr
      else (Some (Crashed e), wr))"

definition req_frame_id :: "json \<Rightarrow> string" where
  "req_frame_id header = (case jget header ''frame_id'' of Some (JStr s) \<Rightarrow> s | _ \<Rightarrow> [])"

text \<open>One request whose two frames have been read.\<close>

definition handle_request ::
  "('img, 'prof, 'vis, 'inp, 'tok, 'w) worker_app \<Rightarrow> 'w worker_libs \<Rightarrow> byte list \<Rightarrow> byte list \<Rightarrow> writer \<Rightarrow> 'w \<Rightarrow>
   outcome option \<times> writer \<times> 'w" where
  "handle_request app libs header_bytes payload wr wd =
     (case json_loads libs header_bytes of
        Inl e \<Rightarrow>
          (let (oc, wr') =
             (if exc_isa (exc_cls e) UnicodeDecodeError
              then write_and_continue (err_frame_bytes libs [] ''internal'' ''header bytes are not valid UTF-8'') wr
              else if exc_isa (exc_cls e) JSONDecodeError
              then write_and_continue (err_frame_bytes libs [] ''internal'' ''header JSON parse failed'') wr
              else (Some (Crashed e), wr))
           in (oc, wr', wd))
      | Inr header \<Rightarrow>
          if \<not> is_obj header
          then let (oc, wr') = write_and_continue (err_frame_bytes libs [] ''internal'' ''header JSON must be an object'') wr
               in (oc, wr', wd)
          else (case route app libs header (req_frame_id header) payload wr wd of
              (Inr _, wr', wd') \<Rightarrow> (None, wr', wd')
            | (Inl e, wr', wd') \<Rightarrow>
                let (oc, wr'') = handle_exception libs (req_frame_id header) e wr' in (oc, wr'', wd')))"

text \<open>The loop. Each turn consumes at least eight bytes of the stream, so it ends when the stream does.\<close>

function serve ::
  "('img, 'prof, 'vis, 'inp, 'tok, 'w) worker_app \<Rightarrow> 'w worker_libs \<Rightarrow> byte list \<Rightarrow> writer \<Rightarrow> 'w \<Rightarrow>
   outcome \<times> writer \<times> 'w" where
  "serve app libs stream wr wd =
     (case read_frame stream of
        Inl e \<Rightarrow> (if exc_isa (exc_cls e) IncompleteReadError then Closed else Crashed e, wr, wd)
      | Inr (header_bytes, stream1) \<Rightarrow>
          (case read_frame stream1 of
             Inl e \<Rightarrow>
               (if \<exists>c \<in> set [IncompleteReadError, ValueError, ConnectionError, StructError]. exc_isa (exc_cls e) c
                then Closed else Crashed e, wr, wd)
           | Inr (payload, stream2) \<Rightarrow>
               (case handle_request app libs header_bytes payload wr wd of
                  (Some oc, wr', wd') \<Rightarrow> (oc, wr', wd')
                | (None, wr', wd') \<Rightarrow> serve app libs stream2 wr' wd')))"
  by pat_completeness auto
termination
  by (relation "measure (\<lambda>(app, libs, stream, wr, wd). length stream)") (auto dest!: read_frame_shorter)

declare serve.simps [simp del]

section \<open>The manifest\<close>

text \<open>\<open>_compute_weight_manifest_sha256\<close>: the directory is the list of its entries, name, whether it is a file, size.\<close>

definition manifest_items :: "(string \<times> bool \<times> nat) list \<Rightarrow> (string \<times> nat) list" where
  "manifest_items dir = map (\<lambda>(name, is_file, size). (name, size))
     (filter (\<lambda>(name, is_file, size). is_file) (sort_key fst dir))"

definition manifest_line :: "string \<times> nat \<Rightarrow> string" where
  "manifest_line item = (case item of (name, sz) \<Rightarrow> name @ '':'' @ dec_digits sz @ [CHR 0x0A])"

definition compute_weight_manifest_sha256 :: "(string \<times> bool \<times> nat) list \<Rightarrow> string option" where
  "compute_weight_manifest_sha256 dir =
     (let items = manifest_items dir in
      if items = [] then None
      else Some (hexdigest (foldl (\<lambda>h item. sha256_update h (utf8 (manifest_line item))) sha256_new items)))"

section \<open>Lemmas on replies\<close>

lemma frame_error_accepted:
  assumes "frame_error fid code msg = Inr reply"
  shows "infer_accepts reply \<and> jget reply ''frame_id'' = Some (JStr fid) \<and>
    jget reply ''code'' = Some (JStr code) \<and> jget reply ''type'' = Some (JStr ''error'')"
  using assms
  by (auto simp: frame_error_def ERROR_CODES_def infer_accepts_def is_Response_def Response_variants_def
      ErrorBody_def ErrorCode_def split: if_splits)

lemma frame_error_returns [simp]: "code \<in> ERROR_CODES \<Longrightarrow> returns (frame_error fid code msg)"
  by (simp add: frame_error_def)

lemma ERROR_CODES_simps [simp]:
  "''invalid_image'' \<in> ERROR_CODES" "''model_deviation'' \<in> ERROR_CODES" "''internal'' \<in> ERROR_CODES"
  by (simp_all add: ERROR_CODES_def)

text \<open>The answers of the model are bounded, as \<open>max_new_tokens\<close> makes them.\<close>

definition short_answers :: "('img, 'prof, 'vis, 'inp, 'tok, 'w) backend \<Rightarrow> bool" where
  "short_answers B \<longleftrightarrow> (\<forall>wd inputs kwargs out wd' a.
     generate B wd inputs kwargs = (Inr out, wd') \<longrightarrow> answer_text B out = Inr a \<longrightarrow> length a < 2 ^ 30)"

lemma run_answer:
  assumes "run B cfg wd jpeg prompt mode prompt_task = (Inr r, wd')"
  shows "\<exists>wd1 inputs kwargs out wd2. generate B wd1 inputs kwargs = (Inr out, wd2) \<and>
    answer_text B out = Inr (raw_answer r)"
proof (cases "prepare B cfg jpeg prompt mode prompt_task")
  case (Inl e)
  with assms show ?thesis by (simp add: run_def)
next
  case (Inr x)
  obtain p t img plan inputs kw where x: "x = (p, t, img, plan, inputs, kw)" by (cases x) auto
  have raw: "raw_answer (resolve_variant t' g a l w h pl) = a" for t' g a l w h pl
    by (cases g) (simp add: resolve_variant_def Let_def)
  obtain t0 wd1 where pc: "perf_counter B wd = (t0, wd1)" by fastforce
  obtain out wd2 where g: "generate B wd1 inputs kw = (out, wd2)" by fastforce
  obtain o' where o: "out = Inr o'" using assms Inr x pc g by (cases out) (simp_all add: run_def)
  from assms Inr x pc g o have "answer_text B o' = Inr (raw_answer r)"
    by (auto simp: run_def Let_def bindr_eq_Inr raw split: prod.splits)
  with g o show ?thesis by blast
qed

lemma run_body:
  assumes run: "run B cfg wd jpeg prompt mode prompt_task = (Inr r, wd')" and sh: "short_answers B"
  shows "u32 (JInt (int (deviations_dropped r)))"
    and "json_array 2 u32 (JList [JInt (fst (image_size r)), JInt (snd (image_size r))])"
    and "ResizePlan (resize_plan r)" and "list_all LabeledBox (ir_boxes r)" and "list_all LabeledPoint (ir_points r)"
proof -
  from run_answer [OF run] sh have "length (raw_answer r) < 2 ^ 30" unfolding short_answers_def by blast
  then show "u32 (JInt (int (deviations_dropped r)))" using dropped_bound [OF run] by simp
  from run_Inr [OF run] obtain p t img plan inputs kw answer g latency where
    pr: "prepare B cfg jpeg prompt mode prompt_task = Inr (p, t, img, plan, inputs, kw)"
    and rg: "read_geometry answer p t (img_width B img) (img_height B img) = Inr g"
    and r: "r = resolve_variant t g answer latency (img_width B img) (img_height B img) plan" by metis
  define w h where wh: "w = img_width B img" "h = img_height B img"
  from prepare_Inr [OF pr] have t: "t \<in> fst ` set EXPECTED_SHAPE" and gates: "within_gates w h"
    and plan: "plan_resize w h = Inr plan" by (simp_all add: wh)
  have pos: "0 < w" "0 < h" using plan_resize_src [OF plan] by simp_all
  note small = within_gates_small [OF gates pos]
  from read_geometry_Inr [OF rg] obtain ds box_off lbl ps point_off where
    g: "g = (map detection_to_json ds, box_off, map point_to_json ps, point_off, count_malformed_geometry answer)"
    and pb: "parse_boxes answer w h = Inr (ds, box_off)" and pp: "parse_points answer w h lbl = Inr (ps, point_off)"
    unfolding wh by metis
  note res = resolve_variant_cases [OF t r [unfolded g], folded wh]
  show "json_array 2 u32 (JList [JInt (fst (image_size r)), JInt (snd (image_size r))])"
    using pos small by (simp add: res(6))
  show "ResizePlan (resize_plan r)" unfolding res(9) by (rule ResizePlan_plan [OF pos gates plan])
  have le: "w \<le> 2 ^ 53" "h \<le> 2 ^ 53" "0 \<le> w" "0 \<le> h" using small pos by simp_all
  have "\<forall>d \<in> set ds. LabeledBox (detection_to_json d)"
    using parse_boxes_ok [OF pb] le LabeledBox_detection by blast
  then show "list_all LabeledBox (ir_boxes r)" unfolding res(2) by (auto simp: list_all_iff)
  have "\<forall>p \<in> set ps. LabeledPoint (point_to_json p)"
    using parse_points_ok [OF pp] le LabeledPoint_point by blast
  then show "list_all LabeledPoint (ir_points r)" unfolding res(3) by (auto simp: list_all_iff)
qed

lemma reply_body_accepted:
  assumes "run B cfg wd jpeg prompt mode prompt_task = (Inr r, wd')" "short_answers B"
    and "ir_kind r \<noteq> KIND_DEVIATION" "GenerationMode md"
  shows "infer_accepts (reply_body fid md r tot) \<and> jget (reply_body fid md r tot) ''frame_id'' = Some (JStr fid) \<and>
    jget (reply_body fid md r tot) ''code'' = None"
  using run_body [OF assms(1,2)] assms(3,4)
  by (cases "ir_kind r")
     (simp_all add: infer_accepts_def is_Response_def Response_variants_def reply_body_def BoxesBody_def
      PointsBody_def AbstainedBody_def Meta_def)

text \<open>The edge prints every value of a result as the worker computed it: coordinates are hundredths of a pixel.\<close>

lemma run_geometry_printed:
  assumes run: "run B cfg wd jpeg prompt mode prompt_task = (Inr r, wd')" and print: "shortest_hundredths print"
  shows "map (LabeledBox_out print) (ir_boxes r) = ir_boxes r"
    and "map (LabeledPoint_out print) (ir_points r) = ir_points r"
    and "ResizePlan_out (resize_plan r) = resize_plan r"
proof -
  from run_parsed [OF run] obtain t w h ds box_off lbl ps point_off latency plan where
    t: "t \<in> fst ` set EXPECTED_SHAPE" and gates: "within_gates w h" "0 < w" "0 < h"
    and pb: "parse_boxes (raw_answer r) w h = Inr (ds, box_off)" and pp: "parse_points (raw_answer r) w h lbl = Inr (ps, point_off)"
    and r: "r = resolve_variant t (map detection_to_json ds, box_off, map point_to_json ps, point_off,
       count_malformed_geometry (raw_answer r)) (raw_answer r) latency w h plan" by metis
  note res = resolve_variant_cases [OF t r]
  from within_gates_small [OF gates] have le: "w \<le> 2 ^ 53" "h \<le> 2 ^ 53" "0 \<le> w" "0 \<le> h" "w < 10000" "h < 10000"
    using gates by simp_all
  have "LabeledBox_out print (detection_to_json d) = detection_to_json d" if "d \<in> set ds" for d
    using parse_boxes_ok [OF pb] le print that by (blast intro: LabeledBox_out_same)
  then show "map (LabeledBox_out print) (ir_boxes r) = ir_boxes r" unfolding res(2) by (auto intro: map_idI)
  have "LabeledPoint_out print (point_to_json p) = point_to_json p" if "p \<in> set ps" for p
    using parse_points_ok [OF pp] le print that by (blast intro: LabeledPoint_out_same)
  then show "map (LabeledPoint_out print) (ir_points r) = ir_points r" unfolding res(3) by (auto intro: map_idI)
  show "ResizePlan_out (resize_plan r) = resize_plan r" unfolding res(9) by (simp add: ResizePlan_out_def resize_plan_json_def)
qed

lemma reply_body_printed:
  assumes run: "run B cfg wd jpeg prompt mode prompt_task = (Inr r, wd')" and "short_answers B"
    and kind: "ir_kind r \<noteq> KIND_DEVIATION" and "GenerationMode md" and print: "shortest_hundredths print"
  shows "jget (serialize_response print (without ''ok'' (reply_body fid md r tot))) k =
    jget (without ''ok'' (reply_body fid md r tot)) k"
proof -
  let ?r = "without ''ok'' (reply_body fid md r tot)"
  have R: "is_Response ?r" using reply_body_accepted [OF assms(1-4)] infer_accepts_Response by blast
  have t: "jget ?r ''type'' = Some (JStr (kind_name (ir_kind r)))" by (simp add: reply_body_def)
  from kind obtain out where out: "map_of (Response_out print) (kind_name (ir_kind r)) = Some out"
    by (cases "ir_kind r") (auto simp: Response_out_def)
  note same = run_geometry_printed [OF run print]
  show ?thesis
  proof (rule serialize_same [OF R t out])
    fix k f v assume "(k, f) \<in> set out" "jget ?r k = Some v"
    with kind out same show "f v = v"
      by (cases "ir_kind r") (auto simp: Response_out_def Meta_out_def reply_body_def)
  qed
qed

lemma check_header_Inl:
  assumes "check_header header jpeg = Inl rep"
  shows "\<exists>code msg. rep = frame_error (req_frame_id header) code msg \<and> code \<in> {''internal'', ''invalid_image''} \<and>
     (code = ''invalid_image'' \<longrightarrow> take 3 jpeg \<noteq> [0xFF, 0xD8, 0xFF])"
proof (cases "as_nonempty_str (jget header ''frame_id'')")
  case None
  then have "req_frame_id header = []" by (auto simp: req_frame_id_def split: option.splits json.splits if_splits)
  moreover from assms None
  have "rep = frame_error [] ''internal'' ''header.frame_id missing or not a non-empty string''"
    by (simp add: check_header_def)
  ultimately show ?thesis by (intro exI [of _ "''internal''"] exI [of _ "''header.frame_id missing or not a non-empty string''"]) simp
next
  case (Some fid)
  then have "req_frame_id header = fid" by (simp add: as_nonempty_str_Some req_frame_id_def)
  with assms Some show ?thesis
    by (auto simp: check_header_def Let_def split: if_splits option.splits)
qed

lemma check_header_Inr:
  assumes "check_header header jpeg = Inr (fid, p, md, task)"
  shows "req_frame_id header = fid \<and> fid \<noteq> [] \<and> jget header ''prompt'' = Some (JStr p) \<and> p \<noteq> [] \<and> length p \<le> 16384 \<and>
    jget header ''generation_mode'' = Some md \<and> GenerationMode md \<and> jget header ''prompt_task'' = Some task \<and>
    take 3 jpeg = [0xFF, 0xD8, 0xFF]"
  using assms
  by (auto simp: check_header_def as_nonempty_str_Some req_frame_id_def GenerationMode_def Let_def
      split: if_splits option.splits)

lemma timed_inference_Inr:
  "timed_inference app libs wd jpeg p md task = (Inr (r, tot), wd') \<Longrightarrow>
   \<exists>wd1 wd2. run (engine app) (gen_cfg app) wd1 jpeg (JStr p) md task = (Inr r, wd2)"
  by (auto simp: timed_inference_def Let_def split: prod.splits sum.splits if_splits)

lemma infer_cases:
  assumes "infer app libs wd header jpeg = (res, wd')"
  obtains
    (rejected) code msg where "check_header header jpeg = Inl (frame_error (req_frame_id header) code msg)"
      "code \<in> {''internal'', ''invalid_image''}" "res = frame_error (req_frame_id header) code msg" "wd' = wd"
  | (failed) fid p md task e where "check_header header jpeg = Inr (fid, p, md, task)"
      "timed_inference app libs wd jpeg p md task = (Inl e, wd')"
      "res = (if exc_isa (exc_cls e) ValueError then frame_error fid ''invalid_image'' (exc_msg e) else Inl e)"
  | (deviated) fid p md task r tot where "check_header header jpeg = Inr (fid, p, md, task)"
      "timed_inference app libs wd jpeg p md task = (Inr (r, tot), wd')" "ir_kind r = KIND_DEVIATION"
      "res = frame_error fid ''model_deviation'' (the (deviation_message r))"
  | (success) fid p md task r tot where "check_header header jpeg = Inr (fid, p, md, task)"
      "timed_inference app libs wd jpeg p md task = (Inr (r, tot), wd')" "ir_kind r \<noteq> KIND_DEVIATION"
      "res = Inr (reply_body fid md r tot)"
proof (cases "check_header header jpeg")
  case (Inl rep)
  from check_header_Inl [OF Inl] obtain code msg where
    "rep = frame_error (req_frame_id header) code msg" "code \<in> {''internal'', ''invalid_image''}" by blast
  with Inl assms rejected show thesis by (auto simp: infer_def)
next
  case (Inr x)
  obtain fid p md task where x: "x = (fid, p, md, task)" by (cases x) auto
  obtain tr wd1 where t: "timed_inference app libs wd jpeg p md task = (tr, wd1)" by fastforce
  show thesis
  proof (cases tr)
    case (Inl e)
    show thesis by (rule failed [OF Inr [unfolded x]]) (use assms Inr x t Inl in \<open>auto simp: infer_def\<close>)
  next
    case i: (Inr y)
    obtain r tot where y: "y = (r, tot)" by (cases y) auto
    show thesis
    proof (cases "ir_kind r = KIND_DEVIATION")
      case True
      show thesis by (rule deviated [OF Inr [unfolded x] _ True]) (use assms Inr x t i y True in \<open>auto simp: infer_def\<close>)
    next
      case False
      show thesis by (rule success [OF Inr [unfolded x] _ False]) (use assms Inr x t i y False in \<open>auto simp: infer_def\<close>)
    qed
  qed
qed

lemma infer_accepted:
  assumes "infer app libs wd header jpeg = (Inr reply, wd')" and "short_answers (engine app)"
  shows "infer_accepts reply \<and> jget reply ''frame_id'' = Some (JStr (req_frame_id header))"
  using assms(1)
proof (cases rule: infer_cases)
  case (rejected code msg)
  from frame_error_accepted [OF rejected(3) [symmetric]] show ?thesis by blast
next
  case (failed fid p md task e)
  then have "frame_error fid ''invalid_image'' (exc_msg e) = Inr reply" by (simp split: if_splits)
  from frame_error_accepted [OF this] check_header_Inr [OF failed(1)] show ?thesis by simp
next
  case (deviated fid p md task r tot)
  from frame_error_accepted [OF deviated(4) [symmetric]] check_header_Inr [OF deviated(1)] show ?thesis by simp
next
  case (success fid p md task r tot)
  from timed_inference_Inr [OF success(2)] obtain wd1 wd2 where
    r: "run (engine app) (gen_cfg app) wd1 jpeg (JStr p) md task = (Inr r, wd2)" by blast
  from reply_body_accepted [OF r assms(2) success(3)] check_header_Inr [OF success(1)] success(4)
  show ?thesis by auto
qed

lemma serialize_error:
  assumes "is_Response r" "jget r ''type'' = Some (JStr ''error'')"
  shows "jget (serialize_response print r) k = jget r k"
  by (rule serialize_same [OF assms]) (auto simp: Response_out_def)

lemma infer_printed:
  assumes "infer app libs wd header jpeg = (Inr reply, wd')" and "short_answers (engine app)" and "shortest_hundredths print"
  shows "jget (serialize_response print (without ''ok'' reply)) k = jget (without ''ok'' reply) k"
proof -
  have error: ?thesis if "frame_error fid code msg = Inr reply" for fid code msg
    using frame_error_accepted [OF that] infer_accepts_Response by (intro serialize_error) (auto simp: jget_without)
  from assms(1) show ?thesis
  proof (cases rule: infer_cases)
    case (failed fid p md task e)
    then show ?thesis using error [of fid "''invalid_image''" "exc_msg e"] by (simp split: if_splits)
  next
    case (success fid p md task r tot)
    from timed_inference_Inr [OF success(2)] check_header_Inr [OF success(1)] obtain wd1 wd2 where
      "run (engine app) (gen_cfg app) wd1 jpeg (JStr p) md task = (Inr r, wd2)" "GenerationMode md" by blast
    from reply_body_printed [OF this(1) assms(2) success(3) this(2) assms(3)] success(4) show ?thesis by simp
  qed (use error in \<open>metis+\<close>)
qed

section \<open>Lemmas on connections\<close>

text \<open>A lost link stays lost: after a failed \<open>drain()\<close> every later write fails as well.\<close>

definition loss_is_final :: "writer \<Rightarrow> bool" where
  "loss_is_final wr \<longleftrightarrow> (\<forall>n m. drain_error wr n \<noteq> None \<longrightarrow> n < m \<longrightarrow> closing wr m \<or> drain_error wr m \<noteq> None)"

definition same_link :: "writer \<Rightarrow> writer \<Rightarrow> bool" where
  "same_link wr wr' \<longleftrightarrow> closing wr' = closing wr \<and> drain_error wr' = drain_error wr"

lemma same_link_refl [simp]: "same_link wr wr"
  by (simp add: same_link_def)

lemma same_link_trans: "same_link a b \<Longrightarrow> same_link b c \<Longrightarrow> same_link a c"
  by (simp add: same_link_def)

lemma same_link_final: "same_link wr wr' \<Longrightarrow> loss_is_final wr' \<longleftrightarrow> loss_is_final wr"
  by (simp add: same_link_def loss_is_final_def)

lemma write_bytes_link: "write_bytes body wr = (r, wr') \<Longrightarrow> same_link wr wr'"
  by (auto simp: write_bytes_def write_frame_def same_link_def Let_def split: sum.splits if_splits)

lemma write_bytes_Inr:
  "write_bytes body wr = (Inr u, wr') \<Longrightarrow>
   \<exists>d. body = Inr d \<and> length d \<le> MAX_FRAME_BYTES \<and> sent wr' = sent wr @ frame_bytes d"
  by (auto simp: write_bytes_def dest: write_frame_ok split: sum.splits)

text \<open>A failed write either sent nothing, or the link is lost.\<close>

definition lost :: "writer \<Rightarrow> bool" where
  "lost wr \<longleftrightarrow> (\<exists>n < attempts wr. drain_error wr n \<noteq> None)"

lemma write_bytes_Inl:
  "write_bytes body wr = (Inl e, wr') \<Longrightarrow> sent wr' = sent wr \<or> lost wr'"
  by (auto simp: write_bytes_def write_frame_def lost_def Let_def split: sum.splits if_splits option.splits)

lemma lost_write:
  assumes "lost wr" "loss_is_final wr"
  shows "\<exists>e. fst (write_bytes body wr) = Inl e"
proof (cases body)
  case (Inl e)
  then show ?thesis by (simp add: write_bytes_def)
next
  case (Inr d)
  have "closing wr (attempts wr) \<or> drain_error wr (attempts wr) \<noteq> None"
    using assms unfolding lost_def loss_is_final_def by blast
  then show ?thesis using Inr by (auto simp: write_bytes_def write_frame_def Let_def)
qed

lemma route_link: "route app libs header fid payload wr wd = (r, wr', wd') \<Longrightarrow> same_link wr wr'"
  by (auto simp: route_def Let_def dest: write_bytes_link split: prod.splits if_splits)

text \<open>What one reply says: the serialization of the payload asked for, or of a body the Rust side accepts.\<close>

definition answers ::
  "('img, 'prof, 'vis, 'inp, 'tok, 'w) worker_app \<Rightarrow> 'w worker_libs \<Rightarrow> byte list \<times> byte list \<Rightarrow> byte list \<Rightarrow> bool" where
  "answers app libs request body \<longleftrightarrow> (\<exists>reply. json_dumps libs reply = Inr body \<and>
     (case json_loads libs (fst request) of
        Inl _ \<Rightarrow> infer_accepts reply \<and> jget reply ''frame_id'' = Some (JStr [])
      | Inr header \<Rightarrow>
          is_obj header \<and> jget header ''kind'' = Some (JStr ''capabilities'') \<and> capabilities app = Inr reply \<or>
          is_obj header \<and> jget header ''kind'' = Some (JStr ''info'') \<and> (\<exists>wd. info libs wd = Inr reply) \<or>
          infer_accepts reply \<and>
            jget reply ''frame_id'' = Some (JStr (if is_obj header then req_frame_id header else []))))"

lemma err_frame_bytes_Inr:
  "err_frame_bytes libs fid code msg = Inr d \<Longrightarrow> \<exists>reply. json_dumps libs reply = Inr d \<and> infer_accepts reply \<and>
   jget reply ''frame_id'' = Some (JStr fid)"
  using frame_error_accepted by (fastforce simp: err_frame_bytes_def bindr_eq_Inr)

lemma route_Inr:
  assumes "route app libs header (req_frame_id header) payload wr wd = (Inr u, wr', wd')"
    and "json_loads libs hb = Inr header" "is_obj header" "short_answers (engine app)"
  shows "\<exists>d. answers app libs (hb, payload) d \<and> length d \<le> MAX_FRAME_BYTES \<and> sent wr' = sent wr @ frame_bytes d"
proof -
  obtain body wd1 where b: "write_bytes body wr = (Inr u, wr')"
    and d: "body = bindr (capabilities app) (json_dumps libs) \<and> jget header ''kind'' = Some (JStr ''capabilities'') \<or>
      body = bindr (info libs wd) (json_dumps libs) \<and> jget header ''kind'' = Some (JStr ''info'') \<or>
      (\<exists>resp. infer app libs wd header payload = (resp, wd1) \<and> body = bindr resp (json_dumps libs)) \<or>
      body = err_frame_bytes libs (req_frame_id header) ''internal'' ''unknown header.kind''"
    using assms(1) by (auto simp: route_def Let_def split: prod.splits if_splits)
  from write_bytes_Inr [OF b] obtain data where w: "body = Inr data" "length data \<le> MAX_FRAME_BYTES"
    "sent wr' = sent wr @ frame_bytes data" by blast
  have "answers app libs (hb, payload) data"
    using d
  proof (elim disjE exE conjE)
    fix resp assume i: "infer app libs wd header payload = (resp, wd1)" and bd: "body = bindr resp (json_dumps libs)"
    from bd w(1) have "bindr resp (json_dumps libs) = Inr data" by simp
    then obtain reply where r: "resp = Inr reply" "json_dumps libs reply = Inr data" by (auto simp: bindr_eq_Inr)
    from infer_accepted [OF i [unfolded r(1)] assms(4)] r assms(2,3) show ?thesis by (auto simp: answers_def)
  next
    assume "body = err_frame_bytes libs (req_frame_id header) ''internal'' ''unknown header.kind''"
    from err_frame_bytes_Inr [OF this [symmetric, unfolded w(1)]] assms(2,3) show ?thesis by (auto simp: answers_def)
  qed (use w(1) assms(2,3) in \<open>auto simp: answers_def Inr_eq_bindr\<close>)
  with w show ?thesis by blast
qed

lemma write_and_continue_None:
  "write_and_continue body wr = (None, wr') \<Longrightarrow> \<exists>u. write_bytes body wr = (Inr u, wr')"
  by (auto simp: write_and_continue_def split: prod.splits sum.splits)

lemma write_and_continue_outcome:
  "write_and_continue body wr = (oc, wr') \<Longrightarrow> oc = None \<or> (\<exists>e. oc = Some (Crashed e))"
  by (auto simp: write_and_continue_def split: prod.splits sum.splits)

lemma write_and_exit_outcome:
  assumes "write_and_exit body wr = (oc, wr')"
  shows "oc = Some (HardExit 75) \<or> (\<exists>e. oc = Some (Crashed e) \<and> \<not> exc_isa (exc_cls e) Exception)"
proof -
  obtain r w where w: "write_bytes body wr = (r, w)" by fastforce
  show ?thesis
  proof (cases r)
    case (Inl e)
    with assms w show ?thesis
      by (cases "exc_isa (exc_cls e) Exception") (auto simp add: write_and_exit_def WORKER_RESTART_EXIT_CODE_def)
  next
    case (Inr u)
    with assms w show ?thesis by (simp add: write_and_exit_def WORKER_RESTART_EXIT_CODE_def)
  qed
qed

text \<open>The two kinds of handlers: those that give the process up, and those that answer and go on.\<close>

definition fatal :: "py_exc \<Rightarrow> bool" where
  "fatal e \<longleftrightarrow> exc_isa (exc_cls e) OutOfMemoryError \<or> exc_isa (exc_cls e) TimeoutError"

lemma handle_exception_fatal:
  assumes "fatal e"
  shows "\<exists>msg. handle_exception libs fid e wr = write_and_exit (err_frame_bytes libs fid ''internal'' msg) wr"
proof (cases "exc_isa (exc_cls e) OutOfMemoryError")
  case True
  then show ?thesis unfolding handle_exception_def by (simp only: if_True) blast
next
  case False
  with assms have "exc_isa (exc_cls e) TimeoutError" by (simp add: fatal_def)
  with False show ?thesis unfolding handle_exception_def by (simp only: if_True if_False) blast
qed

lemma handle_exception_mild:
  assumes "\<not> fatal e"
  shows "handle_exception libs fid e wr = (Some (Crashed e), wr) \<or>
   handle_exception libs fid e wr = write_and_continue (err_frame_bytes libs fid ''internal'' (exc_msg e)) wr"
proof -
  from assms have "\<not> exc_isa (exc_cls e) OutOfMemoryError" "\<not> exc_isa (exc_cls e) TimeoutError"
    by (simp_all add: fatal_def)
  then show ?thesis unfolding handle_exception_def by (simp only: if_False) (simp only: split: if_split, blast)
qed

lemma handle_exception_None:
  assumes "handle_exception libs fid e wr = (None, wr')"
  shows "\<exists>msg. write_and_continue (err_frame_bytes libs fid ''internal'' msg) wr = (None, wr')"
proof (cases "fatal e")
  case True
  from handle_exception_fatal [OF this] assms write_and_exit_outcome show ?thesis by (metis option.distinct(1))
next
  case False
  from handle_exception_mild [OF this, of libs fid wr] assms show ?thesis by auto
qed

lemma handle_exception_outcome:
  assumes "handle_exception libs fid e wr = (Some oc, wr')"
  shows "oc = HardExit 75 \<and> fatal e \<or> (\<exists>e'. oc = Crashed e')"
proof (cases "fatal e")
  case True
  from handle_exception_fatal [OF this] assms write_and_exit_outcome True show ?thesis by (metis option.inject)
next
  case False
  from handle_exception_mild [OF this, of libs fid wr] assms
  consider "(Some (Crashed e), wr) = (Some oc, wr')"
    | "write_and_continue (err_frame_bytes libs fid ''internal'' (exc_msg e)) wr = (Some oc, wr')" by auto
  then show ?thesis by cases (use write_and_continue_outcome in \<open>auto dest!: write_and_continue_outcome\<close>)
qed

lemma handle_request_outcome:
  assumes "handle_request app libs hb payload wr wd = (Some oc, wr', wd')"
  shows "(\<exists>e. oc = Crashed e) \<or> oc = HardExit 75 \<and>
    (\<exists>header e wr1. json_loads libs hb = Inr header \<and> is_obj header \<and>
       route app libs header (req_frame_id header) payload wr wd = (Inl e, wr1, wd') \<and> fatal e)"
proof (cases "json_loads libs hb")
  case (Inl e)
  with assms show ?thesis
    by (auto simp: handle_request_def Let_def dest: write_and_continue_outcome split: prod.splits if_splits)
next
  case (Inr header)
  show ?thesis
  proof (cases "is_obj header")
    case False
    with Inr assms show ?thesis by (auto simp: handle_request_def Let_def dest: write_and_continue_outcome split: prod.splits)
  next
    case True
    obtain r wr1 wd1 where rt: "route app libs header (req_frame_id header) payload wr wd = (r, wr1, wd1)"
      by (metis prod_cases3)
    show ?thesis
    proof (cases r)
      case i: (Inr u)
      with assms Inr True rt show ?thesis by (simp add: handle_request_def)
    next
      case (Inl e)
      with assms Inr True rt have "handle_exception libs (req_frame_id header) e wr1 = (Some oc, wr')" "wd1 = wd'"
        by (auto simp: handle_request_def Let_def split: prod.splits)
      from handle_exception_outcome [OF this(1)] rt Inr True Inl this(2) show ?thesis by blast
    qed
  qed
qed

lemma handle_request_None:
  assumes "handle_request app libs hb payload wr wd = (None, wr', wd')"
    and "short_answers (engine app)" "loss_is_final wr"
  shows "\<exists>d. answers app libs (hb, payload) d \<and> length d \<le> MAX_FRAME_BYTES \<and> sent wr' = sent wr @ frame_bytes d \<and>
    same_link wr wr'"
proof -
  have early: ?thesis
    if w: "write_and_continue (err_frame_bytes libs [] ''internal'' msg) wr = (None, wr')"
      and j: "\<And>h. json_loads libs hb = Inr h \<Longrightarrow> \<not> is_obj h" for msg
  proof -
    from write_and_continue_None [OF w] obtain u where u: "write_bytes (err_frame_bytes libs [] ''internal'' msg) wr = (Inr u, wr')" ..
    from write_bytes_Inr [OF u] obtain d where d: "err_frame_bytes libs [] ''internal'' msg = Inr d"
      "length d \<le> MAX_FRAME_BYTES" "sent wr' = sent wr @ frame_bytes d" by blast
    from err_frame_bytes_Inr [OF d(1)] j have "answers app libs (hb, payload) d"
      by (auto simp: answers_def split: sum.splits)
    with d write_bytes_link [OF u] show ?thesis by blast
  qed
  show ?thesis
  proof (cases "json_loads libs hb")
    case (Inl e)
    with assms(1) early show ?thesis by (auto simp: handle_request_def Let_def split: prod.splits if_splits)
  next
    case (Inr header)
    show ?thesis
    proof (cases "is_obj header")
      case False
      with Inr assms(1) early show ?thesis by (auto simp: handle_request_def Let_def split: prod.splits)
    next
      case True
      obtain r wr1 wd1 where rt: "route app libs header (req_frame_id header) payload wr wd = (r, wr1, wd1)"
        by (metis prod_cases3)
      show ?thesis
      proof (cases r)
        case i: (Inr u)
        with assms(1) Inr True rt have "wr1 = wr'" by (simp add: handle_request_def)
        with route_Inr [OF rt [unfolded i] Inr True assms(2)] route_link [OF rt] show ?thesis by blast
      next
        case (Inl e)
        with assms(1) Inr True rt have "handle_exception libs (req_frame_id header) e wr1 = (None, wr')"
          by (auto simp: handle_request_def Let_def split: prod.splits)
        then obtain msg u where u: "write_bytes (err_frame_bytes libs (req_frame_id header) ''internal'' msg) wr1 = (Inr u, wr')"
          using handle_exception_None write_and_continue_None by blast
        have "loss_is_final wr1" using route_link [OF rt] assms(3) same_link_final by blast
        then have "\<not> lost wr1" using lost_write [of wr1 "err_frame_bytes libs (req_frame_id header) ''internal'' msg"] u by auto
        moreover have "sent wr1 = sent wr \<or> lost wr1"
          using rt Inl by (auto simp: route_def Let_def dest!: write_bytes_Inl split: prod.splits if_splits)
        ultimately have s: "sent wr1 = sent wr" by blast
        from write_bytes_Inr [OF u] obtain d where d: "err_frame_bytes libs (req_frame_id header) ''internal'' msg = Inr d"
          "length d \<le> MAX_FRAME_BYTES" "sent wr' = sent wr1 @ frame_bytes d" by blast
        from err_frame_bytes_Inr [OF d(1)] Inr True have "answers app libs (hb, payload) d" by (auto simp: answers_def)
        with d s write_bytes_link [OF u] route_link [OF rt] same_link_trans show ?thesis by metis
      qed
    qed
  qed
qed

text \<open>The requests of a stream: its complete pairs of frames.\<close>

function requests :: "byte list \<Rightarrow> (byte list \<times> byte list) list" where
  "requests stream = (case read_frame stream of
     Inl _ \<Rightarrow> []
   | Inr (h, s1) \<Rightarrow> (case read_frame s1 of Inl _ \<Rightarrow> [] | Inr (p, s2) \<Rightarrow> (h, p) # requests s2))"
  by pat_completeness auto
termination by (relation "measure length") (auto dest!: read_frame_shorter)

declare requests.simps [simp del]

lemma serve_closed:
  assumes "serve app libs stream wr wd = (Closed, wr', wd')" "short_answers (engine app)" "loss_is_final wr"
  shows "\<exists>bodies. sent wr' = sent wr @ concat (map frame_bytes bodies) \<and> (\<forall>b \<in> set bodies. length b \<le> MAX_FRAME_BYTES) \<and>
    list_all2 (answers app libs) (requests stream) bodies"
  using assms
proof (induction "length stream" arbitrary: stream wr wd rule: less_induct)
  case less
  show ?case
  proof (cases "\<exists>h s1 p s2. read_frame stream = Inr (h, s1) \<and> read_frame s1 = Inr (p, s2)")
    case False
    then have "requests stream = []"
      by (subst requests.simps) (auto split: sum.splits prod.splits)
    moreover have "sent wr' = sent wr"
      using less.prems(1) False by (subst (asm) serve.simps) (auto split: sum.splits prod.splits if_splits)
    ultimately show ?thesis by (intro exI [of _ "[]"]) simp
  next
    case True
    then obtain h s1 p s2 where r: "read_frame stream = Inr (h, s1)" "read_frame s1 = Inr (p, s2)" by blast
    obtain oc wr1 wd1 where hr: "handle_request app libs h p wr wd = (oc, wr1, wd1)" by (metis prod_cases3)
    have sv: "serve app libs stream wr wd = (case oc of Some o' \<Rightarrow> (o', wr1, wd1) | None \<Rightarrow> serve app libs s2 wr1 wd1)"
      by (subst serve.simps) (simp add: r hr split: option.splits)
    have oc: "oc = None"
    proof (cases oc)
      case (Some o')
      with sv less.prems(1) have "o' = Closed" by simp
      with Some hr have "handle_request app libs h p wr wd = (Some Closed, wr1, wd1)" by simp
      from handle_request_outcome [OF this] show ?thesis by simp
    qed
    from handle_request_None [OF hr [unfolded oc] less.prems(2,3)] obtain d where
      d: "answers app libs (h, p) d" "length d \<le> MAX_FRAME_BYTES" "sent wr1 = sent wr @ frame_bytes d" "same_link wr wr1" by blast
    have short: "length s2 < length stream" using read_frame_shorter [OF r(1)] read_frame_shorter [OF r(2)] by linarith
    have next_turn: "serve app libs s2 wr1 wd1 = (Closed, wr', wd')" using sv oc less.prems(1) by simp
    have "loss_is_final wr1" using less.prems(3) same_link_final [OF d(4)] by simp
    from less.hyps [OF short next_turn less.prems(2) this] obtain bodies where
      b: "sent wr' = sent wr1 @ concat (map frame_bytes bodies)" "\<forall>b \<in> set bodies. length b \<le> MAX_FRAME_BYTES"
      "list_all2 (answers app libs) (requests s2) bodies" by blast
    have "requests stream = (h, p) # requests s2" by (subst requests.simps) (simp add: r)
    with b d show ?thesis by (intro exI [of _ "d # bodies"]) simp
  qed
qed

definition manifest_text :: "(string \<times> nat) list \<Rightarrow> string" where
  "manifest_text items = concat (map manifest_line items)"

lemma manifest_hash:
  "compute_weight_manifest_sha256 dir = (if manifest_items dir = [] then None
     else Some (sha256_hex (utf8 (manifest_text (manifest_items dir)))))"
proof -
  have "foldl (\<lambda>h item. sha256_update h (utf8 (manifest_line item))) sha256_new items =
      foldl sha256_update sha256_new (map (\<lambda>item. utf8 (manifest_line item)) items)" for items
    by (simp add: foldl_map)
  then show ?thesis
    using utf8_concat [of "map manifest_line (manifest_items dir)"]
    by (simp add: compute_weight_manifest_sha256_def Let_def sha256_chunks manifest_text_def comp_def)
qed

text \<open>The manifest text determines the list: a name has no line break, and the size is what follows the last colon.\<close>

lemma manifest_line_inj:
  assumes "a @ '':'' @ dec_digits n = b @ '':'' @ dec_digits m"
  shows "a = b \<and> n = m"
proof -
  have colon: "CHR '':'' \<notin> set (dec_digits k)" for k
    using dec_digits_isdigit [of "CHR '':''" k] by (auto simp: py_isdigit_def)
  have last_part: "takeWhile (\<lambda>c. c \<noteq> CHR '':'') (rev (x @ '':'' @ dec_digits k)) = rev (dec_digits k)" for x k
    using takeWhile_append_stop [of "rev (dec_digits k)" "\<lambda>c. c \<noteq> CHR '':''" "CHR '':''" "rev x"] colon [of k]
    by auto
  from last_part [of a n] last_part [of b m] have d: "dec_digits n = dec_digits m"
    unfolding assms by (metis rev_rev_ident)
  then have "n = m" using nat_of_dec_digits by metis
  with assms show ?thesis by simp
qed

lemma manifest_line_ne [simp]: "manifest_line item \<noteq> []"
  by (simp add: manifest_line_def split: prod.splits)

lemma manifest_text_inj:
  assumes "\<forall>(name, sz) \<in> set xs. CHR 0x0A \<notin> set name" "\<forall>(name, sz) \<in> set ys. CHR 0x0A \<notin> set name"
    and "manifest_text xs = manifest_text ys"
  shows "xs = ys"
  using assms
proof (induction xs arbitrary: ys)
  case Nil
  then show ?case by (cases ys) (auto simp: manifest_text_def)
next
  case (Cons x xs)
  obtain a n where x: "x = (a, n)" by (cases x) auto
  have "ys \<noteq> []" using Cons.prems(3) by (auto simp: manifest_text_def manifest_line_def split: prod.splits)
  then obtain b m ys' where ys: "ys = (b, m) # ys'" by (cases ys) auto
  have nl: "CHR 0x0A \<notin> set (dec_digits k)" for k
    using dec_digits_isdigit [of "CHR 0x0A" k] by (auto simp: py_isdigit_def)
  let ?A = "a @ '':'' @ dec_digits n" and ?B = "b @ '':'' @ dec_digits m"
  have t: "manifest_text (x # xs) = ?A @ CHR 0x0A # manifest_text xs"
    "manifest_text ys = ?B @ CHR 0x0A # manifest_text ys'" by (simp_all add: manifest_text_def manifest_line_def x ys)
  have free: "\<forall>c \<in> set ?A. c \<noteq> CHR 0x0A" "\<forall>c \<in> set ?B. c \<noteq> CHR 0x0A"
    using Cons.prems(1,2) nl by (auto simp: x ys)
  have "takeWhile (\<lambda>c. c \<noteq> CHR 0x0A) (manifest_text (x # xs)) = ?A"
    unfolding t by (rule takeWhile_append_stop [OF free(1)]) simp
  moreover have "takeWhile (\<lambda>c. c \<noteq> CHR 0x0A) (manifest_text ys) = ?B"
    unfolding t by (rule takeWhile_append_stop [OF free(2)]) simp
  ultimately have ab: "?A = ?B" using Cons.prems(3) by metis
  then have "manifest_text xs = manifest_text ys'" using Cons.prems(3) unfolding t by simp
  with Cons.IH [OF _ _ this] Cons.prems(1,2) manifest_line_inj [OF ab] show ?case by (simp add: x ys)
qed

lemma fatal_not_ValueError: "fatal e \<Longrightarrow> \<not> exc_isa (exc_cls e) ValueError"
  by (cases "exc_cls e") (simp_all add: fatal_def exc_isa_def numeral_eq_Suc)

lemma reply_body_code [simp]: "jget (reply_body fid md r tot) ''code'' = None"
  by (simp add: reply_body_def)

lemma serve_hard_exit:
  assumes "serve app libs stream wr wd = (HardExit c, wr', wd')"
  shows "c = 75 \<and> (\<exists>hb payload header wr0 wd0 e wr1. (hb, payload) \<in> set (requests stream) \<and>
    json_loads libs hb = Inr header \<and> is_obj header \<and>
    route app libs header (req_frame_id header) payload wr0 wd0 = (Inl e, wr1, wd') \<and> fatal e)"
  using assms
proof (induction "length stream" arbitrary: stream wr wd rule: less_induct)
  case less
  obtain h s1 p s2 where r: "read_frame stream = Inr (h, s1)" "read_frame s1 = Inr (p, s2)"
    using less.prems by (subst (asm) serve.simps) (auto split: sum.splits prod.splits if_splits)
  have rq: "requests stream = (h, p) # requests s2" by (subst requests.simps) (simp add: r)
  obtain oc wr1 wd1 where hr: "handle_request app libs h p wr wd = (oc, wr1, wd1)" by (metis prod_cases3)
  have sv: "serve app libs stream wr wd = (case oc of Some o' \<Rightarrow> (o', wr1, wd1) | None \<Rightarrow> serve app libs s2 wr1 wd1)"
    by (subst serve.simps) (simp add: r hr split: option.splits)
  show ?case
  proof (cases oc)
    case None
    have short: "length s2 < length stream" using read_frame_shorter [OF r(1)] read_frame_shorter [OF r(2)] by linarith
    have "serve app libs s2 wr1 wd1 = (HardExit c, wr', wd')" using sv None less.prems by simp
    from less.hyps [OF short this] show ?thesis unfolding rq by (meson list.set_intros(2))
  next
    case (Some o')
    with sv less.prems have o': "o' = HardExit c" "wd1 = wd'" by simp_all
    from handle_request_outcome [OF hr [unfolded Some]] o' obtain header e wrx where
      x: "c = 75" "json_loads libs h = Inr header" "is_obj header"
      "route app libs header (req_frame_id header) p wr wd = (Inl e, wrx, wd')" "fatal e" by auto
    have mem: "(h, p) \<in> set (requests stream)" by (simp add: rq)
    show ?thesis by (intro conjI exI) (rule x(1), rule mem, rule x(2), rule x(3), rule x(4), rule x(5))
  qed
qed

section \<open>A connection for the witnesses\<close>

definition demo_calibration :: calibration_result where
  "demo_calibration = \<lparr>cr_n_runs = 1, median_latency_ms = 1, p95_latency_ms = 1, min_latency_ms = 1, max_latency_ms = 1,
     median_fps = 1000, test_image_path = ''a.jpg'', test_prompt = SCENE_TEXT_EXACT\<rparr>"

definition demo_app :: "(int \<times> int, unit, unit, string, unit, nat) worker_app" where
  "demo_app = \<lparr>engine = demo_backend sample_answer, gen_cfg = demo_cfg, model_dir = ''m'', attn_impl = ''sdpa'',
     model_manifest_sha256 = None, calibration = demo_calibration, inference_timeout_s = 600\<rparr>"

definition demo_header :: "string \<Rightarrow> json" where
  "demo_header task = JObj [(''kind'', JStr ''frame''), (''frame_id'', JStr ''f1''), (''prompt'', JStr ''find it''),
     (''generation_mode'', JStr ''hybrid''), (''prompt_task'', JStr task)]"

definition demo_libs :: "bool \<Rightarrow> nat worker_libs" where
  "demo_libs late = \<lparr>json_loads = (\<lambda>_. Inr (demo_header ''detection'')), json_dumps = (\<lambda>_. Inr [7]),
     times_out = (\<lambda>_ _. late), torch_arches = Inr [], gpu_name = Inr [], mem_get_info = (\<lambda>_. Inr (1, 2))\<rparr>"

definition demo_writer :: writer where
  "demo_writer = \<lparr>sent = [], attempts = 0, closing = (\<lambda>_. False), drain_error = (\<lambda>_. None)\<rparr>"

definition demo_stream :: "byte list" where
  "demo_stream = frame_bytes [1] @ frame_bytes demo_jpeg"

lemma demo_short: "short_answers (engine demo_app)"
proof -
  have "length sample_answer < 2 ^ 30" by (simp add: sample_answer_def show_answer_def show_group_def show_blocks_def block_text_def dec_digits.simps)
  then show ?thesis by (simp add: short_answers_def demo_app_def demo_backend_def answer_text_def)
qed

lemma demo_check: "check_header (demo_header t) demo_jpeg = Inr (''f1'', ''find it'', JStr ''hybrid'', JStr t)"
  by (simp add: check_header_def demo_header_def demo_jpeg_def Let_def)

lemma demo_infer: "\<exists>reply. infer demo_app (demo_libs False) wd (demo_header ''detection'') demo_jpeg = (Inr reply, wd + 5)"
proof -
  have p: "''find it'' \<noteq> []" and t: "''detection'' \<in> fst ` set EXPECTED_SHAPE" by (simp_all add: EXPECTED_SHAPE_def)
  note g = demo_geometry [of "''detection''" "''find it''", simplified]
  from demo_run_at [OF p t g, of "Suc wd"] obtain l plan where
    r: "run (demo_backend sample_answer) demo_cfg (Suc wd) demo_jpeg (JStr ''find it'') (JStr ''hybrid'') (JStr ''detection'') =
     (Inr (resolve_variant ''detection'' ([detection_to_json (make_box ''cat'' 10 20 30 40 640 480)], 0,
        [point_to_json (make_point ''cat'' 5 6 640 480)], 0, 0) sample_answer l 640 480 plan), Suc wd + 3)" by blast
  have k: "ir_kind (resolve_variant ''detection'' ([detection_to_json (make_box ''cat'' 10 20 30 40 640 480)], 0,
        [point_to_json (make_point ''cat'' 5 6 640 480)], 0, 0) sample_answer l 640 480 plan) = KIND_BOXES"
    unfolding resolve_variant_cases(1) [OF t refl] by simp
  have pc: "perf_counter (demo_backend sample_answer) n = (of_nat n, Suc n)" for n by (simp add: demo_backend_def)
  have app: "engine demo_app = demo_backend sample_answer" "gen_cfg demo_app = demo_cfg" by (simp_all add: demo_app_def)
  have lib: "times_out (demo_libs False) s w = False" for s w by (simp add: demo_libs_def)
  show ?thesis
    by (simp only: infer_def demo_check sum.case prod.case timed_inference_def app pc Let_def r lib if_False)
       (simp add: k)
qed

lemma demo_stream_frames:
  "read_frame demo_stream = Inr ([1], frame_bytes demo_jpeg)" "read_frame (frame_bytes demo_jpeg) = Inr (demo_jpeg, [])"
  "requests demo_stream = [([1], demo_jpeg)]"
proof -
  have e: "read_frame [] = raise IncompleteReadError ''incomplete read''"
    by (simp add: read_frame_def readexactly_def LEN_PREFIX_def)
  show a: "read_frame demo_stream = Inr ([1], frame_bytes demo_jpeg)"
    unfolding demo_stream_def by (rule read_frame_append) (simp add: MAX_FRAME_BYTES_def)
  show b: "read_frame (frame_bytes demo_jpeg) = Inr (demo_jpeg, [])"
    using read_frame_append [of demo_jpeg "[]"] by (simp add: MAX_FRAME_BYTES_def demo_jpeg_def)
  have "requests [] = []" by (subst requests.simps) (simp add: e)
  then show "requests demo_stream = [([1], demo_jpeg)]" by (subst requests.simps) (simp add: a b)
qed

lemma demo_route:
  assumes "infer demo_app (demo_libs late) 0 (demo_header ''detection'') demo_jpeg = (r, wd)"
  shows "route demo_app (demo_libs late) (demo_header ''detection'') fid demo_jpeg demo_writer 0 =
    (case r of Inl e \<Rightarrow> (Inl e, demo_writer, wd)
     | Inr reply \<Rightarrow> (Inr (), demo_writer\<lparr>sent := frame_bytes [7], attempts := 1\<rparr>, wd))"
  using assms
  by (cases r) (simp_all add: route_def demo_header_def [of "''detection''"] write_bytes_def demo_libs_def demo_writer_def
      write_frame_def MAX_FRAME_BYTES_def Let_def)

lemma demo_serve:
  assumes "handle_request demo_app (demo_libs late) [1] demo_jpeg demo_writer 0 = (oc, wr', wd')"
  shows "serve demo_app (demo_libs late) demo_stream demo_writer 0 =
    (case oc of None \<Rightarrow> (Closed, wr', wd') | Some oc \<Rightarrow> (oc, wr', wd'))"
proof -
  have "serve demo_app (demo_libs late) [] wr wd = (Closed, wr, wd)" for wr wd
    by (subst serve.simps) (simp add: read_frame_def readexactly_def LEN_PREFIX_def)
  with assms show ?thesis by (subst serve.simps) (simp add: demo_stream_frames split: option.splits)
qed

lemma demo_loads: "json_loads (demo_libs late) hb = Inr (demo_header ''detection'')" "is_obj (demo_header t)"
  by (simp_all add: demo_libs_def demo_header_def)

lemma demo_connection: "\<exists>wr' wd'. serve demo_app (demo_libs False) demo_stream demo_writer 0 = (Closed, wr', wd')"
proof -
  obtain reply where i: "infer demo_app (demo_libs False) 0 (demo_header ''detection'') demo_jpeg = (Inr reply, 5)"
    using demo_infer [of 0] by auto
  have "handle_request demo_app (demo_libs False) [1] demo_jpeg demo_writer 0 =
      (None, demo_writer\<lparr>sent := frame_bytes [7], attempts := 1\<rparr>, 5)"
    by (simp add: handle_request_def demo_loads demo_route [OF i])
  from demo_serve [OF this] show ?thesis by simp
qed

lemma demo_final: "loss_is_final demo_writer"
  by (simp add: loss_is_final_def demo_writer_def)

lemma demo_late:
  "\<exists>wd. timed_inference demo_app (demo_libs True) 0 demo_jpeg ''find it'' (JStr ''hybrid'') (JStr ''detection'') =
    (raise TimeoutError [], wd)"
  by (simp add: timed_inference_def demo_libs_def Let_def split: prod.splits)

lemma demo_exit: "\<exists>wr' wd'. serve demo_app (demo_libs True) demo_stream demo_writer 0 = (HardExit 75, wr', wd')"
proof -
  obtain wd where t: "timed_inference demo_app (demo_libs True) 0 demo_jpeg ''find it'' (JStr ''hybrid'') (JStr ''detection'') =
    (raise TimeoutError [], wd)" using demo_late by blast
  have "infer demo_app (demo_libs True) 0 (demo_header ''detection'') demo_jpeg = (raise TimeoutError [], wd)"
    by (simp add: infer_def demo_check t)
  note rt = demo_route [OF this]
  have f: "fatal (Exc TimeoutError [])" by (simp add: fatal_def)
  have "\<exists>wr'. write_and_exit (err_frame_bytes (demo_libs True) fid ''internal'' msg) demo_writer = (Some (HardExit 75), wr')" for fid msg
    by (simp add: write_and_exit_def write_bytes_def err_frame_bytes_def frame_error_def demo_libs_def
        write_frame_def demo_writer_def MAX_FRAME_BYTES_def WORKER_RESTART_EXIT_CODE_def Let_def)
  with handle_exception_fatal [OF f, of "demo_libs True" "req_frame_id (demo_header ''detection'')" demo_writer]
  obtain wr' where "handle_exception (demo_libs True) (req_frame_id (demo_header ''detection'')) (Exc TimeoutError []) demo_writer =
      (Some (HardExit 75), wr')" by metis
  then have "handle_request demo_app (demo_libs True) [1] demo_jpeg demo_writer 0 = (Some (HardExit 75), wr', wd)"
    by (simp add: handle_request_def demo_loads rt)
  from demo_serve [OF this] show ?thesis by simp
qed

section \<open>Properties\<close>

text \<open>C2.
  The contract with the Rust edge: whatever \<open>_infer\<close> returns, success, abstention, deviation or error, is a
  body that \<open>IpcClient::infer\<close> accepts (exactly the fields of its variant, each in the range of its Rust
  type, \<open>ok\<close> agreeing with the tag), and it carries the frame id of the request.
\<close>

theorem every_reply_accepted:
  assumes "infer app libs wd header jpeg = (Inr reply, wd')" and "short_answers (engine app)"
  shows "infer_accepts reply \<and> jget reply ''frame_id'' = Some (JStr (req_frame_id header))"
  using infer_accepted [OF assms] .

lemma every_reply_accepted_witness:
  "\<exists>reply. infer demo_app (demo_libs False) 0 (demo_header ''detection'') demo_jpeg = (Inr reply, 5) \<and>
     infer_accepts reply \<and> jget reply ''frame_id'' = Some (JStr (req_frame_id (demo_header ''detection'')))"
proof -
  obtain reply where i: "infer demo_app (demo_libs False) 0 (demo_header ''detection'') demo_jpeg = (Inr reply, 5)"
    using demo_infer [of 0] by auto
  from every_reply_accepted [OF i demo_short] i show ?thesis by blast
qed

text \<open>C3.
  Nothing is lost in the typed edge. Whatever \<open>_infer\<close> replies, the edge decodes it into its structs, narrows the pixel
  coordinates to 32-bit floats and prints it again; a client that reads the text gets, field by field, the value the worker
  sent. The comment at \<open>LabeledBox\<close> claims it of \<open>bbox_px\<close>; it holds since the worker rounds to hundredths, images have
  fewer than 10000 pixels a side, and the printer writes the fewest digits that read back.
\<close>

theorem reply_survives_typed_edge:
  assumes "infer app libs wd header jpeg = (Inr reply, wd')" and "short_answers (engine app)" and "shortest_hundredths print"
  shows "is_Response (serialize_response print (without ''ok'' reply)) \<and>
    (\<forall>k. k \<noteq> ''ok'' \<longrightarrow> jget (serialize_response print (without ''ok'' reply)) k = jget reply k)"
  using serialize_response [OF infer_accepts_Response] infer_accepted [OF assms(1,2)] infer_printed [OF assms]
  by (auto simp: jget_without)

lemma reply_survives_typed_edge_witness:
  "\<exists>reply. infer demo_app (demo_libs False) 0 (demo_header ''detection'') demo_jpeg = (Inr reply, 5) \<and>
     jget (serialize_response hundredths_text (without ''ok'' reply)) ''boxes'' = jget reply ''boxes''"
proof -
  obtain reply where i: "infer demo_app (demo_libs False) 0 (demo_header ''detection'') demo_jpeg = (Inr reply, 5)"
    using demo_infer [of 0] by auto
  from reply_survives_typed_edge [OF i demo_short hundredths_text_shortest] i show ?thesis by auto
qed

text \<open>C12.
  What the error codes mean. A reply has no code exactly when it is the body of a run that did not
  deviate; \<open>model_deviation\<close> is exactly a run that deviated; \<open>internal\<close> is only said before the engine was
  touched; \<open>invalid_image\<close> only for a payload without the JPEG marker or a \<open>ValueError\<close> of the engine;
  \<open>invalid_request\<close> is never said by the worker.
\<close>

theorem error_codes_meaning:
  assumes "infer app libs wd header jpeg = (Inr reply, wd')"
  shows "(jget reply ''code'' = None \<longleftrightarrow> (\<exists>fid p md task r tot. check_header header jpeg = Inr (fid, p, md, task) \<and>
      timed_inference app libs wd jpeg p md task = (Inr (r, tot), wd') \<and> ir_kind r \<noteq> KIND_DEVIATION \<and>
      reply = reply_body fid md r tot)) \<and>
    (jget reply ''code'' = Some (JStr ''model_deviation'') \<longleftrightarrow> (\<exists>fid p md task r tot.
      check_header header jpeg = Inr (fid, p, md, task) \<and>
      timed_inference app libs wd jpeg p md task = (Inr (r, tot), wd') \<and> ir_kind r = KIND_DEVIATION)) \<and>
    (jget reply ''code'' = Some (JStr ''internal'') \<longrightarrow> wd' = wd) \<and>
    (jget reply ''code'' = Some (JStr ''invalid_image'') \<longrightarrow> take 3 jpeg \<noteq> [0xFF, 0xD8, 0xFF] \<or>
      (\<exists>fid p md task e. check_header header jpeg = Inr (fid, p, md, task) \<and>
         timed_inference app libs wd jpeg p md task = (Inl e, wd') \<and> exc_isa (exc_cls e) ValueError)) \<and>
    jget reply ''code'' \<noteq> Some (JStr ''invalid_request'')"
  using assms
proof (cases rule: infer_cases)
  case (rejected code msg)
  from frame_error_accepted [OF rejected(3) [symmetric]] have c: "jget reply ''code'' = Some (JStr code)" by blast
  have "code = ''invalid_image'' \<longrightarrow> take 3 jpeg \<noteq> [0xFF, 0xD8, 0xFF]"
    using check_header_Inl [OF rejected(1)] frame_error_accepted [OF rejected(3) [symmetric]]
      frame_error_accepted rejected(3) by (metis json.inject(4) option.inject)
  with rejected c show ?thesis by auto
next
  case (failed fid p md task e)
  then have v: "exc_isa (exc_cls e) ValueError" "frame_error fid ''invalid_image'' (exc_msg e) = Inr reply"
    by (simp_all split: if_splits)
  from frame_error_accepted [OF v(2)] have "jget reply ''code'' = Some (JStr ''invalid_image'')" by blast
  with failed v(1) show ?thesis by auto
next
  case (deviated fid p md task r tot)
  from frame_error_accepted [OF deviated(4) [symmetric]] have "jget reply ''code'' = Some (JStr ''model_deviation'')" by blast
  with deviated show ?thesis by auto
next
  case (success fid p md task r tot)
  then have "jget reply ''code'' = None" by (simp del: jget.simps)
  with success show ?thesis by auto
qed

lemma error_codes_meaning_witness:
  "\<exists>reply. infer demo_app (demo_libs False) 0 (demo_header ''detection'') demo_jpeg = (Inr reply, 5) \<and>
     jget reply ''code'' \<noteq> Some (JStr ''invalid_request'') \<and>
     (jget reply ''code'' = Some (JStr ''internal'') \<longrightarrow> (5 :: nat) = 0)"
proof -
  obtain reply where i: "infer demo_app (demo_libs False) 0 (demo_header ''detection'') demo_jpeg = (Inr reply, 5)"
    using demo_infer [of 0] by auto
  from error_codes_meaning [OF i] i show ?thesis by blast
qed

text \<open>C1.
  A connection answers its requests one by one, in their order. When it was closed by the peer, and a lost
  link stays lost, what went out is one frame per complete request of the stream, each the serialization
  of the payload asked for or of a body the Rust side accepts, with that request's frame id; no reply is
  missing, doubled or out of order, and the other side reads exactly these frames.
\<close>

theorem connection_answers_in_order:
  assumes "serve app libs stream wr wd = (Closed, wr', wd')" and "short_answers (engine app)" and "loss_is_final wr"
  shows "\<exists>bodies. sent wr' = sent wr @ concat (map frame_bytes bodies) \<and>
    list_all2 (answers app libs) (requests stream) bodies \<and>
    read_frames (concat (map frame_bytes bodies)) = bodies"
  using serve_closed [OF assms] read_frames_concat by blast

lemma connection_answers_in_order_witness:
  "\<exists>wr' wd' bodies. serve demo_app (demo_libs False) demo_stream demo_writer 0 = (Closed, wr', wd') \<and>
     sent wr' = concat (map frame_bytes bodies) \<and> length bodies = 1"
proof -
  obtain wr' wd' where s: "serve demo_app (demo_libs False) demo_stream demo_writer 0 = (Closed, wr', wd')"
    using demo_connection by blast
  have "sent demo_writer = []" by (simp add: demo_writer_def)
  with connection_answers_in_order [OF s demo_short demo_final] s show ?thesis
    by (fastforce simp: demo_stream_frames dest: list_all2_lengthD)
qed

text \<open>C13.
  The process is only given up for a reason: a connection ends in a hard exit with status 75 only
  when some complete request of it made the routing raise a CUDA out-of-memory error or a timeout.
\<close>

theorem hard_exit_only_for_oom_or_timeout:
  assumes "serve app libs stream wr wd = (HardExit c, wr', wd')"
  shows "c = 75 \<and> (\<exists>hb payload header wr0 wd0 e wr1. (hb, payload) \<in> set (requests stream) \<and>
    json_loads libs hb = Inr header \<and> is_obj header \<and>
    route app libs header (req_frame_id header) payload wr0 wd0 = (Inl e, wr1, wd') \<and>
    (exc_isa (exc_cls e) OutOfMemoryError \<or> exc_isa (exc_cls e) TimeoutError))"
  using serve_hard_exit [OF assms] unfolding fatal_def .

lemma hard_exit_only_for_oom_or_timeout_witness:
  "\<exists>hb payload. (hb, payload) \<in> set (requests demo_stream) \<and>
    (\<exists>header. json_loads (demo_libs True) hb = Inr header \<and> is_obj header)"
proof -
  obtain wr' wd' where s: "serve demo_app (demo_libs True) demo_stream demo_writer 0 = (HardExit 75, wr', wd')"
    using demo_exit by blast
  from hard_exit_only_for_oom_or_timeout [OF s] show ?thesis by blast
qed

text \<open>And it is always given up then: a frame whose inference ran out of GPU memory or time is never
  followed by another request; the loop ends in the hard exit, unless the farewell write is itself
  interrupted by something that is not an \<open>Exception\<close> (a cancellation).
\<close>

theorem fatal_inference_never_survived:
  assumes "json_loads libs hb = Inr header" and "jget header ''kind'' = Some (JStr ''frame'')"
    and "check_header header payload = Inr (fid, p, md, task)"
    and "fst (timed_inference app libs wd payload p md task) = Inl e"
    and "exc_isa (exc_cls e) OutOfMemoryError \<or> exc_isa (exc_cls e) TimeoutError"
  shows "\<exists>oc wr' wd'. handle_request app libs hb payload wr wd = (Some oc, wr', wd') \<and>
    (oc = HardExit 75 \<or> (\<exists>e'. oc = Crashed e' \<and> \<not> exc_isa (exc_cls e') Exception))"
proof -
  have f: "fatal e" using assms(5) by (simp add: fatal_def)
  obtain wd1 where t: "timed_inference app libs wd payload p md task = (Inl e, wd1)"
    using assms(4) by (metis prod.collapse)
  have "infer app libs wd header payload = (Inl e, wd1)"
    using fatal_not_ValueError [OF f] by (simp add: infer_def assms(3) t)
  then have rt: "route app libs header (req_frame_id header) payload wr wd = (Inl e, wr, wd1)"
    by (simp add: route_def assms(2) write_bytes_def)
  have obj: "is_obj header" using assms(2) by (cases header) simp_all
  obtain oc wr' where he: "handle_exception libs (req_frame_id header) e wr = (oc, wr')" by fastforce
  from handle_exception_fatal [OF f, of libs "req_frame_id header" wr] he obtain msg where
    "write_and_exit (err_frame_bytes libs (req_frame_id header) ''internal'' msg) wr = (oc, wr')" by metis
  from write_and_exit_outcome [OF this] he show ?thesis
    by (auto simp: handle_request_def assms(1) obj rt)
qed

lemma fatal_inference_never_survived_witness:
  "\<exists>oc wr' wd'. handle_request demo_app (demo_libs True) [1] demo_jpeg demo_writer 0 = (Some oc, wr', wd') \<and>
    (oc = HardExit 75 \<or> (\<exists>e'. oc = Crashed e' \<and> \<not> exc_isa (exc_cls e') Exception))"
proof -
  have k: "jget (demo_header ''detection'') ''kind'' = Some (JStr ''frame'')" by (simp add: demo_header_def)
  obtain wd where "timed_inference demo_app (demo_libs True) 0 demo_jpeg ''find it'' (JStr ''hybrid'') (JStr ''detection'') =
    (raise TimeoutError [], wd)" using demo_late by blast
  then have t: "fst (timed_inference demo_app (demo_libs True) 0 demo_jpeg ''find it'' (JStr ''hybrid'') (JStr ''detection'')) =
    Inl (Exc TimeoutError [])" by simp
  have e: "exc_isa (exc_cls (Exc TimeoutError [])) OutOfMemoryError \<or> exc_isa (exc_cls (Exc TimeoutError [])) TimeoutError"
    by simp
  show ?thesis by (rule fatal_inference_never_survived [OF demo_loads(1) k demo_check t e])
qed

text \<open>An unknown task name in the header, which only a violation of the internal contract can bring, is
  reported to the client as \<open>invalid_image\<close>, for every image (the docstring of \<open>_infer\<close> says \<open>internal\<close>).
\<close>

theorem unknown_task_blamed_on_image:
  assumes "check_header header jpeg = Inr (fid, p, md, task)" and "task \<notin> JStr ` fst ` set EXPECTED_SHAPE"
    and "\<forall>t wd. \<not> times_out libs t wd"
  shows "\<exists>reply wd'. infer app libs wd header jpeg = (Inr reply, wd') \<and>
    jget reply ''type'' = Some (JStr ''error'') \<and> jget reply ''code'' = Some (JStr ''invalid_image'')"
proof -
  have "\<exists>msg. check_request (JStr p) task jpeg = raise ValueError msg"
    using assms(2) by (auto simp: check_request_def split: json.splits)
  then obtain msg where "run (engine app) (gen_cfg app) wd1 jpeg (JStr p) md task = (raise ValueError msg, wd1)" for wd1
    by (auto simp: run_def prepare_def)
  then have "\<exists>wd'. timed_inference app libs wd jpeg p md task = (raise ValueError msg, wd')"
    using assms(3) by (simp add: timed_inference_def Let_def split: prod.splits)
  then obtain wd' where "timed_inference app libs wd jpeg p md task = (raise ValueError msg, wd')" by blast
  then have "infer app libs wd header jpeg = (frame_error fid ''invalid_image'' msg, wd')"
    by (simp add: infer_def assms(1))
  moreover obtain reply where "frame_error fid ''invalid_image'' msg = Inr reply"
    using frame_error_returns [of "''invalid_image''" fid msg] by (auto simp: returns_iff)
  ultimately show ?thesis using frame_error_accepted by auto
qed

lemma unknown_task_blamed_on_image_witness:
  "\<exists>reply wd'. infer demo_app (demo_libs False) 0 (demo_header ''segmentation'') demo_jpeg = (Inr reply, wd') \<and>
    jget reply ''type'' = Some (JStr ''error'') \<and> jget reply ''code'' = Some (JStr ''invalid_image'')"
  by (rule unknown_task_blamed_on_image [OF demo_check]) (simp_all add: EXPECTED_SHAPE_def demo_libs_def)

text \<open>The weight manifest detects every renamed, resized, added or removed file, unless SHA-256 collides on
  the two listings: the hashed text determines the list of names and sizes, as long as no file name holds
  a line break.
\<close>

theorem manifest_detects_changes:
  assumes "\<forall>(name, sz) \<in> set (manifest_items d1). CHR 0x0A \<notin> set name"
    and "\<forall>(name, sz) \<in> set (manifest_items d2). CHR 0x0A \<notin> set name"
    and "inj_on sha256_hex {utf8 (manifest_text (manifest_items d1)), utf8 (manifest_text (manifest_items d2))}"
  shows "compute_weight_manifest_sha256 d1 = compute_weight_manifest_sha256 d2 \<longleftrightarrow>
    manifest_items d1 = manifest_items d2"
proof
  assume h: "compute_weight_manifest_sha256 d1 = compute_weight_manifest_sha256 d2"
  show "manifest_items d1 = manifest_items d2"
  proof (cases "manifest_items d1 = [] \<or> manifest_items d2 = []")
    case True
    with h show ?thesis by (auto simp: manifest_hash split: if_splits)
  next
    case False
    with h have "sha256_hex (utf8 (manifest_text (manifest_items d1))) = sha256_hex (utf8 (manifest_text (manifest_items d2)))"
      by (simp add: manifest_hash)
    with assms(3) have "manifest_text (manifest_items d1) = manifest_text (manifest_items d2)"
      by (auto dest: inj_onD simp: utf8_inj)
    with assms(1,2) show ?thesis by (rule manifest_text_inj)
  qed
qed (simp add: manifest_hash)

lemma manifest_detects_changes_witness:
  "compute_weight_manifest_sha256 [(''b'', True, 2), (''a'', True, 1)] =
     compute_weight_manifest_sha256 [(''a'', True, 1), (''sub'', False, 0), (''b'', True, 2)] \<longleftrightarrow>
   manifest_items [(''b'', True, 2), (''a'', True, 1)] = manifest_items [(''a'', True, 1), (''sub'', False, 0), (''b'', True, 2)]"
proof -
  have i: "manifest_items [(''b'', True, 2), (''a'', True, 1)] = [(''a'', 1), (''b'', 2)]"
    "manifest_items [(''a'', True, 1), (''sub'', False, 0), (''b'', True, 2)] = [(''a'', 1), (''b'', 2)]"
    by (simp_all add: manifest_items_def)
  show ?thesis
    using manifest_detects_changes [of "[(''b'', True, 2), (''a'', True, 1)]"
        "[(''a'', True, 1), (''sub'', False, 0), (''b'', True, 2)]"]
    unfolding i by simp
qed

end
