(* ===== verification/Ws_Edge.thy ===== *)
theory Ws_Edge
  imports Prompt_Validator Jpeg_Header Worker
begin

text \<open>
  The WebSocket edge in front of the worker: the request header of \<^verbatim>\<open>rust_server/src/protocol.rs\<close>, the checks of
  \<open>process_binary\<close> and the loop of \<open>handle_ws\<close> in \<^verbatim>\<open>rust_server/src/ws.rs\<close>, and the header that \<open>infer\<close> of
  \<^verbatim>\<open>rust_server/src/ipc.rs\<close> sends to the worker.

  Parameters: the JSON parser, the NFC test, the header parse of \<open>jpeg_decoder\<close> (fields of \<open>edge_libs\<close>), and the two
  limits of the configuration. The lemmas show that a frame the edge forwards passes the worker's checks of its header, request
  and size (not those of the decoded picture, which the edge does not look at), that the edge's image gate is the
  worker's, and that a connection answers frame by frame.
\<close>

section \<open>The header of a frame\<close>

record edge_libs =
  from_slice :: "byte list \<Rightarrow> json option"
  nfc :: "string \<Rightarrow> bool"
  read_info :: "byte list \<Rightarrow> string + int \<times> int"
  max_jpeg_bytes :: nat
  max_image_dim :: int
  print_f32 :: "rat \<Rightarrow> decimal"

record infer_header =
  frame_id :: string
  request :: prompt_request
  generation_mode :: string
  jpeg_len :: nat

text \<open>The variants of \<open>GenerationMode\<close> hold nothing: each is its name, or an object with the name and a null.\<close>

definition decode_mode :: "json \<Rightarrow> string option" where
  "decode_mode j =
     (case (case j of JObj [(name, JNull)] \<Rightarrow> JStr name | _ \<Rightarrow> j) of
        JStr mode \<Rightarrow> if mode \<in> {''fast'', ''hybrid'', ''slow''} then Some mode else None
      | _ \<Rightarrow> None)"

definition decode_header :: "json \<Rightarrow> infer_header option" where
  "decode_header j =
     (let keys = [''frame_id'', ''request'', ''generation_mode'', ''jpeg_len'']; j = as_struct keys j in
      if \<not> exact_keys keys j then None
      else (case (jget j ''frame_id'', Option.bind (jget j ''request'') decode_request,
                  Option.bind (jget j ''generation_mode'') decode_mode, jget j ''jpeg_len'') of
          (Some (JStr fid), Some req, Some mode, Some (JInt n)) \<Rightarrow>
            if 0 \<le> n \<and> n < 2 ^ 64
            then Some \<lparr>frame_id = fid, request = req, generation_mode = mode, jpeg_len = nat n\<rparr> else None
        | _ \<Rightarrow> None))"

section \<open>process_binary\<close>

record pending_frame =
  pf_header :: infer_header
  pf_jpeg :: "byte list"
  pf_prompt :: string
  pf_task :: string

datatype binary_outcome =
    Pending pending_frame
  | FatalFraming string
  | PerFrame string string string

definition MIN_IMAGE_DIM :: int where "MIN_IMAGE_DIM = 32"

text \<open>The gates on the dimensions, steps 6 and after: \<open>None\<close> lets the image through.\<close>

definition dimension_error :: "int \<Rightarrow> int \<Rightarrow> int \<Rightarrow> string option" where
  "dimension_error max_dim w h =
     (if w < MIN_IMAGE_DIM \<or> h < MIN_IMAGE_DIM then Some ''image dimensions below MIN_IMAGE_DIM''
      else if w > max_dim \<or> h > max_dim then Some ''image dimensions exceed LA_MAX_IMAGE_DIM''
      else
        let PATCH_PX = 14; IN_TOKEN_LIMIT = 25600; POS_EMB_PATCH_CAP = 512; LLM_TOKEN_PX = 28 in
        if (w div PATCH_PX) * (h div PATCH_PX) > IN_TOKEN_LIMIT then Some ''image exceeds in_token_limit''
        else let target_w = (w + LLM_TOKEN_PX - 1) div LLM_TOKEN_PX * LLM_TOKEN_PX;
                 target_h = (h + LLM_TOKEN_PX - 1) div LLM_TOKEN_PX * LLM_TOKEN_PX in
        if target_w div PATCH_PX \<ge> POS_EMB_PATCH_CAP \<or> target_h div PATCH_PX \<ge> POS_EMB_PATCH_CAP
        then Some ''image exceeds the positional-embedding cap''
        else None)"

text \<open>Steps 5 and 6: \<open>None\<close> is a panic of the header scan, which \<open>spawn_blocking\<close> would report as a join error.\<close>

definition jpeg_error :: "edge_libs \<Rightarrow> nat \<Rightarrow> byte list \<Rightarrow> (string \<times> string) option" where
  "jpeg_error libs declared jpeg =
     (if length jpeg \<noteq> declared then Some (''invalid_request'', ''header.jpeg_len does not match the payload'')
      else if jpeg = [] then Some (''invalid_image'', ''JPEG payload is zero bytes'')
      else if length jpeg > max_jpeg_bytes libs then Some (''invalid_image'', ''JPEG payload exceeds LA_MAX_JPEG_BYTES'')
      else if \<not> is_jpeg jpeg then Some (''invalid_image'', ''payload does not start with the JPEG SOI marker'')
      else (case read_dimensions_blocking (read_info libs) jpeg of
          None \<Rightarrow> Some (''internal'', ''spawn_blocking join error'')
        | Some (Inl e) \<Rightarrow> Some (''invalid_image'', ''JPEG header parse failed: '' @ e)
        | Some (Inr (w, h)) \<Rightarrow> map_option (Pair ''invalid_image'') (dimension_error (max_image_dim libs) w h)))"

definition process_binary :: "edge_libs \<Rightarrow> byte list \<Rightarrow> binary_outcome" where
  "process_binary libs bytes =
     (if length bytes < 4 then FatalFraming ''no length prefix''
      else let header_len = unpack_u32 (take 4 bytes) in
      if header_len = 0 then FatalFraming ''header_len prefix is 0''
      else if 4 + header_len > length bytes then FatalFraming ''header_len extends past the frame''
      else case Option.bind (from_slice libs (take header_len (drop 4 bytes))) decode_header of
        None \<Rightarrow> FatalFraming ''header JSON parse failed''
      | Some header \<Rightarrow>
          if frame_id header = [] then FatalFraming ''header.frame_id is empty''
          else if length (utf8 (frame_id header)) > 256 then FatalFraming ''header.frame_id too long''
          else (case compile (nfc libs) (request header) of
              Inl e \<Rightarrow> PerFrame (frame_id header) ''invalid_request'' ''request rejected''
            | Inr (prompt, task) \<Rightarrow>
                let jpeg = drop (4 + header_len) bytes in
                (case jpeg_error libs (jpeg_len header) jpeg of
                   Some (code, message) \<Rightarrow> PerFrame (frame_id header) code message
                 | None \<Rightarrow> Pending \<lparr>pf_header = header, pf_jpeg = jpeg, pf_prompt = prompt, pf_task = task\<rparr>)))"

section \<open>The hop to the worker\<close>

text \<open>The header of \<open>WorkerConn::infer\<close> (\<open>serde_json\<close> orders the keys of \<open>json!\<close>).\<close>

definition ipc_header :: "pending_frame \<Rightarrow> json" where
  "ipc_header p = JObj [(''frame_id'', JStr (frame_id (pf_header p))),
     (''generation_mode'', JStr (generation_mode (pf_header p))), (''jpeg_len'', JInt (int (length (pf_jpeg p)))),
     (''kind'', JStr ''frame''), (''prompt'', JStr (pf_prompt p)), (''prompt_task'', JStr (pf_task p))]"

text \<open>The reply: a transport failure, or the parsed body, stripped of \<open>ok\<close>, checked against the schema and printed from the
  typed value.\<close>

definition typed_reply :: "edge_libs \<Rightarrow> json option \<Rightarrow> json option" where
  "typed_reply libs body = (case body of
     None \<Rightarrow> None
   | Some v \<Rightarrow> if infer_accepts v then Some (serialize_response (print_f32 libs) (without ''ok'' v)) else None)"

section \<open>handle_ws\<close>

text \<open>What the loop may see: a binary message (and whether the send of its reply succeeds), any other message,
  the ends of the connection, or a tick of the ping timer (and whether the ping was sent).\<close>

datatype ws_event = Binary "byte list" bool | TextPingPong | PeerClose | RecvError | IdleTimeout | Shutdown | PingTick bool

datatype ws_sent = Text json | Close nat string | Ping

definition error_response :: "string \<Rightarrow> string \<Rightarrow> string \<Rightarrow> json" where
  "error_response fid code message = JObj [(''type'', JStr ''error''), (''frame_id'', JStr fid),
     (''code'', JStr code), (''message'', JStr message)]"

text \<open>One connection: what it sends for a list of events. \<open>worker\<close> answers a header and a JPEG and moves on.\<close>

fun handle_ws ::
  "edge_libs \<Rightarrow> ('w \<Rightarrow> json \<Rightarrow> byte list \<Rightarrow> json option \<times> 'w) \<Rightarrow> 'w \<Rightarrow> ws_event list \<Rightarrow> ws_sent list" where
  "handle_ws libs worker wd [] = []"
| "handle_ws libs worker wd (Binary bytes sends # events) =
     (case process_binary libs bytes of
        FatalFraming reason \<Rightarrow> [Close 1008 reason]
      | PerFrame fid code message \<Rightarrow>
          if sends then Text (error_response fid code message) # handle_ws libs worker wd events else []
      | Pending p \<Rightarrow>
          (let (body, wd') = worker wd (ipc_header p) (pf_jpeg p) in
           case typed_reply libs body of
             None \<Rightarrow> [Close 1011 ''worker'']
           | Some response \<Rightarrow> if sends then Text response # handle_ws libs worker wd' events else []))"
| "handle_ws libs worker wd (TextPingPong # events) = handle_ws libs worker wd events"
| "handle_ws libs worker wd (PeerClose # events) = []"
| "handle_ws libs worker wd (RecvError # events) = []"
| "handle_ws libs worker wd (IdleTimeout # events) = [Close 1001 ''read idle timeout'']"
| "handle_ws libs worker wd (Shutdown # events) = [Close 1001 ''server shutting down'']"
| "handle_ws libs worker wd (PingTick sends # events) = (if sends then Ping # handle_ws libs worker wd events else [])"

section \<open>The Python worker behind the edge\<close>

text \<open>The body the worker sends for a frame: what \<open>_infer\<close> returns, or the error frame of the \<open>except\<close> clauses of
  \<open>handle_connection\<close>; for anything that is not an \<open>Exception\<close> the connection dies. JSON is carried as a value.\<close>

definition exception_message :: "py_exc \<Rightarrow> string" where
  "exception_message e =
     (if exc_isa (exc_cls e) OutOfMemoryError then ''CUDA out of memory: '' @ exc_msg e
      else if exc_isa (exc_cls e) TimeoutError then ''inference timeout'' else exc_msg e)"

definition worker_link ::
  "('img, 'prof, 'vis, 'inp, 'tok, 'w) worker_app \<Rightarrow> 'w worker_libs \<Rightarrow> 'w \<Rightarrow> json \<Rightarrow> byte list \<Rightarrow> json option \<times> 'w" where
  "worker_link app libs wd header jpeg =
     (case infer app libs wd header jpeg of
        (Inr reply, wd') \<Rightarrow> (Some reply, wd')
      | (Inl e, wd') \<Rightarrow>
          (if exc_isa (exc_cls e) Exception
           then (case frame_error (req_frame_id header) ''internal'' (exception_message e) of
               Inr reply \<Rightarrow> Some reply | Inl _ \<Rightarrow> None)
           else None, wd'))"

section \<open>Lemmas\<close>

lemma decode_mode_str [simp]: "decode_mode (JStr m) = (if m \<in> {''fast'', ''hybrid'', ''slow''} then Some m else None)"
  by (simp add: decode_mode_def)

lemma decode_mode_range: "decode_mode j = Some m \<Longrightarrow> m \<in> {''fast'', ''hybrid'', ''slow''}"
  unfolding decode_mode_def
  by (cases "case j of JObj [(name, JNull)] \<Rightarrow> JStr name | _ \<Rightarrow> j") (simp_all split: if_splits)

lemma decode_header_mode:
  assumes "decode_header j = Some h"
  shows "generation_mode h \<in> {''fast'', ''hybrid'', ''slow''}"
proof -
  have "\<exists>v. decode_mode v = Some (generation_mode h)"
    using assms by (auto simp: decode_header_def Let_def bind_eq_Some_conv split: if_splits option.splits json.splits)
  then show ?thesis using decode_mode_range by blast
qed

lemma ceil_28: "(w + 28 - 1) div 28 * 28 div 14 = 2 * ((w + 27) div (28 :: int))"
  by simp

lemma dimension_error_None:
  "dimension_error max_dim w h = None \<longleftrightarrow>
   32 \<le> w \<and> 32 \<le> h \<and> w \<le> max_dim \<and> h \<le> max_dim \<and> gate_image w h = Inr ()"
  by (auto simp: dimension_error_def MIN_IMAGE_DIM_def gate_image_def Let_def)

lemma jpeg_error_None:
  "jpeg_error libs n jpeg = None \<longleftrightarrow> length jpeg = n \<and> jpeg \<noteq> [] \<and> n \<le> max_jpeg_bytes libs \<and> is_jpeg jpeg \<and>
   (\<exists>w h. read_dimensions_blocking (read_info libs) jpeg = Some (Inr (w, h)) \<and>
      dimension_error (max_image_dim libs) w h = None)"
  by (auto simp: jpeg_error_def split: option.split sum.split)

lemma is_jpeg_take: "is_jpeg b \<Longrightarrow> take 3 b = [0xFF, 0xD8, 0xFF]"
  by (auto simp: is_jpeg_def numeral_3_eq_3 numeral_2_eq_2 Suc_le_length_iff)

lemma process_binary_Pending:
  assumes "process_binary libs bytes = Pending p"
  shows "\<exists>j. from_slice libs (take (unpack_u32 (take 4 bytes)) (drop 4 bytes)) = Some j \<and>
    decode_header j = Some (pf_header p) \<and> frame_id (pf_header p) \<noteq> [] \<and>
    length (utf8 (frame_id (pf_header p))) \<le> 256 \<and>
    compile (nfc libs) (request (pf_header p)) = Inr (pf_prompt p, pf_task p) \<and>
    jpeg_error libs (jpeg_len (pf_header p)) (pf_jpeg p) = None \<and>
    pf_jpeg p = drop (4 + unpack_u32 (take 4 bytes)) bytes"
  using assms unfolding process_binary_def Let_def
  by (auto simp: bind_eq_Some_conv split: if_splits option.splits sum.splits)

lemma ipc_header_get [simp]:
  "jget (ipc_header p) ''frame_id'' = Some (JStr (frame_id (pf_header p)))"
  "jget (ipc_header p) ''prompt'' = Some (JStr (pf_prompt p))"
  "jget (ipc_header p) ''generation_mode'' = Some (JStr (generation_mode (pf_header p)))"
  "jget (ipc_header p) ''prompt_task'' = Some (JStr (pf_task p))"
  "req_frame_id (ipc_header p) = frame_id (pf_header p)"
  by (simp_all add: ipc_header_def req_frame_id_def)

lemma wire_names_shapes: "name \<in> set TEMPLATE_WIRE_NAMES \<Longrightarrow> name \<in> fst ` set EXPECTED_SHAPE"
  by (auto simp: TEMPLATE_WIRE_NAMES_def EXPECTED_SHAPE_def)

lemma pending_mode:
  "process_binary libs bytes = Pending p \<Longrightarrow> generation_mode (pf_header p) \<in> {''fast'', ''hybrid'', ''slow''}"
  using process_binary_Pending decode_header_mode by blast

lemma pending_check_header:
  assumes "process_binary libs bytes = Pending p"
  shows "check_header (ipc_header p) (pf_jpeg p) =
    Inr (frame_id (pf_header p), pf_prompt p, JStr (generation_mode (pf_header p)), JStr (pf_task p))"
proof -
  from process_binary_Pending [OF assms] obtain j where d: "decode_header j = Some (pf_header p)"
    and f: "frame_id (pf_header p) \<noteq> []"
    and c: "compile (nfc libs) (request (pf_header p)) = Inr (pf_prompt p, pf_task p)"
    and e: "jpeg_error libs (jpeg_len (pf_header p)) (pf_jpeg p) = None" by blast
  from e have "pf_jpeg p \<noteq> []" "take 3 (pf_jpeg p) = [0xFF, 0xD8, 0xFF]"
    unfolding jpeg_error_None using is_jpeg_take by blast+
  moreover have "pf_prompt p \<noteq> []" "length (pf_prompt p) \<le> 16384" using compile_python [OF c] by blast+
  moreover have "JStr (generation_mode (pf_header p)) \<in> JStr ` {''fast'', ''hybrid'', ''slow''}"
    using decode_header_mode [OF d] by blast
  ultimately show ?thesis using f by (simp add: check_header_def Let_def)
qed

lemma typed_reply_Some:
  assumes "typed_reply libs body = Some r"
  shows "\<exists>v. body = Some v \<and> infer_accepts v \<and> r = serialize_response (print_f32 libs) (without ''ok'' v) \<and> is_Response r \<and>
    jget r ''frame_id'' = jget v ''frame_id'' \<and> jget r ''type'' = jget v ''type''"
proof -
  from assms obtain v where v: "body = Some v" "infer_accepts v" "r = serialize_response (print_f32 libs) (without ''ok'' v)"
    by (auto simp: typed_reply_def split: option.splits if_splits)
  from serialize_response [OF infer_accepts_Response [OF v(2)]] v show ?thesis by (auto simp: jget_without)
qed

text \<open>A connection's text replies and the binary frames it was given.\<close>

fun binaries :: "ws_event list \<Rightarrow> byte list list" where
  "binaries [] = []"
| "binaries (Binary bytes sends # events) = bytes # binaries events"
| "binaries (e # events) = binaries events"

fun texts :: "ws_sent list \<Rightarrow> json list" where
  "texts [] = []"
| "texts (Text r # sents) = r # texts sents"
| "texts (s # sents) = texts sents"

fun is_close :: "ws_sent \<Rightarrow> bool" where
  "is_close (Close code reason) = True"
| "is_close _ = False"

definition frame_of :: "edge_libs \<Rightarrow> byte list \<Rightarrow> string option" where
  "frame_of libs bytes = (case process_binary libs bytes of
     FatalFraming reason \<Rightarrow> None
   | PerFrame fid code message \<Rightarrow> Some fid
   | Pending p \<Rightarrow> Some (frame_id (pf_header p)))"

definition reply_to :: "edge_libs \<Rightarrow> byte list \<Rightarrow> json \<Rightarrow> bool" where
  "reply_to libs bytes r \<longleftrightarrow> is_Response r \<and>
     (\<exists>fid. frame_of libs bytes = Some fid \<and> jget r ''frame_id'' = Some (JStr fid))"

lemma per_frame_codes:
  "process_binary libs bytes = PerFrame fid code message \<Longrightarrow> code \<in> {''invalid_request'', ''invalid_image'', ''internal''}"
  by (auto simp: process_binary_def jpeg_error_def Let_def split: if_splits option.splits sum.splits)

lemma per_frame_reply:
  assumes "process_binary libs bytes = PerFrame fid code message"
  shows "reply_to libs bytes (error_response fid code message)"
  using per_frame_codes [OF assms] assms
  by (auto simp: reply_to_def frame_of_def error_response_def is_Response_def Response_variants_def ErrorBody_def ErrorCode_def)

text \<open>Every body of the Python worker echoes the frame id.\<close>

lemma infer_echo:
  assumes "infer app wlibs wd header jpeg = (Inr reply, wd')"
  shows "jget reply ''frame_id'' = Some (JStr (req_frame_id header))"
  using assms
proof (cases rule: infer_cases)
  case (rejected code msg)
  from frame_error_accepted [OF rejected(3) [symmetric]] show ?thesis by blast
next
  case (failed fid p md task e)
  then have "frame_error fid ''invalid_image'' (exc_msg e) = Inr reply" by (simp split: if_splits)
  from frame_error_accepted [OF this] check_header_Inr [OF failed(1)] show ?thesis by simp
next
  case (deviated fid p md task r tot)
  from frame_error_accepted [OF deviated(4) [symmetric]] check_header_Inr [OF deviated(1)] show ?thesis by simp
next
  case (success fid p md task r tot)
  with check_header_Inr [OF success(1)] show ?thesis by (simp add: reply_body_def)
qed

text \<open>What the edge asks of the process behind it: a body it sends carries the frame id of the request. Everything
  else about the body is checked.\<close>

locale echoing_worker =
  fixes worker :: "'w \<Rightarrow> json \<Rightarrow> byte list \<Rightarrow> json option \<times> 'w"
  assumes echo: "worker wd header jpeg = (Some v, wd') \<Longrightarrow> jget v ''frame_id'' = Some (JStr (req_frame_id header))"
begin

lemma pending_reply:
  assumes "process_binary libs bytes = Pending p" and "worker wd (ipc_header p) (pf_jpeg p) = (body, wd')"
    and "typed_reply libs body = Some r"
  shows "reply_to libs bytes r"
proof -
  from typed_reply_Some [OF assms(3)] obtain v where v: "body = Some v" "is_Response r"
    "jget r ''frame_id'' = jget v ''frame_id''" by blast
  from echo assms(2) v(1) have "jget v ''frame_id'' = Some (JStr (req_frame_id (ipc_header p)))" by blast
  with v assms(1) show ?thesis by (simp add: reply_to_def frame_of_def)
qed

lemma answers_in_order:
  "list_all2 (reply_to libs) (take (length (texts (handle_ws libs worker wd events))) (binaries events))
     (texts (handle_ws libs worker wd events))"
proof (induction events arbitrary: wd)
  case (Cons e events)
  show ?case
  proof (cases e)
    case (Binary bytes sends)
    show ?thesis
    proof (cases "process_binary libs bytes")
      case (Pending p)
      obtain body wd' where w: "worker wd (ipc_header p) (pf_jpeg p) = (body, wd')" by fastforce
      with Pending Binary Cons pending_reply [OF Pending w] show ?thesis by (auto split: option.split)
    next
      case (PerFrame fid code message)
      with Binary Cons per_frame_reply [OF PerFrame] show ?thesis by simp
    qed (simp add: Binary)
  qed (use Cons in simp_all)
qed simp

lemma close_is_last: "list_all (\<lambda>s. \<not> is_close s) (butlast (handle_ws libs worker wd events))"
proof (induction events arbitrary: wd)
  case (Cons e events)
  then show ?case by (cases e) (auto split: binary_outcome.split option.split prod.split)
qed simp

end

interpretation python: echoing_worker "worker_link app wlibs" for app wlibs
proof
  fix wd wd' header jpeg v
  assume w: "worker_link app wlibs wd header jpeg = (Some v, wd')"
  obtain resp wd1 where i: "infer app wlibs wd header jpeg = (resp, wd1)" by fastforce
  show "jget v ''frame_id'' = Some (JStr (req_frame_id header))"
  proof (cases resp)
    case (Inl e)
    with w i have "frame_error (req_frame_id header) ''internal'' (exception_message e) = Inr v"
      by (auto simp: worker_link_def split: if_splits sum.splits)
    from frame_error_accepted [OF this] show ?thesis by blast
  next
    case (Inr reply)
    with w i have "infer app wlibs wd header jpeg = (Inr v, wd')" by (simp add: worker_link_def)
    from infer_echo [OF this] show ?thesis .
  qed
qed

section \<open>Properties\<close>

text \<open>C11.
  The contract of the edge with the worker. A frame that \<open>process_binary\<close> lets through reaches \<open>_infer\<close> as a header that
  passes all its checks, with the client's frame id and mode; its prompt is the one the Python builder gives for the
  client's request; prompt, task and payload pass the checks at the head of \<open>run\<close>; and the dimensions the edge read pass
  the gates of the engine and have a resize plan. What the edge does not look at is the content of the picture: a JPEG that
  \<open>decode_image\<close> refuses (a CMYK file, say) passes the edge and is refused there. Once the worker has decoded an image of
  the size the edge read, only the chat template and the processor can still refuse it before it is given to the
  model.
\<close>

theorem edge_frames_pass_worker_checks:
  assumes "process_binary libs bytes = Pending p"
  shows "check_header (ipc_header p) (pf_jpeg p) =
      Inr (frame_id (pf_header p), pf_prompt p, JStr (generation_mode (pf_header p)), JStr (pf_task p)) \<and>
    check_request (JStr (pf_prompt p)) (JStr (pf_task p)) (pf_jpeg p) = Inr (pf_prompt p, pf_task p) \<and>
    py_build (request (pf_header p)) = Inr (pf_prompt p) \<and> classify_prompt (pf_prompt p) = Inr (pf_task p) \<and>
    (\<exists>w h plan. read_dimensions_blocking (read_info libs) (pf_jpeg p) = Some (Inr (w, h)) \<and>
       gate_image w h = Inr () \<and> plan_resize w h = Inr plan \<and>
       (\<forall>img. decode_image B (pf_jpeg p) = Inr img \<and> img_width B img = w \<and> img_height B img = h \<longrightarrow>
          (\<exists>kwargs. prepare B cfg (pf_jpeg p) (JStr (pf_prompt p)) (JStr (generation_mode (pf_header p))) (JStr (pf_task p)) =
             bindr (render_prompt B img (pf_prompt p)) (\<lambda>text.
             bindr (build_inputs B img (pf_prompt p) text) (\<lambda>inputs.
             ret (pf_prompt p, pf_task p, img, plan, inputs, kwargs)))))) \<and>
    (\<forall>e. decode_image B (pf_jpeg p) = Inl e \<longrightarrow>
       prepare B cfg (pf_jpeg p) (JStr (pf_prompt p)) (JStr (generation_mode (pf_header p))) (JStr (pf_task p)) = Inl e)"
proof -
  let ?prepared = "prepare B cfg (pf_jpeg p) (JStr (pf_prompt p)) (JStr (generation_mode (pf_header p))) (JStr (pf_task p))"
  from process_binary_Pending [OF assms(1)] have c: "compile (nfc libs) (request (pf_header p)) = Inr (pf_prompt p, pf_task p)"
    and e: "jpeg_error libs (jpeg_len (pf_header p)) (pf_jpeg p) = None" by blast+
  from e obtain w h where d: "pf_jpeg p \<noteq> []" "read_dimensions_blocking (read_info libs) (pf_jpeg p) = Some (Inr (w, h))"
    "dimension_error (max_image_dim libs) w h = None" unfolding jpeg_error_None by blast
  from d(3) have g: "gate_image w h = Inr ()" "0 < w" "0 < h" unfolding dimension_error_None by auto
  obtain plan where plan: "plan_resize w h = Inr plan"
    using plan_resize_eq [of w h] g gate_image_within [of w h "()"] by auto
  have r: "check_request (JStr (pf_prompt p)) (JStr (pf_task p)) (pf_jpeg p) = Inr (pf_prompt p, pf_task p)"
    using compile_python [OF c] wire_names_shapes d(1) unfolding check_request_Inr by blast
  obtain kwargs where kw: "to_kwargs cfg (JStr (generation_mode (pf_header p))) = Inr kwargs"
    using pending_mode [OF assms(1)] by (auto simp: to_kwargs_def)
  have "?prepared = bindr (render_prompt B img (pf_prompt p)) (\<lambda>text.
      bindr (build_inputs B img (pf_prompt p) text) (\<lambda>inputs. ret (pf_prompt p, pf_task p, img, plan, inputs, kwargs)))"
    if "decode_image B (pf_jpeg p) = Inr img" "img_width B img = w" "img_height B img = h" for img
    unfolding prepare_def by (simp add: r that g(1) plan kw)
  moreover have "?prepared = Inl e" if "decode_image B (pf_jpeg p) = Inl e" for e
    unfolding prepare_def by (simp add: r that)
  ultimately show ?thesis using pending_check_header [OF assms(1)] compile_python [OF c] d(2) g(1) plan r by blast
qed

text \<open>The edge's test of the dimensions is the worker's own gate, within the configured sides: both sides of the hop refuse
  exactly the same images, so for an image the edge accepted the engine never raises its size errors.
\<close>

theorem edge_gate_is_worker_gate:
  "dimension_error max_dim w h = None \<longleftrightarrow>
   32 \<le> w \<and> 32 \<le> h \<and> w \<le> max_dim \<and> h \<le> max_dim \<and> gate_image w h = Inr ()"
  by (rule dimension_error_None)

text \<open>A WebSocket connection to the Python worker is stop-and-wait: its text replies answer the binary frames one by one and in
  their order, each reply is a variant of the typed \<open>Response\<close> with the frame id of its frame, and a close is the last
  thing sent.
\<close>

theorem edge_answers_in_order:
  "list_all2 (reply_to libs)
      (take (length (texts (handle_ws libs (worker_link app wlibs) wd events))) (binaries events))
      (texts (handle_ws libs (worker_link app wlibs) wd events)) \<and>
   list_all (\<lambda>s. \<not> is_close s) (butlast (handle_ws libs (worker_link app wlibs) wd events))"
  by (intro conjI python.answers_in_order python.close_is_last)

text \<open>A frame for the witness.\<close>

definition demo_request_header :: json where
  "demo_request_header = JObj [(''frame_id'', JStr ''f1''),
     (''request'', JObj [(''task'', JStr ''point''), (''phrase'', JStr ''the dog'')]),
     (''generation_mode'', JStr ''hybrid''), (''jpeg_len'', JInt 4)]"

definition demo_edge :: edge_libs where
  "demo_edge = \<lparr>from_slice = (\<lambda>_. Some demo_request_header), nfc = (\<lambda>_. True), read_info = (\<lambda>_. Inr (640, 480)),
     max_jpeg_bytes = 100, max_image_dim = 2240, print_f32 = hundredths_text\<rparr>"

definition demo_frame :: "byte list" where
  "demo_frame = [0, 0, 0, 1, 7, 0xFF, 0xD8, 0xFF, 0xD9]"

lemma demo_compiles: "compile (\<lambda>_. True) (Point ''the dog'') = Inr (''Point to: the dog.'', ''point'')"
  by code_simp

lemma demo_dimensions: "read_dimensions_blocking (\<lambda>_. Inr (640, 480)) [0xFF, 0xD8, 0xFF, 0xD9] = Some (Inr (640, 480))"
  by (simp add: read_dimensions_blocking_def exif_orientation_def exif_scan.simps)

lemma demo_pending: "\<exists>p. process_binary demo_edge demo_frame = Pending p \<and> pf_task p = ''point''"
  by (simp add: process_binary_def demo_frame_def demo_edge_def unpack_u32_def demo_request_header_def decode_header_def
      exact_keys_def decode_request_def decode_slot_def demo_compiles jpeg_error_def demo_dimensions is_jpeg_def utf8_def
      utf8_char_def dimension_error_def MIN_IMAGE_DIM_def Let_def insert_commute)

lemma edge_frames_pass_worker_checks_witness:
  "\<exists>p. process_binary demo_edge demo_frame = Pending p \<and>
     check_request (JStr (pf_prompt p)) (JStr (pf_task p)) (pf_jpeg p) = Inr (pf_prompt p, pf_task p)"
proof -
  obtain p where p: "process_binary demo_edge demo_frame = Pending p" using demo_pending by blast
  from edge_frames_pass_worker_checks [OF p] p show ?thesis by blast
qed
section \<open>The close frame\<close>

text \<open>\<open>send_close\<close>: a close frame holds a code of two bytes and at most 123 bytes of reason, which is cut between characters.\<close>

fun bound_reason :: "nat \<Rightarrow> string \<Rightarrow> string" where
  "bound_reason used [] = []"
| "bound_reason used (c # cs) =
     (if used + length (utf8_char c) > 123 then [] else c # bound_reason (used + length (utf8_char c)) cs)"

definition close_payload :: "nat \<Rightarrow> string \<Rightarrow> byte list" where
  "close_payload code reason = [of_nat (code div 256), of_nat (code mod 256)] @ utf8 (bound_reason 0 reason)"

lemma bound_reason_split:
  assumes "used \<le> 123"
  shows "\<exists>rest. reason = bound_reason used reason @ rest \<and> used + length (utf8 (bound_reason used reason)) \<le> 123 \<and>
    (rest = [] \<or> used + length (utf8 (bound_reason used reason)) + length (utf8_char (hd rest)) > 123)"
  using assms
proof (induction reason arbitrary: used)
  case (Cons c cs)
  show ?case
  proof (cases "used + length (utf8_char c) > 123")
    case True
    with Cons.prems show ?thesis by (simp add: utf8_def)
  next
    case False
    from Cons.IH [of "used + length (utf8_char c)"] False obtain rest where
      "cs = bound_reason (used + length (utf8_char c)) cs @ rest"
      "used + length (utf8_char c) + length (utf8 (bound_reason (used + length (utf8_char c)) cs)) \<le> 123"
      "rest = [] \<or> used + length (utf8_char c) + length (utf8 (bound_reason (used + length (utf8_char c)) cs)) +
        length (utf8_char (hd rest)) > 123" by auto
    with False show ?thesis by (intro exI [of _ rest]) (simp add: utf8_def add.assoc)
  qed
qed (simp add: utf8_def)

text \<open>The frame always fits the 125 bytes of a control frame; it carries the longest part of the reason that fits, as
  whole characters, and all of a reason of up to 123 bytes.\<close>

theorem close_reason_bounded:
  "length (close_payload code reason) \<le> 125 \<and>
   (\<exists>rest. reason = utf8_decode (drop 2 (close_payload code reason)) @ rest \<and>
      (rest = [] \<or> length (close_payload code reason) + length (utf8_char (hd rest)) > 125)) \<and>
   (utf8_decode (drop 2 (close_payload code reason)) = reason \<longleftrightarrow> length (utf8 reason) \<le> 123)"
proof -
  obtain rest where r: "reason = bound_reason 0 reason @ rest" "length (utf8 (bound_reason 0 reason)) \<le> 123"
    "rest = [] \<or> length (utf8 (bound_reason 0 reason)) + length (utf8_char (hd rest)) > 123"
    using bound_reason_split [of 0 reason] by auto
  have bytes: "utf8 reason = utf8 (bound_reason 0 reason) @ utf8 rest" using r(1) by (metis concat_append map_append utf8_def)
  have "rest = [] \<longleftrightarrow> length (utf8 reason) \<le> 123"
    using r(2,3) bytes by (cases rest) (auto simp: utf8_def)
  moreover have "bound_reason 0 reason = reason \<longleftrightarrow> rest = []" using r(1) by (metis append.right_neutral append_self_conv)
  ultimately show ?thesis using r by (auto simp: close_payload_def utf8_decode_utf8)
qed

end
