(* ===== verification/Client_Request.thy ===== *)
theory Client_Request
  imports Ws_Edge
begin

text \<open>
  The request side of the three Python clients, \<^verbatim>\<open>examples/reference_client.py\<close>, \<^verbatim>\<open>scripts/lib/smoke_ws_client.py\<close>
  and \<^verbatim>\<open>scripts/lib/concurrency_smoke_client.py\<close>: their copies of \<open>build_request\<close> (which differ only in how they
  exit) and the binary frame they send. The lemmas show that the edge reads back what they wrote: the typed request of
  the flags, the header and the JPEG. \<open>json.dumps(...).encode("utf-8")\<close> is the argument \<open>dumps\<close>.
\<close>

section \<open>build_request\<close>

record client_args =
  task :: string
  categories :: "string option"
  phrase :: "string option"
  text_slot :: "string option"
  description :: "string option"

definition TASKS :: "string list" where
  "TASKS = [''detection'', ''phrase_single'', ''phrase_multi'', ''text_grounding'', ''scene_text'', ''gui_box'', ''point'']"

definition split_categories :: "string \<Rightarrow> string list" where
  "split_categories s = filter (\<lambda>c. c \<noteq> []) (map py_strip (py_split1 CHR '','' s))"

definition required_slot :: "(string \<Rightarrow> json res) \<Rightarrow> string \<Rightarrow> string \<Rightarrow> string option \<Rightarrow> json res" where
  "required_slot quit t key slot = (case slot of
     None \<Rightarrow> quit ''the task requires its slot''
   | Some v \<Rightarrow> ret (JObj [(''task'', JStr t), (key, JStr v)]))"

text \<open>The common body; \<open>quit\<close> is how the client exits on a message.\<close>

definition assemble_request :: "(string \<Rightarrow> json res) \<Rightarrow> client_args \<Rightarrow> json res" where
  "assemble_request quit args =
     (if task args = ''detection''
      then (if categories args \<in> {None, Some []} then quit ''--task detection requires --categories a,b,c''
            else let cats = split_categories (the (categories args)) in
            if cats = [] then quit ''--categories produced zero non-empty entries''
            else ret (JObj [(''task'', JStr ''detection''), (''categories'', JList (map JStr cats))]))
      else if task args \<in> {''phrase_single'', ''phrase_multi'', ''point''}
      then required_slot quit (task args) ''phrase'' (phrase args)
      else if task args = ''text_grounding'' then required_slot quit (task args) ''text'' (text_slot args)
      else if task args = ''gui_box'' then required_slot quit (task args) ''description'' (description args)
      else if task args = ''scene_text'' then ret (JObj [(''task'', JStr ''scene_text'')])
      else quit ''unknown --task'')"

text \<open>The reference client raises \<open>SystemExit\<close> with a message; the smoke clients print it and exit with status 2.\<close>

definition build_request :: "client_args \<Rightarrow> json res" where
  "build_request = assemble_request (raise SystemExit)"

definition build_request_smoke :: "client_args \<Rightarrow> json res" where
  "build_request_smoke = assemble_request (\<lambda>message. raise SystemExit ''2'')"

definition build_request_concurrency :: "client_args \<Rightarrow> json res" where
  "build_request_concurrency = assemble_request (\<lambda>message. raise SystemExit ''2'')"

section \<open>The frame\<close>

definition zero_padded :: "nat \<Rightarrow> nat \<Rightarrow> string" where
  "zero_padded width n = replicate (width - length (dec_digits n)) CHR ''0'' @ dec_digits n"

text \<open>The frame ids of the reference client (\<open>:08d\<close>) and of the concurrency client (\<open>:03d\<close>).\<close>

definition numbered_id :: "nat \<Rightarrow> string \<Rightarrow> nat \<Rightarrow> string" where
  "numbered_id width client_id i = client_id @ ''-'' @ zero_padded width i"

definition wire_header :: "string \<Rightarrow> json \<Rightarrow> string \<Rightarrow> nat \<Rightarrow> json" where
  "wire_header fid req mode n =
     JObj [(''frame_id'', JStr fid), (''request'', req), (''generation_mode'', JStr mode), (''jpeg_len'', JInt (int n))]"

definition wire_frame :: "(json \<Rightarrow> byte list) \<Rightarrow> string \<Rightarrow> json \<Rightarrow> string \<Rightarrow> byte list \<Rightarrow> byte list res" where
  "wire_frame dumps fid req mode jpeg =
     (let header = dumps (wire_header fid req mode (length jpeg))
      in if length header \<ge> 2 ^ 32 then raise StructError ''argument out of range''
         else ret (pack_u32 (length header) @ header @ jpeg))"

section \<open>Lemmas\<close>

text \<open>What the flags mean as a typed request.\<close>

definition meant_request :: "client_args \<Rightarrow> prompt_request option" where
  "meant_request args =
     (if task args = ''detection'' then map_option (Detection o split_categories) (categories args)
      else if task args = ''phrase_single'' then map_option PhraseSingle (phrase args)
      else if task args = ''phrase_multi'' then map_option PhraseMulti (phrase args)
      else if task args = ''text_grounding'' then map_option TextGrounding (text_slot args)
      else if task args = ''gui_box'' then map_option GuiBox (description args)
      else if task args = ''point'' then map_option Point (phrase args)
      else if task args = ''scene_text'' then Some SceneText else None)"

lemma decode_slot_pair [simp]:
  "key \<noteq> ''task'' \<Longrightarrow> decode_slot key variant (JObj [(''task'', JStr t), (key, JStr v)]) = Some (variant v)"
  by (auto simp: decode_slot_def exact_keys_def)

lemma required_slot_Inr:
  assumes "required_slot quit t key slot = Inr req" and "\<And>m r. quit m \<noteq> Inr r"
  shows "\<exists>v. slot = Some v \<and> req = JObj [(''task'', JStr t), (key, JStr v)]"
  using assms by (auto simp: required_slot_def split: option.splits)

lemma decode_request_slots [simp]:
  "decode_request (JObj [(''task'', JStr ''phrase_single''), (''phrase'', JStr v)]) = Some (PhraseSingle v)"
  "decode_request (JObj [(''task'', JStr ''phrase_multi''), (''phrase'', JStr v)]) = Some (PhraseMulti v)"
  "decode_request (JObj [(''task'', JStr ''text_grounding''), (''text'', JStr v)]) = Some (TextGrounding v)"
  "decode_request (JObj [(''task'', JStr ''gui_box''), (''description'', JStr v)]) = Some (GuiBox v)"
  "decode_request (JObj [(''task'', JStr ''point''), (''phrase'', JStr v)]) = Some (Point v)"
  by (simp_all add: decode_request_def)

lemma decode_request_scene [simp]: "decode_request (JObj [(''task'', JStr ''scene_text'')]) = Some SceneText"
  by (simp add: decode_request_def exact_keys_def)

lemma decode_request_detection [simp]:
  "decode_request (JObj [(''task'', JStr ''detection''), (''categories'', JList (map JStr cs))]) = Some (Detection cs)"
  by (simp add: decode_request_def exact_keys_def insert_commute)

lemma assemble_request_meant:
  assumes r: "assemble_request quit args = Inr req" and q: "\<And>m r. quit m \<noteq> Inr r"
  shows "\<exists>r. decode_request req = Some r \<and> meant_request args = Some r"
proof -
  consider "task args = ''detection''" | "task args = ''phrase_single''" | "task args = ''phrase_multi''"
    | "task args = ''text_grounding''" | "task args = ''scene_text''" | "task args = ''gui_box''" | "task args = ''point''"
    | "task args \<notin> set TASKS"
    by (auto simp: TASKS_def)
  then show ?thesis
  proof cases
    case 1
    with r q obtain c where "categories args = Some c"
      "req = JObj [(''task'', JStr ''detection''), (''categories'', JList (map JStr (split_categories c)))]"
      by (cases "categories args") (auto simp: assemble_request_def Let_def split: if_splits)
    with 1 show ?thesis by (simp add: meant_request_def)
  next
    case 2
    with r have "required_slot quit ''phrase_single'' ''phrase'' (phrase args) = Inr req" by (simp add: assemble_request_def)
    from required_slot_Inr [OF this q] 2 show ?thesis by (auto simp: meant_request_def)
  next
    case 3
    with r have "required_slot quit ''phrase_multi'' ''phrase'' (phrase args) = Inr req" by (simp add: assemble_request_def)
    from required_slot_Inr [OF this q] 3 show ?thesis by (auto simp: meant_request_def)
  next
    case 4
    with r have "required_slot quit ''text_grounding'' ''text'' (text_slot args) = Inr req" by (simp add: assemble_request_def)
    from required_slot_Inr [OF this q] 4 show ?thesis by (auto simp: meant_request_def)
  next
    case 5
    with r have "req = JObj [(''task'', JStr ''scene_text'')]" by (simp add: assemble_request_def)
    with 5 show ?thesis by (simp add: meant_request_def)
  next
    case 6
    with r have "required_slot quit ''gui_box'' ''description'' (description args) = Inr req" by (simp add: assemble_request_def)
    from required_slot_Inr [OF this q] 6 show ?thesis by (auto simp: meant_request_def)
  next
    case 7
    with r have "required_slot quit ''point'' ''phrase'' (phrase args) = Inr req" by (simp add: assemble_request_def)
    from required_slot_Inr [OF this q] 7 show ?thesis by (auto simp: meant_request_def)
  next
    case 8
    then have "assemble_request quit args = quit ''unknown --task''" by (auto simp: assemble_request_def TASKS_def)
    with r q show ?thesis by simp
  qed
qed

lemma wire_header_keys [simp]:
  "exact_keys [''frame_id'', ''request'', ''generation_mode'', ''jpeg_len''] (wire_header fid req mode n)"
  by (auto simp: exact_keys_def wire_header_def)

lemma wire_header_get [simp]:
  "jget (wire_header fid req mode n) ''frame_id'' = Some (JStr fid)"
  "jget (wire_header fid req mode n) ''request'' = Some req"
  "jget (wire_header fid req mode n) ''generation_mode'' = Some (JStr mode)"
  "jget (wire_header fid req mode n) ''jpeg_len'' = Some (JInt (int n))"
  by (simp_all add: wire_header_def)

lemma as_struct_wire_header [simp]: "as_struct keys (wire_header fid req mode n) = wire_header fid req mode n"
  by (simp add: wire_header_def)

lemma decode_wire_header:
  assumes "decode_request req = Some r" and "mode \<in> {''fast'', ''hybrid'', ''slow''}" and "n < 2 ^ 64"
  shows "decode_header (wire_header fid req mode n) =
    Some \<lparr>frame_id = fid, request = r, generation_mode = mode, jpeg_len = n\<rparr>"
proof -
  have "int n < int (2 ^ 64)" using assms(3) by (rule of_nat_less_iff [THEN iffD2])
  then have "int n < 2 ^ 64" by simp
  with assms show ?thesis by (simp add: decode_header_def Let_def)
qed

text \<open>What the edge makes of a frame whose header it has decoded.\<close>

definition edge_verdict :: "edge_libs \<Rightarrow> infer_header \<Rightarrow> byte list \<Rightarrow> binary_outcome" where
  "edge_verdict libs header jpeg =
     (case compile (nfc libs) (request header) of
        Inl e \<Rightarrow> PerFrame (frame_id header) ''invalid_request'' ''request rejected''
      | Inr (prompt, wire) \<Rightarrow>
          (case jpeg_error libs (jpeg_len header) jpeg of
             Some (code, message) \<Rightarrow> PerFrame (frame_id header) code message
           | None \<Rightarrow> Pending \<lparr>pf_header = header, pf_jpeg = jpeg, pf_prompt = prompt, pf_task = wire\<rparr>))"

lemma process_framed:
  assumes "from_slice libs header_bytes = Some j" and "decode_header j = Some h"
    and "header_bytes \<noteq> []" and "length header_bytes < 2 ^ 32"
    and "frame_id h \<noteq> []" and "length (utf8 (frame_id h)) \<le> 256"
  shows "process_binary libs (pack_u32 (length header_bytes) @ header_bytes @ jpeg) = edge_verdict libs h jpeg"
proof -
  have "take 4 (pack_u32 (length header_bytes) @ header_bytes @ jpeg) = pack_u32 (length header_bytes)"
    "drop 4 (pack_u32 (length header_bytes) @ header_bytes @ jpeg) = header_bytes @ jpeg"
    "drop (4 + length header_bytes) (pack_u32 (length header_bytes) @ header_bytes @ jpeg) = jpeg" by simp_all
  then show ?thesis
    using assms unpack_pack_u32 [OF assms(4)]
    by (simp add: process_binary_def edge_verdict_def Let_def split: sum.split option.split)
qed

lemma process_framed_long_id:
  assumes "from_slice libs header_bytes = Some j" and "decode_header j = Some h"
    and "header_bytes \<noteq> []" and "length header_bytes < 2 ^ 32"
    and "frame_id h \<noteq> []" and "256 < length (utf8 (frame_id h))"
  shows "process_binary libs (pack_u32 (length header_bytes) @ header_bytes @ jpeg) = FatalFraming ''header.frame_id too long''"
proof -
  have "take 4 (pack_u32 (length header_bytes) @ header_bytes @ jpeg) = pack_u32 (length header_bytes)"
    "drop 4 (pack_u32 (length header_bytes) @ header_bytes @ jpeg) = header_bytes @ jpeg" by simp_all
  then show ?thesis
    using assms unpack_pack_u32 [OF assms(4)] by (simp add: process_binary_def Let_def)
qed

lemma client_frame_long_id:
  assumes "build_request args = Inr req" and "wire_frame dumps fid req mode jpeg = Inr bytes"
    and "dumps (wire_header fid req mode (length jpeg)) \<noteq> []"
    and "from_slice libs (dumps (wire_header fid req mode (length jpeg))) = Some (wire_header fid req mode (length jpeg))"
    and "mode \<in> {''fast'', ''hybrid'', ''slow''}" and "length jpeg < 2 ^ 64"
    and "fid \<noteq> []" and "256 < length (utf8 fid)"
  shows "process_binary libs bytes = FatalFraming ''header.frame_id too long''"
proof -
  from assemble_request_meant [OF assms(1) [unfolded build_request_def]] obtain r where
    r: "decode_request req = Some r" "meant_request args = Some r" by auto
  let ?hb = "dumps (wire_header fid req mode (length jpeg))"
  from assms(2) have "length ?hb < 2 ^ 32" "bytes = pack_u32 (length ?hb) @ ?hb @ jpeg"
    by (simp_all add: wire_frame_def Let_def split: if_splits)
  with process_framed_long_id [OF assms(4) decode_wire_header [OF r(1) assms(5,6)] assms(3)] assms(7,8)
  show ?thesis by simp
qed

lemma client_frame_verdict:
  assumes "build_request args = Inr req" and "wire_frame dumps fid req mode jpeg = Inr bytes"
    and "dumps (wire_header fid req mode (length jpeg)) \<noteq> []"
    and "from_slice libs (dumps (wire_header fid req mode (length jpeg))) = Some (wire_header fid req mode (length jpeg))"
    and "mode \<in> {''fast'', ''hybrid'', ''slow''}" and "length jpeg < 2 ^ 64"
    and "fid \<noteq> []" and "length (utf8 fid) \<le> 256"
  shows "\<exists>r. meant_request args = Some r \<and> process_binary libs bytes =
    edge_verdict libs \<lparr>frame_id = fid, request = r, generation_mode = mode, jpeg_len = length jpeg\<rparr> jpeg"
proof -
  from assemble_request_meant [OF assms(1) [unfolded build_request_def]] obtain r where
    r: "decode_request req = Some r" "meant_request args = Some r" by auto
  let ?hb = "dumps (wire_header fid req mode (length jpeg))"
  from assms(2) have "length ?hb < 2 ^ 32" "bytes = pack_u32 (length ?hb) @ ?hb @ jpeg"
    by (simp_all add: wire_frame_def Let_def split: if_splits)
  with process_framed [OF assms(4) decode_wire_header [OF r(1) assms(5,6)] assms(3)] assms(7,8) r(2)
  show ?thesis by simp
qed

section \<open>Properties\<close>

text \<open>C20.
  What a client sends is what the edge reads: the frame built from the flags is never a framing error; the edge decodes
  from it exactly the typed request the flags mean, the frame id, the mode and the payload, and its verdict depends on
  nothing else. The hypotheses on \<open>dumps\<close> and \<open>from_slice\<close> are that JSON text is not empty and parses back.
\<close>

theorem client_frame_read_back:
  assumes "build_request args = Inr req" and "wire_frame dumps fid req mode jpeg = Inr bytes"
    and "dumps (wire_header fid req mode (length jpeg)) \<noteq> []"
    and "from_slice libs (dumps (wire_header fid req mode (length jpeg))) = Some (wire_header fid req mode (length jpeg))"
    and "mode \<in> {''fast'', ''hybrid'', ''slow''}" and "length jpeg < 2 ^ 64"
    and "fid \<noteq> []" and "length (utf8 fid) \<le> 256"
  shows "\<exists>r. meant_request args = Some r \<and> process_binary libs bytes =
    edge_verdict libs \<lparr>frame_id = fid, request = r, generation_mode = mode, jpeg_len = length jpeg\<rparr> jpeg"
  by (rule client_frame_verdict [OF assms])

definition demo_args :: client_args where
  "demo_args = \<lparr>task = ''detection'', categories = Some '' dog, ,cat'', phrase = None, text_slot = None, description = None\<rparr>"

lemma demo_build:
  "build_request demo_args = Inr (JObj [(''task'', JStr ''detection''), (''categories'', JList [JStr ''dog'', JStr ''cat''])])"
  by code_simp

lemma client_frame_read_back_witness:
  "\<exists>libs bytes req. build_request demo_args = Inr req \<and> wire_frame (\<lambda>_. [7]) ''c-1'' req ''slow'' demo_jpeg = Inr bytes \<and>
     process_binary libs bytes = edge_verdict libs
       \<lparr>frame_id = ''c-1'', request = Detection [''dog'', ''cat''], generation_mode = ''slow'', jpeg_len = length demo_jpeg\<rparr> demo_jpeg"
proof -
  define req where "req = JObj [(''task'', JStr ''detection''), (''categories'', JList [JStr ''dog'', JStr ''cat''])]"
  define libs where "libs = demo_edge\<lparr>from_slice := \<lambda>_. Some (wire_header ''c-1'' req ''slow'' (length demo_jpeg))\<rparr>"
  have b: "build_request demo_args = Inr req" unfolding req_def by (rule demo_build)
  have w: "wire_frame (\<lambda>_. [7]) ''c-1'' req ''slow'' demo_jpeg = Inr ([0, 0, 0, 1] @ [7] @ demo_jpeg)"
    by (simp add: wire_frame_def pack_u32_def)
  have m: "meant_request demo_args = Some (Detection [''dog'', ''cat''])" by code_simp
  have u: "length (utf8 ''c-1'') \<le> 256" by (simp add: utf8_def utf8_char_def)
  have l: "from_slice libs [7] = Some (wire_header ''c-1'' req ''slow'' (length demo_jpeg))" by (simp add: libs_def)
  have sizes: "length demo_jpeg < 2 ^ 64" "[7 :: byte] \<noteq> []" "''slow'' \<in> {''fast'', ''hybrid'', ''slow''}" "''c-1'' \<noteq> []"
    by (simp_all add: demo_jpeg_def)
  from client_frame_read_back [OF b w sizes(2) l sizes(3) sizes(1) sizes(4) u] m b w show ?thesis by auto
qed

end
