(* ===== verification/Reference_Client.thy ===== *)
theory Reference_Client
  imports Client_Request "HOL-Library.Sublist"
begin

text \<open>
  \<^verbatim>\<open>examples/reference_client.py\<close> beyond the request: the capture thread that scales and queues frames, the sender and
  the receiver of one connection, and the reconnect loop with exponential backoff. The video source, the JPEG
  encoder, and how each run of a connection ends are arguments. The lemmas show that scaled frames fit the server,
  that no reply of the edge makes the receiver fail, and how long and how often the client retries.
\<close>

section \<open>The capture thread\<close>

text \<open>\<open>int(w * scale)\<close> with \<open>scale = max_dim / max(w, h)\<close>, in floats.\<close>

definition scaled :: "int \<Rightarrow> int \<Rightarrow> int \<Rightarrow> int" where
  "scaled max_dim longest side = py_trunc (fl (of_int side * fl (of_int max_dim / of_int longest)))"

definition fit_size :: "int \<Rightarrow> int \<Rightarrow> int \<Rightarrow> int \<times> int" where
  "fit_size max_dim w h =
     (if max w h > max_dim then (scaled max_dim (max w h) w, scaled max_dim (max w h) h) else (w, h))"

text \<open>The loop: \<open>None\<close> is the sentinel of the queue. A source is the list of its frames by size; \<open>cv2.resize\<close> raises
  for an empty target, which ends the thread, still with the sentinel. \<open>stops\<close> says before which read the stop event
  was seen.\<close>

fun capture_loop :: "int \<Rightarrow> (nat \<Rightarrow> bool) \<Rightarrow> nat \<Rightarrow> (int \<times> int) list \<Rightarrow> (nat \<times> int \<times> int) option list" where
  "capture_loop max_dim stops i [] = [None]"
| "capture_loop max_dim stops i ((w, h) # frames) =
     (if stops i then [None]
      else let (w', h') = fit_size max_dim w h in
        if max w h > max_dim \<and> (w' \<le> 0 \<or> h' \<le> 0) then [None]
        else Some (i, w', h') # capture_loop max_dim stops (Suc i) frames)"

definition capture_thread :: "int \<Rightarrow> (nat \<Rightarrow> bool) \<Rightarrow> (int \<times> int) list option \<Rightarrow> (nat \<times> int \<times> int) option list" where
  "capture_thread max_dim stops source = (case source of
     None \<Rightarrow> []
   | Some frames \<Rightarrow> capture_loop max_dim stops 0 frames)"

section \<open>The sender\<close>

text \<open>\<open>imencode\<close> is OpenCV's encoder: whether it succeeded, and its buffer.\<close>

definition encode_jpeg :: "(int \<times> int \<Rightarrow> int \<Rightarrow> (bool \<times> byte list) res) \<Rightarrow> int \<Rightarrow> int \<times> int \<Rightarrow> byte list res" where
  "encode_jpeg imencode quality frame =
     bindr (imencode frame quality) (\<lambda>(success, buf). if success then ret buf else raise RuntimeError ''JPEG encode failed'')"

text \<open>How one of the two tasks of a connection stands: it waits, for the queue or for the peer; it returned; or it raised
  something with which \<open>run_once\<close> then ends.\<close>

datatype run_end = CleanRun | ClosedOK | ClosedError | RunFailed | Interrupted

datatype task_end = Waiting | Done | Raised run_end

text \<open>What is sent for the items of the queue, until the sentinel; a failed encode drops its frame. An exhausted queue blocks
  \<open>q.get\<close>; \<open>sends\<close> says how the n-th send ends.\<close>

fun sender ::
  "(json \<Rightarrow> byte list) \<Rightarrow> (int \<times> int \<Rightarrow> byte list res) \<Rightarrow> (nat \<Rightarrow> run_end option) \<Rightarrow> string \<Rightarrow> json \<Rightarrow> string \<Rightarrow>
   (nat \<times> int \<times> int) option list \<Rightarrow> byte list list \<times> task_end" where
  "sender dumps encode sends client_id req mode [] = ([], Waiting)"
| "sender dumps encode sends client_id req mode (None # items) = ([], Done)"
| "sender dumps encode sends client_id req mode (Some (i, frame) # items) =
     (case encode frame of
        Inl e \<Rightarrow>
          if exc_isa (exc_cls e) Exception then sender dumps encode sends client_id req mode items else ([], Raised Interrupted)
      | Inr jpeg \<Rightarrow>
          (case wire_frame dumps (numbered_id 8 client_id i) req mode jpeg of
             Inl e \<Rightarrow> ([], Raised RunFailed)
           | Inr payload \<Rightarrow>
               (case sends i of
                  Some e \<Rightarrow> ([], Raised e)
                | None \<Rightarrow> let (rest, te) = sender dumps encode sends client_id req mode items in (payload # rest, te))))"

section \<open>The receiver\<close>

text \<open>What is logged for a reply. Subscripts raise \<open>KeyError\<close>; \<open>.get\<close> on a value that is no dict raises \<open>AttributeError\<close>.\<close>

datatype reply_log =
    LogBoxes json nat "(json \<times> json) list"
  | LogPoints json nat "(json \<times> json) list"
  | LogAbstained json
  | LogError json
  | LogUnknown

definition item :: "json \<Rightarrow> string \<Rightarrow> json res" where
  "item obj key = (if \<not> is_obj obj then raise TypeError ''not subscriptable by a string''
     else case jget obj key of None \<Rightarrow> raise KeyError key | Some v \<Rightarrow> ret v)"

text \<open>\<open>len\<close> and the slice \<open>[:3]\<close> take a list or a string; a dict has a length and no slices.\<close>

fun py_list :: "json \<Rightarrow> json list res" where
  "py_list (JList vs) = ret vs"
| "py_list (JStr s) = ret (map (\<lambda>c. JStr [c]) s)"
| "py_list _ = raise TypeError ''no len() or no slice''"

definition log_items :: "string \<Rightarrow> json list \<Rightarrow> (json \<times> json) list res" where
  "log_items key items =
     mapr (\<lambda>b. bindr (item b ''label'') (\<lambda>l. bindr (item b key) (\<lambda>p. ret (l, p)))) (take 3 items)"

definition log_geometry ::
  "(json \<Rightarrow> nat \<Rightarrow> (json \<times> json) list \<Rightarrow> reply_log) \<Rightarrow> string \<Rightarrow> string \<Rightarrow> json \<Rightarrow> reply_log res" where
  "log_geometry entry list_key px_key obj =
     bindr (bindr (item obj list_key) py_list) (\<lambda>items.
     bindr (item obj ''deviations_dropped'') (\<lambda>_.
     bindr (item obj ''model_output_truncated'') (\<lambda>_.
     bindr (item obj ''latency_ms'') (\<lambda>latency.
     bindr (log_items px_key items) (\<lambda>shown. ret (entry latency (length items) shown))))))"

definition receive :: "json \<Rightarrow> reply_log res" where
  "receive obj =
     (if \<not> is_obj obj then raise AttributeError ''get''
      else let t = jget obj ''type'' in
      if t = Some (JStr ''boxes'') then log_geometry LogBoxes ''boxes'' ''bbox_px'' obj
      else if t = Some (JStr ''points'') then log_geometry LogPoints ''points'' ''point_px'' obj
      else if t = Some (JStr ''abstained'') then bindr (item obj ''latency_ms'') (\<lambda>l. ret (LogAbstained l))
      else if t = Some (JStr ''error'')
      then ret (LogError (case jget obj ''code'' of None \<Rightarrow> JNull | Some c \<Rightarrow> c))
      else ret LogUnknown)"

text \<open>The loop over the messages: text that is not JSON (\<open>None\<close>) is skipped. \<open>ws_end\<close> is how the socket stands after
  them; a normal close ends the loop.\<close>

fun receiver :: "task_end \<Rightarrow> json option list \<Rightarrow> reply_log list \<times> task_end" where
  "receiver ws_end [] = ([], ws_end)"
| "receiver ws_end (None # raws) = receiver ws_end raws"
| "receiver ws_end (Some obj # raws) =
     (case receive obj of
        Inl e \<Rightarrow> ([], Raised RunFailed)
      | Inr l \<Rightarrow> let (ls, te) = receiver ws_end raws in (l # ls, te))"

text \<open>\<open>gather\<close> ends with the first exception of the two, or when both have returned; \<open>None\<close> is to wait for ever. The
  result lists the ways it may end.\<close>

fun raised :: "task_end \<Rightarrow> run_end list" where
  "raised (Raised e) = [e]"
| "raised _ = []"

definition run_once :: "task_end \<Rightarrow> task_end \<Rightarrow> run_end option list" where
  "run_once s r =
     (if raised s @ raised r \<noteq> [] then map Some (raised s @ raised r)
      else if s = Done \<and> r = Done then [Some CleanRun] else [None])"

section \<open>The reconnect loop\<close>

record client_options =
  reconnect_delay :: int
  max_consecutive_errors :: int
  no_reconnect :: bool

datatype client_end = Running | Finished | Aborted | Overflowed | KilledBy

definition base_delay :: "client_options \<Rightarrow> rat" where "base_delay opts = fl (of_int (reconnect_delay opts))"

definition max_delay :: "client_options \<Rightarrow> rat" where "max_delay opts = max (base_delay opts) 60"

text \<open>\<open>min(max_delay, base_delay * (2 ** (consecutive_errors - 1)))\<close>: the power is the float 0.5 when the counter is 0; a
  power of \<open>2 ** 1024\<close> and more has no float.\<close>

definition backoff :: "client_options \<Rightarrow> nat \<Rightarrow> rat option" where
  "backoff opts errors =
     (if errors > 1024 then None else Some (min (max_delay opts) (fl (base_delay opts * 2 powi (int errors - 1)))))"

definition count_errors :: "nat \<Rightarrow> run_end \<Rightarrow> nat" where
  "count_errors errors e = (if e \<in> {CleanRun, ClosedOK} then 0 else Suc errors)"

text \<open>The sleeps, and how the loop stands after the runs of the list.\<close>

fun reconnect_loop :: "client_options \<Rightarrow> nat \<Rightarrow> run_end list \<Rightarrow> rat list \<times> client_end" where
  "reconnect_loop opts errors [] = ([], Running)"
| "reconnect_loop opts errors (e # es) =
     (if e = Interrupted then ([], KilledBy)
      else let errors = count_errors errors e in
      if no_reconnect opts then ([], Finished)
      else if int errors \<ge> max_consecutive_errors opts then ([], Aborted)
      else case backoff opts errors of
          None \<Rightarrow> ([], Overflowed)
        | Some d \<Rightarrow> (let (ds, oc) = reconnect_loop opts errors es in (d # ds, oc)))"

section \<open>main_async\<close>

text \<open>\<open>fetch_capabilities\<close> asks the HTTP side of the same host; \<open>scheme\<close> and \<open>netloc\<close> are what \<open>urlparse\<close> gives.\<close>

definition capabilities_url :: "string \<Rightarrow> string \<Rightarrow> string" where
  "capabilities_url scheme netloc = (if scheme = ''wss'' then ''https'' else ''http'') @ ''://'' @ netloc @ ''/v1/capabilities''"

text \<open>The log line after the fetch reads the capabilities under the same \<open>try\<close>: they and their \<open>calibration\<close> must be dicts.\<close>

definition log_capabilities :: "json res \<Rightarrow> json res" where
  "log_capabilities fetched = bindr fetched (\<lambda>caps.
     if is_obj caps \<and> (case jget caps ''calibration'' of None \<Rightarrow> True | Some c \<Rightarrow> is_obj c) then ret caps
     else raise AttributeError ''get'')"

text \<open>How a client comes to an end: a failed fetch is exit status 2, whatever the reason; then the request is built once; then
  the loop, whose abort is status 2 again.\<close>

definition client_main :: "json res \<Rightarrow> client_args \<Rightarrow> client_options \<Rightarrow> run_end list \<Rightarrow> (json \<times> json \<times> rat list \<times> client_end) res" where
  "client_main fetched args opts ends =
     bindr (catchr (log_capabilities fetched) [Exception] (\<lambda>e. raise SystemExit ''2'')) (\<lambda>caps.
     bindr (build_request args) (\<lambda>req.
     if \<bar>base_delay opts\<bar> \<ge> 2 ^ 1024 then raise OverflowError ''int too large to convert to float''
     else case reconnect_loop opts 0 ends of (delays, oc) \<Rightarrow>
       if oc = Aborted then raise SystemExit ''2'' else ret (caps, req, delays, oc)))"

section \<open>Lemmas\<close>

lemma scaled_bounds:
  assumes m: "0 < m" "m \<le> 2 ^ 50" and s: "0 \<le> s" "s \<le> l" "m < l" "l \<le> 2 ^ 50"
  shows "0 \<le> scaled m l s" and "scaled m l s \<le> m" and "s = l \<Longrightarrow> m - 1 \<le> scaled m l s"
proof -
  define q where "q = of_int m / (of_int l :: rat)"
  define x where "x = of_int s * fl q"
  have l: "0 < (of_int l :: rat)" using m s by simp
  have q: "0 < q" using m s by (simp add: q_def)
  have "(2 :: rat) powi (- 1022) \<le> 2 powi (- 50)" by (rule two_powi_mono) simp
  also have "(2 :: rat) powi (- 50) \<le> q"
  proof -
    have "(of_int l :: rat) \<le> of_int (2 ^ 50)" using s(4) by (simp only: of_int_le_iff)
    moreover have "(1 :: rat) \<le> of_int m" using m by simp
    ultimately show ?thesis using l by (simp add: q_def power_int_minus field_simps)
  qed
  finally have "\<bar>fl q - q\<bar> \<le> q * 2 powi (- 53)" using fl_error [of q] q by simp
  then have err: "fl q \<le> q + q * 2 powi (- 53)" "q - q * 2 powi (- 53) \<le> fl q" by linarith+
  have small: "of_int m * (2 :: rat) powi (- 53) \<le> 1 / 2"
  proof -
    have "(of_int m :: rat) \<le> of_int (2 ^ 50)" using m(2) by (simp only: of_int_le_iff)
    then show ?thesis by (simp add: power_int_minus field_simps)
  qed
  have half_int: "is_float (of_int n / 2)" if "\<bar>n\<bar> \<le> 2 ^ 53" for n :: int
    unfolding is_float_rep by (rule exI [of _ n], rule exI [of _ "- 1"]) (use that in \<open>simp add: power_int_minus\<close>)
  have half: "is_float (of_int m + 1 / 2)" "is_float (of_int m - 1 / 2)"
    using half_int [of "2 * m + 1"] half_int [of "2 * m - 1"] m by (simp_all add: add_divide_distrib diff_divide_distrib)
  have fq: "0 \<le> fl q" using q by (intro fl_nonneg) simp
  have x0: "0 \<le> x" using s(1) fq by (simp add: x_def)
  have "x \<le> of_int l * fl q" using s(2) fq by (simp add: x_def mult_right_mono)
  also have "\<dots> \<le> of_int l * (q + q * 2 powi (- 53))" using err(1) l by (intro mult_left_mono) simp_all
  also have "\<dots> = of_int m + of_int m * 2 powi (- 53)" using l by (simp add: q_def field_simps)
  finally have "x \<le> of_int m + 1 / 2" using small by linarith
  then have up: "fl x \<le> of_int m + 1 / 2" using half(1) by (rule fl_le_float)
  have sc: "scaled m l s = \<lfloor>fl x\<rfloor>" using x0 by (simp add: scaled_def py_trunc_def x_def q_def fl_nonneg)
  show "0 \<le> scaled m l s" using x0 by (simp add: sc fl_nonneg)
  show "scaled m l s \<le> m" unfolding sc using up by linarith
  show "m - 1 \<le> scaled m l s" if "s = l"
  proof -
    have "of_int l * (q - q * 2 powi (- 53)) \<le> of_int l * fl q" using err(2) l by (intro mult_left_mono) simp_all
    moreover have "of_int l * (q - q * 2 powi (- 53)) = of_int m - of_int m * 2 powi (- 53)" using l by (simp add: q_def field_simps)
    ultimately have "of_int m - 1 / 2 \<le> x" using small unfolding x_def that by linarith
    then have "of_int m - 1 / 2 \<le> fl x" using half(2) by (rule fl_ge_float)
    then show ?thesis unfolding sc by linarith
  qed
qed

lemma has_fields_get:
  assumes "has_fields spec j" and "(k, P) \<in> set spec"
  shows "\<exists>v. jget j k = Some v \<and> P v"
  using assms by (cases j) (fastforce simp: list_all_iff split: option.splits)+

lemma json_vec_list: "json_vec P v \<Longrightarrow> \<exists>vs. v = JList vs \<and> list_all P vs"
  by (cases v) auto

lemma item_Inr: "has_fields spec j \<Longrightarrow> (k, P) \<in> set spec \<Longrightarrow> \<exists>v. item j k = Inr v \<and> P v"
  using has_fields_get [of spec j k P] by (cases j) (auto simp: item_def)

lemma mapr_ok: "(\<And>x. x \<in> set xs \<Longrightarrow> \<exists>y. f x = Inr y) \<Longrightarrow> \<exists>ys. mapr f xs = Inr ys"
proof (induction xs)
  case (Cons a xs)
  obtain y where "f a = Inr y" using Cons.prems by (meson list.set_intros(1))
  with Cons show ?case by auto
qed simp

lemma log_items_ok:
  assumes "list_all (has_fields spec) vs" and "(''label'', P) \<in> set spec" and "(key, Q) \<in> set spec"
  shows "\<exists>l. log_items key vs = Inr l"
  unfolding log_items_def
proof (rule mapr_ok)
  fix b assume "b \<in> set (take 3 vs)"
  then have "has_fields spec b" using assms(1) by (meson in_set_takeD list_all_iff)
  from item_Inr [OF this assms(2)] item_Inr [OF this assms(3)]
  show "\<exists>y. bindr (item b ''label'') (\<lambda>l. bindr (item b key) (\<lambda>p. ret (l, p))) = Inr y" by auto
qed

lemma log_geometry_ok:
  assumes b: "has_fields ((''frame_id'', is_str) # (lk, json_vec (has_fields spec)) # Meta) (without ''type'' r)"
    and lk: "lk \<noteq> ''type''" and spec: "(''label'', P) \<in> set spec" "(key, Q) \<in> set spec"
    and obj: "is_obj r"
  shows "\<exists>latency n shown. log_geometry entry lk key r = Inr (entry latency n shown)"
proof -
  have get: "\<exists>v. item r k = Inr v \<and> R v"
    if "(k, R) \<in> set ((''frame_id'', is_str) # (lk, json_vec (has_fields spec)) # Meta)" "k \<noteq> ''type''" for k R
    using has_fields_get [OF b that(1)] that(2) obj by (auto simp: item_def jget_without [of "''type''"])
  obtain v where "item r lk = Inr v" "json_vec (has_fields spec) v" using get [of lk] lk by auto
  then obtain vs where vs: "item r lk = Inr (JList vs)" "list_all (has_fields spec) vs" using json_vec_list by blast
  have meta: "\<exists>v. item r ''deviations_dropped'' = Inr v" "\<exists>v. item r ''model_output_truncated'' = Inr v"
    "\<exists>v. item r ''latency_ms'' = Inr v"
    using get [of "''deviations_dropped''" u32] get [of "''model_output_truncated''" json_bool]
      get [of "''latency_ms''" json_number] by (auto simp: Meta_def)
  obtain shown where sh: "log_items key vs = Inr shown" using log_items_ok [OF vs(2) spec] by blast
  obtain l where l: "item r ''latency_ms'' = Inr l" using meta(3) by blast
  from meta(1,2) vs sh l have "log_geometry entry lk key r = Inr (entry l (length vs) shown)"
    by (auto simp: log_geometry_def)
  then show ?thesis by blast
qed

lemma Response_cases:
  assumes "is_Response r"
  obtains (boxes) "jget r ''type'' = Some (JStr ''boxes'')" "has_fields BoxesBody (without ''type'' r)"
  | (points) "jget r ''type'' = Some (JStr ''points'')" "has_fields PointsBody (without ''type'' r)"
  | (abstained) "jget r ''type'' = Some (JStr ''abstained'')" "has_fields AbstainedBody (without ''type'' r)"
  | (error) "jget r ''type'' = Some (JStr ''error'')" "has_fields ErrorBody (without ''type'' r)"
  using assms by (auto simp: is_Response_def Response_variants_def split: option.splits json.splits if_splits)

lemma Response_is_obj: "is_Response r \<Longrightarrow> is_obj r"
  by (cases r) (auto simp: is_Response_def)

lemma receive_Response:
  assumes "is_Response r"
  shows "\<exists>l. receive r = Inr l \<and> l \<noteq> LogUnknown"
proof -
  note obj = Response_is_obj [OF assms]
  from assms show ?thesis
  proof (cases rule: Response_cases)
    case boxes
    have "has_fields ((''frame_id'', is_str) # (''boxes'', json_vec (has_fields
      [(''label'', is_str), (''bbox_norm'', json_array 4 u16), (''bbox_px'', json_array 4 json_number)])) # Meta) (without ''type'' r)"
      using boxes(2) unfolding BoxesBody_def LabeledBox_def .
    from log_geometry_ok [OF this _ _ _ obj, of is_str "''bbox_px''" "json_array 4 json_number" LogBoxes] boxes(1) obj
    show ?thesis by (auto simp: receive_def)
  next
    case points
    have "has_fields ((''frame_id'', is_str) # (''points'', json_vec (has_fields
      [(''label'', is_str), (''point_norm'', json_array 2 u16), (''point_px'', json_array 2 json_number)])) # Meta) (without ''type'' r)"
      using points(2) unfolding PointsBody_def LabeledPoint_def .
    from log_geometry_ok [OF this _ _ _ obj, of is_str "''point_px''" "json_array 2 json_number" LogPoints] points(1) obj
    show ?thesis by (auto simp: receive_def)
  next
    case abstained
    have "(''latency_ms'', json_number) \<in> set AbstainedBody" by (simp add: AbstainedBody_def Meta_def)
    from has_fields_get [OF abstained(2) this] abstained(1) obj
    show ?thesis by (auto simp: receive_def item_def jget_without [of "''type''"])
  next
    case error
    with obj show ?thesis by (simp add: receive_def)
  qed
qed

lemma receiver_Responses:
  "list_all is_Response rs \<Longrightarrow>
   \<exists>ls. receiver ws_end (map Some rs) = (ls, ws_end) \<and> length ls = length rs \<and> LogUnknown \<notin> set ls"
proof (induction rs)
  case (Cons r rs)
  then obtain l ls where "receive r = Inr l" "l \<noteq> LogUnknown" "receiver ws_end (map Some rs) = (ls, ws_end)"
    "length ls = length rs" "LogUnknown \<notin> set ls" using receive_Response [of r] by auto
  then show ?case by simp
qed simp

text \<open>The reconnect loop.\<close>

definition failing :: "run_end \<Rightarrow> bool" where "failing e \<longleftrightarrow> e \<in> {ClosedError, RunFailed}"

definition limit :: "client_options \<Rightarrow> nat" where "limit opts = nat (max_consecutive_errors opts)"

lemma backoff_Some: "n \<le> 1024 \<Longrightarrow> \<exists>d. backoff opts n = Some d"
  by (simp add: backoff_def)

lemma reconnect_step:
  assumes "\<not> no_reconnect opts" "0 < max_consecutive_errors opts" "limit opts \<le> 1025" "e \<noteq> Interrupted" "n < limit opts"
  shows "reconnect_loop opts n (e # es) =
    (let n' = count_errors n e in
     if n' = limit opts then ([], Aborted)
     else let (ds, oc) = reconnect_loop opts n' es in (the (backoff opts n') # ds, oc))"
proof -
  have "count_errors n e \<le> limit opts" using assms(5) by (simp add: count_errors_def)
  moreover from this have "int (count_errors n e) \<ge> max_consecutive_errors opts \<longleftrightarrow> count_errors n e = limit opts"
    using assms(2) by (auto simp: limit_def)
  moreover have "\<exists>d. backoff opts (count_errors n e) = Some d" if "count_errors n e < limit opts"
    using that assms(3) by (intro backoff_Some) simp
  ultimately show ?thesis using assms(1,4) by (auto simp: Let_def)
qed

declare reconnect_loop.simps(2) [simp del]

lemma replicate_prefix_less: "prefix (replicate n x) ys \<Longrightarrow> k \<le> n \<Longrightarrow> prefix (replicate k x) ys"
proof -
  assume p: "prefix (replicate n x) ys" and k: "k \<le> n"
  have "replicate n x = replicate k x @ replicate (n - k) x" using k by (simp flip: replicate_add)
  then have "prefix (replicate k x) (replicate n x)" by simp
  with p show ?thesis by (rule prefix_order.trans [rotated])
qed

lemma reconnect_aborts:
  assumes o: "\<not> no_reconnect opts" "0 < max_consecutive_errors opts" "limit opts \<le> 1025"
    and "n < limit opts" and "Interrupted \<notin> set es"
  shows "(snd (reconnect_loop opts n es) = Aborted \<longleftrightarrow>
      prefix (replicate (limit opts - n) True) (map failing es) \<or> sublist (replicate (limit opts) True) (map failing es)) \<and>
    snd (reconnect_loop opts n es) \<in> {Running, Aborted}"
  using assms(4,5)
proof (induction es arbitrary: n)
  case Nil
  then show ?case by simp
next
  case (Cons e es)
  let ?m = "limit opts"
  have e: "e \<noteq> Interrupted" and es: "Interrupted \<notin> set es" using Cons.prems(2) by auto
  have sl: "sublist (replicate ?m True) (map failing (e # es)) \<longleftrightarrow>
      prefix (replicate ?m True) (map failing (e # es)) \<or> sublist (replicate ?m True) (map failing es)"
    by (simp add: sublist_Cons_right)
  obtain k where k: "?m - n = Suc k" using Cons.prems(1) by (metis Suc_diff_Suc)
  obtain m where m: "?m = Suc m" using Cons.prems(1) by (cases ?m) auto
  show ?case
  proof (cases "failing e")
    case True
    then have n': "count_errors n e = Suc n" by (auto simp: failing_def count_errors_def)
    show ?thesis
    proof (cases "Suc n = ?m")
      case True
      then have "?m - n = Suc 0" by linarith
      with True n' \<open>failing e\<close> show ?thesis by (simp add: reconnect_step [OF o e Cons.prems(1)])
    next
      case False
      with Cons.prems(1) have lt: "Suc n < ?m" by simp
      have "k = ?m - Suc n" using k by linarith
      with Cons.IH [OF lt es] sl \<open>failing e\<close> n' False k m replicate_prefix_less [of m True "map failing es" k]
      show ?thesis by (auto simp: reconnect_step [OF o e Cons.prems(1)] Let_def split: prod.splits)
    qed
  next
    case False
    then have n': "count_errors n e = 0" using e by (cases e) (auto simp: failing_def count_errors_def)
    have lt: "0 < ?m" using Cons.prems(1) by simp
    have "prefix (replicate ?m True) (map failing es) \<Longrightarrow> sublist (replicate ?m True) (map failing es)" by simp
    with Cons.IH [OF lt es] sl False n' k m
    show ?thesis by (auto simp: reconnect_step [OF o e Cons.prems(1)] Let_def split: prod.splits)
  qed
qed

lemma reconnect_dead:
  assumes o: "\<not> no_reconnect opts" "0 < max_consecutive_errors opts" "limit opts \<le> 1025"
    and "n < limit opts" and "list_all failing es" and "limit opts - n \<le> length es"
  shows "reconnect_loop opts n es = (map (\<lambda>k. the (backoff opts k)) [Suc n..<limit opts], Aborted)"
  using assms(4-6)
proof (induction es arbitrary: n)
  case (Cons e es)
  from Cons.prems have e: "e \<noteq> Interrupted" "count_errors n e = Suc n" by (auto simp: failing_def count_errors_def)
  show ?case
  proof (cases "Suc n = limit opts")
    case True
    with e show ?thesis by (simp add: reconnect_step [OF o e(1) Cons.prems(1)])
  next
    case False
    then have lt: "Suc n < limit opts" using Cons.prems(1) by simp
    have "reconnect_loop opts (Suc n) es = (map (\<lambda>k. the (backoff opts k)) [Suc (Suc n)..<limit opts], Aborted)"
      using Cons.prems by (intro Cons.IH [OF lt]) auto
    with False e lt show ?thesis by (simp add: reconnect_step [OF o e(1) Cons.prems(1)] upt_conv_Cons)
  qed
qed simp

lemma backoff_value:
  assumes "0 \<le> reconnect_delay opts" "reconnect_delay opts \<le> 2 ^ 53" "n \<le> 1024"
  shows "backoff opts n = Some (min (max (of_int (reconnect_delay opts)) 60) (of_int (reconnect_delay opts) * 2 powi (int n - 1)))"
proof -
  have "fl (of_int (reconnect_delay opts) * 2 powi (int n - 1)) = of_int (reconnect_delay opts) * 2 powi (int n - 1)"
    using assms by (intro fl_rep) simp_all
  moreover have "base_delay opts = of_int (reconnect_delay opts)"
    unfolding base_delay_def using assms by (intro fl_of_int) simp
  ultimately show ?thesis using assms(3) by (simp add: backoff_def max_delay_def)
qed

lemma fit_size_fits:
  assumes "0 < max_dim" "max_dim \<le> 2 ^ 50" "0 < w" "w \<le> 2 ^ 50" "0 < h" "h \<le> 2 ^ 50" "fit_size max_dim w h = (w', h')"
  shows "0 \<le> w' \<and> w' \<le> max_dim \<and> 0 \<le> h' \<and> h' \<le> max_dim \<and> (max w h > max_dim \<longrightarrow> max_dim - 1 \<le> max w' h')"
proof (cases "max w h > max_dim")
  case True
  have l: "max w h \<le> 2 ^ 50" using assms by simp
  note b = scaled_bounds [OF assms(1,2) _ _ True l]
  have "w' = scaled max_dim (max w h) w" "h' = scaled max_dim (max w h) h" using assms(7) True by (simp_all add: fit_size_def)
  with b [of w] b [of h] assms(3,5) show ?thesis by (auto simp: max_def split: if_splits)
next
  case False
  with assms show ?thesis by (auto simp: fit_size_def)
qed

lemma side_2240: "0 \<le> s \<Longrightarrow> s \<le> 2240 \<Longrightarrow> s div 14 \<le> (160 :: int)"
  by linarith

lemma small_passes_gate:
  assumes "0 \<le> w" "w \<le> 2240" "0 \<le> h" "h \<le> 2240"
  shows "gate_image w h = Inr ()"
proof -
  have "(w div 14) * (h div 14) \<le> 160 * 160" using assms side_2240 by (intro mult_mono) auto
  moreover have "(w + 28 - 1) div 28 * 28 div 14 < 512" "(h + 28 - 1) div 28 * 28 div 14 < 512" using assms by linarith+
  ultimately show ?thesis by (simp add: gate_image_def Let_def)
qed

text \<open>How a connection can come to stand still. An item of the queue is harmless to the sender if its frame is sent, or dropped
  because it cannot be encoded; a message is harmless to the receiver if it is skipped or logged.\<close>

definition harmless_item ::
  "(json \<Rightarrow> byte list) \<Rightarrow> (int \<times> int \<Rightarrow> byte list res) \<Rightarrow> (nat \<Rightarrow> run_end option) \<Rightarrow> string \<Rightarrow> json \<Rightarrow> string \<Rightarrow>
   nat \<times> int \<times> int \<Rightarrow> bool" where
  "harmless_item dumps encode sends client_id req mode x = (case x of (i, frame) \<Rightarrow>
     (case encode frame of
        Inl e \<Rightarrow> exc_isa (exc_cls e) Exception
      | Inr jpeg \<Rightarrow> returns (wire_frame dumps (numbered_id 8 client_id i) req mode jpeg) \<and> sends i = None))"

definition harmless_raw :: "json option \<Rightarrow> bool" where
  "harmless_raw raw = (case raw of None \<Rightarrow> True | Some obj \<Rightarrow> returns (receive obj))"

text \<open>The frames of an opened source that the thread queues, before the sentinel.\<close>

fun queued_frames :: "int \<Rightarrow> (nat \<Rightarrow> bool) \<Rightarrow> nat \<Rightarrow> (int \<times> int) list \<Rightarrow> (nat \<times> int \<times> int) list" where
  "queued_frames max_dim stops i [] = []"
| "queued_frames max_dim stops i ((w, h) # frames) =
     (if stops i \<or> max w h > max_dim \<and> (fst (fit_size max_dim w h) \<le> 0 \<or> snd (fit_size max_dim w h) \<le> 0) then []
      else (i, fit_size max_dim w h) # queued_frames max_dim stops (Suc i) frames)"

lemma capture_loop_queued:
  "capture_loop max_dim stops i frames = map Some (queued_frames max_dim stops i frames) @ [None]"
  by (induction max_dim stops i frames rule: queued_frames.induct) (auto simp: Let_def split: prod.splits)

lemma harmless_item_pair:
  "harmless_item dumps encode sends client_id req mode (i, frame) \<longleftrightarrow>
     (case encode frame of
        Inl e \<Rightarrow> exc_isa (exc_cls e) Exception
      | Inr jpeg \<Rightarrow> returns (wire_frame dumps (numbered_id 8 client_id i) req mode jpeg) \<and> sends i = None)"
  by (simp add: harmless_item_def)

lemma sender_end:
  "snd (sender dumps encode sends client_id req mode (map Some items @ [None])) \<noteq> Waiting"
  "snd (sender dumps encode sends client_id req mode (map Some items @ [None])) = Done \<longleftrightarrow>
     list_all (harmless_item dumps encode sends client_id req mode) items"
proof (induction items)
  case (Cons x items)
  case 1 show ?case using Cons(1) by (cases x) (auto split: sum.splits option.splits prod.splits)
  case 2 show ?case
    using Cons(2) by (cases x) (auto simp: harmless_item_pair returns_iff split: sum.splits option.splits prod.splits)
qed simp_all

lemma receiver_end:
  "snd (receiver ws_end raws) = (if list_all harmless_raw raws then ws_end else Raised RunFailed)"
proof (induction raws)
  case (Cons raw raws)
  then show ?case
    by (cases raw) (auto simp: harmless_raw_def returns_iff split: sum.splits prod.splits)
qed simp

lemma run_once_waits: "run_once s r = [None] \<longleftrightarrow> raised s = [] \<and> raised r = [] \<and> (s = Waiting \<or> r = Waiting)"
  by (cases s; cases r) (simp_all add: run_once_def)

section \<open>Properties\<close>

text \<open>The capture thread sends the server nothing too large: a frame of any realistic size is scaled, in floating point, to
  sides of at most \<open>max_dim\<close>, the longer one losing at most one pixel to truncation; with the advertised limit of 2240 the
  scaled frame then passes every size gate of the edge, unless a side fell below the minimum of 32.
\<close>

theorem scaled_frames_pass_edge:
  assumes "0 < max_dim" "max_dim \<le> 2240" "0 < w" "w \<le> 2 ^ 50" "0 < h" "h \<le> 2 ^ 50" "fit_size max_dim w h = (w', h')"
  shows "w' \<le> max_dim \<and> h' \<le> max_dim \<and> (max w h > max_dim \<longrightarrow> max_dim - 1 \<le> max w' h') \<and>
    (dimension_error max_dim w' h' = None \<longleftrightarrow> 32 \<le> w' \<and> 32 \<le> h')"
proof -
  have "max_dim \<le> 2 ^ 50" using assms(2) by simp
  from fit_size_fits [OF assms(1) this assms(3-7)] have f: "0 \<le> w'" "w' \<le> max_dim" "0 \<le> h'" "h' \<le> max_dim"
    "max w h > max_dim \<longrightarrow> max_dim - 1 \<le> max w' h'" by blast+
  then have "gate_image w' h' = Inr ()" using assms(2) by (intro small_passes_gate) linarith+
  with f show ?thesis unfolding dimension_error_None by blast
qed

lemma scaled_frames_pass_edge_witness:
  "\<exists>w' h'. fit_size 2240 3840 2160 = (w', h') \<and> w' \<le> 2240 \<and> h' \<le> 2240 \<and> 2239 \<le> max w' h'"
proof -
  obtain w' h' where f: "fit_size 2240 3840 2160 = (w', h')" by fastforce
  from scaled_frames_pass_edge [OF _ _ _ _ _ _ f] f show ?thesis by simp
qed

text \<open>No reply of the edge makes the reference client fail: the receiver logs every typed \<open>Response\<close> under its own variant,
  reads no missing key, and never reports an unknown type.
\<close>

theorem receiver_handles_every_response:
  assumes "list_all is_Response rs"
  shows "\<exists>ls. receiver ws_end (map Some rs) = (ls, ws_end) \<and> length ls = length rs \<and> LogUnknown \<notin> set ls"
  by (rule receiver_Responses [OF assms])

lemma receiver_handles_every_response_witness:
  "\<exists>ls. receiver Waiting [Some (error_response ''f'' ''internal'' ''m'')] = (ls, Waiting) \<and> LogUnknown \<notin> set ls"
proof -
  have "list_all is_Response [error_response ''f'' ''internal'' ''m'']"
    by (simp add: error_response_def is_Response_def Response_variants_def ErrorBody_def ErrorCode_def)
  from receiver_handles_every_response [OF this, of Waiting] show ?thesis by auto
qed

text \<open>C33.
  When the client gives up: with reconnection on, and not interrupted, it aborts exactly when the runs contain
  \<open>max_consecutive_errors\<close> failures in a row, whatever came before, and otherwise goes on; a clean run or a normal
  close starts the count anew.
\<close>

theorem client_aborts_iff_failures_in_a_row:
  assumes "\<not> no_reconnect opts" and "0 < max_consecutive_errors opts" and "max_consecutive_errors opts \<le> 1025"
    and "Interrupted \<notin> set es"
  shows "(snd (reconnect_loop opts 0 es) = Aborted \<longleftrightarrow>
      (\<exists>before failures after. es = before @ failures @ after \<and> list_all failing failures \<and>
         int (length failures) = max_consecutive_errors opts)) \<and>
    snd (reconnect_loop opts 0 es) \<in> {Running, Aborted}"
proof -
  have l: "limit opts \<le> 1025" "0 < limit opts" using assms(2,3) by (simp_all add: limit_def)
  have "sublist (replicate (limit opts) True) (map failing es) \<longleftrightarrow>
      (\<exists>before failures after. es = before @ failures @ after \<and> list_all failing failures \<and>
         int (length failures) = max_consecutive_errors opts)"
  proof
    assume "sublist (replicate (limit opts) True) (map failing es)"
    then obtain ps ss where m: "map failing es = ps @ replicate (limit opts) True @ ss" by (auto simp: sublist_def)
    define fs where "fs = take (limit opts) (drop (length ps) es)"
    have f: "map failing fs = replicate (limit opts) True" by (simp add: fs_def m flip: take_map drop_map)
    then have "length fs = limit opts" by (metis length_map length_replicate)
    then have "int (length fs) = max_consecutive_errors opts" using assms(2) by (simp add: limit_def)
    moreover have "list_all failing fs" using f by (metis in_set_replicate list_all_iff list.set_map image_eqI)
    moreover have "es = take (length ps) es @ fs @ drop (limit opts) (drop (length ps) es)"
      unfolding fs_def append_take_drop_id by (rule refl)
    ultimately show "\<exists>before failures after. es = before @ failures @ after \<and> list_all failing failures \<and>
         int (length failures) = max_consecutive_errors opts" by blast
  next
    assume "\<exists>before failures after. es = before @ failures @ after \<and> list_all failing failures \<and>
         int (length failures) = max_consecutive_errors opts"
    then obtain bs fs as' where f: "es = bs @ fs @ as'" "list_all failing fs" "int (length fs) = max_consecutive_errors opts"
      by blast
    then have "map failing fs = replicate (limit opts) True"
      by (intro replicate_eqI) (auto simp: limit_def list_all_iff)
    with f(1) show "sublist (replicate (limit opts) True) (map failing es)" by (auto simp: sublist_def)
  qed
  moreover have "prefix (replicate (limit opts) True) (map failing es) \<Longrightarrow> sublist (replicate (limit opts) True) (map failing es)"
    by simp
  ultimately show ?thesis using reconnect_aborts [OF assms(1,2) l(1) l(2) assms(4)] by auto
qed

definition demo_options :: client_options where
  "demo_options = \<lparr>reconnect_delay = 3, max_consecutive_errors = 3, no_reconnect = False\<rparr>"

lemma client_aborts_iff_failures_in_a_row_witness:
  "snd (reconnect_loop demo_options 0 [RunFailed, CleanRun, ClosedError, RunFailed, ClosedError]) = Aborted"
proof -
  have opts: "\<not> no_reconnect demo_options" "0 < max_consecutive_errors demo_options" "max_consecutive_errors demo_options \<le> 1025"
    "Interrupted \<notin> set [RunFailed, CleanRun, ClosedError, RunFailed, ClosedError]" by (simp_all add: demo_options_def)
  have "[RunFailed, CleanRun, ClosedError, RunFailed, ClosedError] = [RunFailed, CleanRun] @ [ClosedError, RunFailed, ClosedError] @ []
    \<and> list_all failing [ClosedError, RunFailed, ClosedError] \<and>
    int (length [ClosedError, RunFailed, ClosedError]) = max_consecutive_errors demo_options"
    by (simp add: failing_def demo_options_def)
  with client_aborts_iff_failures_in_a_row [OF opts] show ?thesis by blast
qed

text \<open>C34.
  The reconnect loop ends when the server is gone: if every run fails, the client aborts after \<open>max_consecutive_errors\<close>
  runs, having slept once between two runs, each time twice as long as before, from \<open>reconnect_delay\<close> up to the cap
  of 60 seconds or the initial delay.
\<close>

theorem dead_server_ends_client:
  assumes "\<not> no_reconnect opts" and "0 < max_consecutive_errors opts" and "max_consecutive_errors opts \<le> 1025"
    and "0 \<le> reconnect_delay opts" and "reconnect_delay opts \<le> 2 ^ 53"
    and "list_all failing es" and "max_consecutive_errors opts \<le> int (length es)"
  shows "reconnect_loop opts 0 es =
    (map (\<lambda>k. min (max (of_int (reconnect_delay opts)) 60) (of_int (reconnect_delay opts) * 2 ^ k))
       [0..<nat (max_consecutive_errors opts) - 1], Aborted)"
proof -
  have l: "limit opts \<le> 1025" "0 < limit opts" "limit opts - 0 \<le> length es"
    using assms(2,3,7) by (simp_all add: limit_def)
  obtain m where m: "limit opts = Suc m" using l(2) by (cases "limit opts") auto
  have "[Suc 0..<Suc m] = map Suc [0..<m]" by (simp add: map_Suc_upt)
  moreover have "the (backoff opts (Suc k)) = min (max (of_int (reconnect_delay opts)) 60) (of_int (reconnect_delay opts) * 2 ^ k)"
    if "k < m" for k
    using that l(1) m backoff_value [OF assms(4,5), of "Suc k"] by simp
  moreover have "nat (max_consecutive_errors opts) - 1 = m" using m by (simp add: limit_def)
  ultimately show ?thesis using reconnect_dead [OF assms(1,2) l(1) l(2) assms(6) l(3)] m by simp
qed

lemma dead_server_ends_client_witness:
  "reconnect_loop demo_options 0 (replicate 5 ClosedError) = ([3, 6], Aborted)"
proof -
  have "reconnect_loop demo_options 0 (replicate 5 ClosedError) =
      (map (\<lambda>k. min (max (of_int (reconnect_delay demo_options)) 60) (of_int (reconnect_delay demo_options) * 2 ^ k))
       [0..<nat (max_consecutive_errors demo_options) - 1], Aborted)"
    by (rule dead_server_ends_client) (simp_all add: demo_options_def failing_def list_all_iff)
  then show ?thesis by (simp add: demo_options_def upt_rec)
qed



end
