(* ===== verification/Smoke_Clients.thy ===== *)
theory Smoke_Clients
  imports Reference_Client
begin

text \<open>
  The two test clients: \<^verbatim>\<open>scripts/lib/smoke_ws_client.py\<close>, one frame whose reply is checked field by field, with an
  exit status per kind of anomaly, and \<^verbatim>\<open>scripts/lib/concurrency_smoke_client.py\<close>, several clients whose frame records
  are aggregated into a verdict. What the server answers, and when, is an argument. The lemmas show that a reply of the
  edge passes the smoke test and is never counted as a protocol anomaly, and what a passing concurrency test means.
\<close>

section \<open>Python on JSON values\<close>

definition exit_with :: "nat \<Rightarrow> 'a res" where "exit_with status = raise SystemExit (dec_digits status)"

text \<open>\<open>obj.get(key)\<close>: \<open>AttributeError\<close> on a value that is no dict, \<open>None\<close> for an absent key.\<close>

definition py_get :: "json \<Rightarrow> string \<Rightarrow> json res" where
  "py_get obj key = (if \<not> is_obj obj then raise AttributeError ''get''
     else ret (case jget obj key of None \<Rightarrow> JNull | Some v \<Rightarrow> v))"

fun is_int :: "json \<Rightarrow> bool" where
  "is_int (JInt i) = True"
| "is_int (JBool b) = True"
| "is_int _ = False"

fun is_number :: "json \<Rightarrow> bool" where
  "is_number (JFloat x) = True"
| "is_number j = is_int j"

fun is_list_of :: "nat \<Rightarrow> json \<Rightarrow> bool" where
  "is_list_of n (JList vs) = (length vs = n)"
| "is_list_of n _ = False"

section \<open>The smoke client\<close>

definition SUCCESS_TYPES :: "json list" where "SUCCESS_TYPES = [JStr ''boxes'', JStr ''points'', JStr ''abstained'']"

text \<open>The loop over the items of the geometry list.\<close>

fun check_items :: "string \<Rightarrow> nat \<Rightarrow> json list \<Rightarrow> unit res" where
  "check_items px_key n [] = ret ()"
| "check_items px_key n (b # bs) =
     bindr (py_get b ''label'') (\<lambda>l. if \<not> is_str l then exit_with 7
     else bindr (py_get b px_key) (\<lambda>px. if \<not> is_list_of n px then exit_with 7 else check_items px_key n bs))"

definition check_geometry :: "json \<Rightarrow> string \<Rightarrow> string \<Rightarrow> nat \<Rightarrow> unit res" where
  "check_geometry reply list_key px_key n =
     bindr (py_get reply list_key) (\<lambda>items.
     case items of JList bs \<Rightarrow> check_items px_key n bs | _ \<Rightarrow> exit_with 7)"

definition check_reply :: "json option \<Rightarrow> json \<Rightarrow> unit res" where
  "check_reply expect_type reply =
     bindr (py_get reply ''type'') (\<lambda>rtype.
     bindr (py_get reply ''raw_text'') (\<lambda>raw. if \<not> is_str raw then exit_with 8
     else bindr (py_get reply ''latency_ms'') (\<lambda>latency. if \<not> is_number latency then exit_with 9
     else bindr (py_get reply ''model_output_truncated'') (\<lambda>truncated. if \<not> json_bool truncated then exit_with 12
     else bindr (py_get reply ''deviations_dropped'') (\<lambda>deviations.
       if \<not> is_int deviations \<or> json_bool deviations then exit_with 11
     else bindr (if rtype = JStr ''boxes'' then check_geometry reply ''boxes'' ''bbox_px'' 4
                 else if rtype = JStr ''points'' then check_geometry reply ''points'' ''point_px'' 2
                 else ret ()) (\<lambda>_.
     if expect_type \<noteq> None \<and> rtype \<noteq> the expect_type then exit_with 15 else ret ()))))))"

text \<open>What becomes of a frame: it is not sent, since the connection cannot be opened or \<open>ws.send\<close> raises, or \<open>ws.recv\<close> comes to
  one of the other ends. A frame that is not sent ends the smoke client with that exception, whose \<open>except\<close>
  surrounds the wait alone.\<close>

datatype ws_answer = Message json | NotJson | WsClosed | TimedOut | NotSent

text \<open>\<open>asyncio.timeout\<close> around the wait: \<open>delay\<close> is the time \<open>recv\<close> waits for the answer, in seconds. An answer that is there
  already is taken whatever the time-out.\<close>

definition wait_for_answer :: "rat \<Rightarrow> ws_answer \<times> rat \<Rightarrow> ws_answer" where
  "wait_for_answer timeout waited = (case waited of (answer, delay) \<Rightarrow>
     if answer \<noteq> NotSent \<and> 0 < delay \<and> timeout \<le> delay then TimedOut else answer)"

definition await_reply :: "ws_answer \<Rightarrow> json res" where
  "await_reply answer = (case answer of
     WsClosed \<Rightarrow> exit_with 10
   | TimedOut \<Rightarrow> raise TimeoutError []
   | NotSent \<Rightarrow> raise Exception ''connection failed''
   | NotJson \<Rightarrow> raise JSONDecodeError []
   | Message obj \<Rightarrow>
       bindr (py_get obj ''type'') (\<lambda>t. bindr (py_get obj ''frame_id'') (\<lambda>fid.
       if fid \<noteq> JStr ''smoke-001'' then exit_with 5
       else if t = JStr ''error'' then exit_with 4
       else if t \<in> set SUCCESS_TYPES then ret obj
       else exit_with 5)))"

text \<open>\<open>run\<close>: \<open>server\<close> answers the frame it is sent, after some time; \<open>expect_type\<close> is \<open>None\<close> when the flag is absent or empty.\<close>

definition smoke_run ::
  "(json \<Rightarrow> byte list) \<Rightarrow> (byte list \<Rightarrow> ws_answer \<times> rat) \<Rightarrow> rat \<Rightarrow> byte list \<Rightarrow> client_args \<Rightarrow> string \<Rightarrow> json option \<Rightarrow>
   unit res" where
  "smoke_run dumps server timeout jpeg args mode expect_type =
     (if length jpeg < 3 \<or> take 3 jpeg \<noteq> [0xFF, 0xD8, 0xFF] then exit_with 2
      else bindr (build_request_smoke args) (\<lambda>req.
           bindr (wire_frame dumps ''smoke-001'' req mode jpeg) (\<lambda>payload.
           bindr (await_reply (wait_for_answer timeout (server payload))) (check_reply expect_type))))"

section \<open>The concurrency client\<close>

record frame_record =
  fr_frame_id :: string
  fr_latency_ms :: rat
  resp_type :: string
  fr_variant :: "json option"
  n_geom :: "nat option"

record client_result =
  client_id :: string
  frames :: "frame_record list"
  connect_failed :: "string option"

fun py_len :: "json \<Rightarrow> nat res" where
  "py_len (JList vs) = ret (length vs)"
| "py_len (JStr s) = ret (length s)"
| "py_len (JObj kvs) = ret (length kvs)"
| "py_len _ = raise TypeError ''object has no len()''"

definition geometry_count :: "json \<Rightarrow> string \<Rightarrow> nat res" where
  "geometry_count obj key = (case jget obj key of None \<Rightarrow> ret 0 | Some v \<Rightarrow> py_len v)"

text \<open>\<open>(obj.get("raw_text") or "")[:200]\<close> must not raise.\<close>

definition sliceable :: "json \<Rightarrow> unit res" where
  "sliceable v = (if \<not> truthy v then ret () else case v of JStr s \<Rightarrow> ret () | JList vs \<Rightarrow> ret () | _ \<Rightarrow> raise TypeError [])"

definition simple_record :: "string \<Rightarrow> rat \<Rightarrow> string \<Rightarrow> frame_record" where
  "simple_record fid lat t = \<lparr>fr_frame_id = fid, fr_latency_ms = lat, resp_type = t, fr_variant = None, n_geom = None\<rparr>"

text \<open>\<open>SUCCESS_TYPES\<close> is a set here, and looking up a list or a dict in it raises.\<close>

fun hashable :: "json \<Rightarrow> bool" where
  "hashable (JList vs) = False"
| "hashable (JObj kvs) = False"
| "hashable _ = True"

definition record_of_reply :: "string \<Rightarrow> rat \<Rightarrow> json \<Rightarrow> frame_record res" where
  "record_of_reply fid lat obj =
     bindr (py_get obj ''type'') (\<lambda>t. bindr (py_get obj ''frame_id'') (\<lambda>obj_fid.
     if obj_fid \<noteq> JStr fid then ret (simple_record fid lat ''unexpected:wrong_frame_id'')
     else if \<not> hashable t then raise TypeError ''unhashable type''
     else if t \<in> set SUCCESS_TYPES
     then bindr (if t = JStr ''boxes'' then geometry_count obj ''boxes''
                 else if t = JStr ''points'' then geometry_count obj ''points'' else ret 0) (\<lambda>n.
          bindr (bindr (py_get obj ''raw_text'') sliceable) (\<lambda>_.
          ret \<lparr>fr_frame_id = fid, fr_latency_ms = lat, resp_type = ''result'', fr_variant = Some t, n_geom = Some n\<rparr>))
     else if t = JStr ''error'' then ret (simple_record fid lat ''error'')
     else ret (simple_record fid lat ''unexpected:'')))"

text \<open>The frames of one client: the answer to each, with its latency, until the socket closes or something raises; a failed send is
  recorded as \<open>connect_failed\<close>, like every other exception.\<close>

fun client_frames ::
  "string \<Rightarrow> rat \<Rightarrow> nat \<Rightarrow> (ws_answer \<times> rat) list \<Rightarrow> frame_record list \<times> string option" where
  "client_frames cid frame_timeout i [] = ([], None)"
| "client_frames cid frame_timeout i ((answer, lat) # inbox) =
     (let fid = numbered_id 3 cid i in
      case answer of
        WsClosed \<Rightarrow> ([simple_record fid lat ''ws_closed''], None)
      | NotSent \<Rightarrow> ([], Some ''ConnectionClosed'')
      | NotJson \<Rightarrow> ([], Some ''JSONDecodeError'')
      | TimedOut \<Rightarrow>
          (let (rs, failed) = client_frames cid frame_timeout (Suc i) inbox
           in (simple_record fid (fl (frame_timeout * 1000)) ''timeout'' # rs, failed))
      | Message obj \<Rightarrow>
          (case record_of_reply fid lat obj of
             Inl e \<Rightarrow> ([], Some (exc_msg e))
           | Inr r \<Rightarrow> let (rs, failed) = client_frames cid frame_timeout (Suc i) inbox in (r # rs, failed)))"

text \<open>\<open>_run_one_client\<close>; \<open>None\<close> is a connection that could not be opened.\<close>

definition run_one_client :: "string \<Rightarrow> rat \<Rightarrow> (ws_answer \<times> rat) list option \<Rightarrow> client_result" where
  "run_one_client cid frame_timeout conn = (case conn of
     None \<Rightarrow> \<lparr>client_id = cid, frames = [], connect_failed = Some ''connect''\<rparr>
   | Some inbox \<Rightarrow> let (rs, failed) = client_frames cid frame_timeout 0 inbox
                   in \<lparr>client_id = cid, frames = rs, connect_failed = failed\<rparr>)"

definition p95 :: "rat list \<Rightarrow> rat" where
  "p95 xs = (let s = sort xs; idx = py_trunc (fl (of_nat (length s) * fl (95 / 100)));
                 idx = (if idx \<ge> int (length s) then int (length s) - 1 else idx)
             in s ! nat idx)"

record client_stats =
  st_n :: nat
  min_ms :: rat
  median_ms :: rat
  p95_ms :: rat
  max_ms :: rat

definition latency_stats :: "rat list \<Rightarrow> client_stats" where
  "latency_stats ls = \<lparr>st_n = length ls, min_ms = py_round 1 (Min (set ls)), median_ms = py_round 1 (median (sort ls)),
     p95_ms = py_round 1 (p95 ls), max_ms = py_round 1 (Max (set ls))\<rparr>"

definition ok_latencies :: "client_result \<Rightarrow> rat list" where
  "ok_latencies r = map fr_latency_ms (filter (\<lambda>f. resp_type f = ''result'') (frames r))"

definition per_client_stats :: "client_result list \<Rightarrow> client_stats list" where
  "per_client_stats results = map latency_stats (filter (\<lambda>ls. ls \<noteq> []) (map ok_latencies results))"

text \<open>The entries of \<open>failures\<close>, one per violation.\<close>

definition frame_failures :: "frame_record \<Rightarrow> string list" where
  "frame_failures f =
     (if resp_type f = ''timeout'' then [''timeout'']
      else if resp_type f = ''error'' then [''server returned an error'']
      else if py_startswith (resp_type f) ''unexpected'' then [''unexpected'']
      else if resp_type f = ''ws_closed'' then [''closed''] else [])"

definition client_failures :: "int \<Rightarrow> client_result \<Rightarrow> string list" where
  "client_failures n_frames r =
     (if connect_failed r \<noteq> None then [''WS connect failed'']
      else (if int (length (frames r)) \<noteq> n_frames then [''missing frame records''] else []) @
           concat (map frame_failures (frames r)))"

definition fairness_failures :: "rat \<Rightarrow> client_stats list \<Rightarrow> string list" where
  "fairness_failures max_ratio stats =
     (if length stats < 2 then []
      else let ms = map median_ms stats; m_min = Min (set ms); m_max = Max (set ms) in
      if m_min > 0 \<and> fl (m_max / m_min) \<le> max_ratio then [] else [''fairness violation''])"

definition concurrency_failures :: "int \<Rightarrow> rat \<Rightarrow> client_result list \<Rightarrow> string list" where
  "concurrency_failures n_frames max_ratio results =
     concat (map (client_failures n_frames) results) @ fairness_failures max_ratio (per_client_stats results)"

text \<open>Letters from \<open>A\<close>; \<open>char_of\<close> is \<open>chr\<close> for up to 191 clients.\<close>

definition client_name :: "nat \<Rightarrow> string" where "client_name i = ''smoke-cc-'' @ [char_of (65 + i)]"

text \<open>\<open>run\<close>: \<open>server\<close> gives, for the request and the number of the client, how its connection went.\<close>

definition concurrency_run ::
  "(json \<Rightarrow> nat \<Rightarrow> (ws_answer \<times> rat) list option) \<Rightarrow> byte list \<Rightarrow> client_args \<Rightarrow> int \<Rightarrow> int \<Rightarrow> rat \<Rightarrow> rat \<Rightarrow> nat res" where
  "concurrency_run server jpeg args num_clients n_frames frame_timeout max_ratio =
     (if length jpeg < 3 \<or> take 3 jpeg \<noteq> [0xFF, 0xD8, 0xFF] then ret 2
      else if num_clients < 2 then ret 2
      else bindr (build_request_concurrency args) (\<lambda>req.
        let results = map (\<lambda>i. run_one_client (client_name i) frame_timeout
              (map_option (take (nat n_frames)) (server req i))) [0..<nat num_clients]
        in ret (if concurrency_failures n_frames max_ratio results \<noteq> [] then 1 else 0)))"

section \<open>Lemmas\<close>

lemma py_get_obj [simp]: "is_obj obj \<Longrightarrow> jget obj k = Some v \<Longrightarrow> py_get obj k = Inr v"
  by (simp add: py_get_def)

lemma field_of_body:
  assumes "has_fields body (without ''type'' r)" and "(k, P) \<in> set body" and "k \<noteq> ''type''"
  shows "\<exists>v. jget r k = Some v \<and> P v"
  using has_fields_get [OF assms(1,2)] jget_without [of "''type''" k r] assms(3) by simp

lemma json_number_is_number: "json_number v \<Longrightarrow> is_number v"
  by (cases v) auto

lemma u32_int: "u32 v \<Longrightarrow> is_int v \<and> \<not> json_bool v"
  by (cases v) (auto simp: u32_def)

lemma json_array_is_list_of: "json_array n P v \<Longrightarrow> is_list_of n v"
  by (cases v) auto

lemma check_items_ok:
  assumes "list_all (has_fields spec) bs" and "(''label'', is_str) \<in> set spec" and "(key, json_array n P) \<in> set spec"
  shows "check_items key n bs = Inr ()"
  using assms(1)
proof (induction bs)
  case (Cons b bs)
  then have f: "has_fields spec b" by simp
  then have "is_obj b" by (cases b) auto
  with has_fields_get [OF f assms(2)] has_fields_get [OF f assms(3)] Cons json_array_is_list_of [of n P]
  show ?case by auto
qed simp

lemma check_geometry_ok:
  assumes "has_fields body (without ''type'' r)" and "is_obj r" and "(lk, json_vec (has_fields spec)) \<in> set body" "lk \<noteq> ''type''"
    and "(''label'', is_str) \<in> set spec" and "(key, json_array n P) \<in> set spec"
  shows "check_geometry r lk key n = Inr ()"
proof -
  from field_of_body [OF assms(1,3,4)] json_vec_list obtain bs where
    "jget r lk = Some (JList bs)" "list_all (has_fields spec) bs" by blast
  with assms(2) check_items_ok [OF _ assms(5,6)] show ?thesis by (simp add: check_geometry_def)
qed

text \<open>The common part of the three success variants.\<close>

lemma success_fields:
  assumes "is_Response r" and "jget r ''type'' \<noteq> Some (JStr ''error'')"
  obtains (fields) t raw lat tr dev where "jget r ''type'' = Some t" "t \<in> set SUCCESS_TYPES" "jget r ''raw_text'' = Some raw" "is_str raw"
    "jget r ''latency_ms'' = Some lat" "is_number lat" "jget r ''model_output_truncated'' = Some tr" "json_bool tr"
    "jget r ''deviations_dropped'' = Some dev" "is_int dev" "\<not> json_bool dev"
    "t = JStr ''boxes'' \<Longrightarrow> check_geometry r ''boxes'' ''bbox_px'' 4 = Inr ()"
    "t = JStr ''points'' \<Longrightarrow> check_geometry r ''points'' ''point_px'' 2 = Inr ()"
proof -
  note obj = Response_is_obj [OF assms(1)]
  have thesis if t: "jget r ''type'' = Some t" "t \<in> set SUCCESS_TYPES" and b: "has_fields body (without ''type'' r)"
    and meta: "set Meta \<subseteq> set body"
    and bs: "t = JStr ''boxes'' \<Longrightarrow> check_geometry r ''boxes'' ''bbox_px'' 4 = Inr ()"
    and ps: "t = JStr ''points'' \<Longrightarrow> check_geometry r ''points'' ''point_px'' 2 = Inr ()" for t body
  proof -
    have m: "(''raw_text'', is_str) \<in> set body" "(''latency_ms'', json_number) \<in> set body"
      "(''model_output_truncated'', json_bool) \<in> set body" "(''deviations_dropped'', u32) \<in> set body"
      using meta by (auto simp: Meta_def)
    obtain raw where "jget r ''raw_text'' = Some raw" "is_str raw" using field_of_body [OF b m(1)] by auto
    moreover obtain lat where "jget r ''latency_ms'' = Some lat" "is_number lat"
      using field_of_body [OF b m(2)] json_number_is_number by auto
    moreover obtain tr where "jget r ''model_output_truncated'' = Some tr" "json_bool tr" using field_of_body [OF b m(3)] by auto
    moreover obtain dev where "jget r ''deviations_dropped'' = Some dev" "is_int dev" "\<not> json_bool dev"
      using field_of_body [OF b m(4)] u32_int by auto
    ultimately show thesis using fields t bs ps by blast
  qed
  note finish = this
  from assms(1) show thesis
  proof (cases rule: Response_cases)
    case boxes
    have "check_geometry r ''boxes'' ''bbox_px'' 4 = Inr ()"
      by (rule check_geometry_ok [OF boxes(2) obj, where spec = "[(''label'', is_str), (''bbox_norm'', json_array 4 u16),
            (''bbox_px'', json_array 4 json_number)]" and P = json_number]) (simp_all add: BoxesBody_def LabeledBox_def)
    with boxes show thesis by (intro finish [of "JStr ''boxes''" BoxesBody]) (auto simp: SUCCESS_TYPES_def BoxesBody_def)
  next
    case points
    have "check_geometry r ''points'' ''point_px'' 2 = Inr ()"
      by (rule check_geometry_ok [OF points(2) obj, where spec = "[(''label'', is_str), (''point_norm'', json_array 2 u16),
            (''point_px'', json_array 2 json_number)]" and P = json_number]) (simp_all add: PointsBody_def LabeledPoint_def)
    with points show thesis by (intro finish [of "JStr ''points''" PointsBody]) (auto simp: SUCCESS_TYPES_def PointsBody_def)
  next
    case abstained
    then show thesis by (intro finish [of "JStr ''abstained''" AbstainedBody]) (auto simp: SUCCESS_TYPES_def AbstainedBody_def)
  next
    case error
    with assms(2) show thesis by simp
  qed
qed

lemma response_type: "is_Response r \<Longrightarrow> \<exists>t. jget r ''type'' = Some t"
  by (erule Response_cases) blast+

lemma success_hashable: "t \<in> set SUCCESS_TYPES \<Longrightarrow> hashable t"
  by (auto simp: SUCCESS_TYPES_def)

lemma error_not_success: "JStr ''error'' \<notin> set SUCCESS_TYPES"
  by (simp add: SUCCESS_TYPES_def)

lemma smoke_verdict:
  assumes r: "is_Response r" and fid: "jget r ''frame_id'' = Some (JStr ''smoke-001'')"
  shows "bindr (await_reply (Message r)) (check_reply expect_type) =
    (if jget r ''type'' = Some (JStr ''error'') then exit_with 4
     else if expect_type \<noteq> None \<and> jget r ''type'' \<noteq> expect_type then exit_with 15 else Inr ())"
proof (cases "jget r ''type'' = Some (JStr ''error'')")
  case True
  with fid Response_is_obj [OF r] show ?thesis by (simp add: await_reply_def exit_with_def)
next
  case False
  from r False show ?thesis
  proof (cases rule: success_fields)
    case (fields t raw lat tr dev)
    have "await_reply (Message r) = Inr r"
      using fields(1,2) fid False Response_is_obj [OF r] by (simp add: await_reply_def)
    moreover note get = py_get_obj [OF Response_is_obj [OF r]]
    have "check_reply expect_type r = (if expect_type \<noteq> None \<and> t \<noteq> the expect_type then exit_with 15 else Inr ())"
      unfolding check_reply_def get [OF fields(1)] get [OF fields(3)] get [OF fields(5)] get [OF fields(7)] get [OF fields(9)]
      using fields(4,6,8,10-13) by simp
    ultimately show ?thesis using fields(1) False by (cases expect_type) auto
  qed
qed

lemma record_of_Response:
  assumes r: "is_Response r" and fid: "jget r ''frame_id'' = Some (JStr fid)"
  shows "\<exists>rec. record_of_reply fid lat r = Inr rec \<and> fr_frame_id rec = fid \<and> fr_latency_ms rec = lat \<and>
    resp_type rec = (if jget r ''type'' = Some (JStr ''error'') then ''error'' else ''result'')"
proof (cases "jget r ''type'' = Some (JStr ''error'')")
  case True
  with fid Response_is_obj [OF r] error_not_success show ?thesis by (simp add: record_of_reply_def simple_record_def)
next
  case False
  from r False show ?thesis
  proof (cases rule: success_fields)
    case (fields t raw lat' tr dev)
    have s: "sliceable raw = Inr ()" using fields(4) by (cases raw) (simp_all add: sliceable_def)
    have "\<exists>n. geometry_count r ''boxes'' = Inr n" if "t = JStr ''boxes''"
      using fields(12) [OF that] Response_is_obj [OF r]
      by (auto simp: check_geometry_def geometry_count_def py_get_def exit_with_def bindr_eq_Inr split: option.splits json.splits)
    moreover have "\<exists>n. geometry_count r ''points'' = Inr n" if "t = JStr ''points''"
      using fields(13) [OF that] Response_is_obj [OF r]
      by (auto simp: check_geometry_def geometry_count_def py_get_def exit_with_def bindr_eq_Inr split: option.splits json.splits)
    ultimately obtain n where n: "(if t = JStr ''boxes'' then geometry_count r ''boxes''
        else if t = JStr ''points'' then geometry_count r ''points'' else ret 0) = Inr n" by metis
    note get = py_get_obj [OF Response_is_obj [OF r]]
    have "record_of_reply fid lat r = Inr \<lparr>fr_frame_id = fid, fr_latency_ms = lat, resp_type = ''result'', fr_variant = Some t,
        n_geom = Some n\<rparr>"
      unfolding record_of_reply_def get [OF fields(1)] get [OF fid] get [OF fields(3)] bindr_Inr n s
      using fields(2) success_hashable [OF fields(2)] by simp
    with False show ?thesis by simp
  qed
qed

text \<open>The types a record can have, and when a record is no failure.\<close>

definition record_types :: "string set" where
  "record_types = {''result'', ''error'', ''timeout'', ''ws_closed'', ''unexpected:wrong_frame_id'', ''unexpected:''}"

lemma record_of_reply_type: "record_of_reply fid lat obj = Inr rec \<Longrightarrow> resp_type rec \<in> record_types"
  by (auto simp: record_of_reply_def simple_record_def record_types_def bindr_eq_Inr split: if_splits)

lemma client_frames_types:
  "client_frames cid frame_timeout i inbox = (rs, failed) \<Longrightarrow> f \<in> set rs \<Longrightarrow> resp_type f \<in> record_types"
proof (induction cid frame_timeout i inbox arbitrary: rs failed rule: client_frames.induct)
  case (2 cid frame_timeout i answer lat inbox)
  have rec: "resp_type r \<in> record_types" if "r = simple_record fid l t" "t \<in> record_types" for r fid l t
    using that by (simp add: simple_record_def)
  show ?case
  proof (cases answer)
    case (Message obj)
    then show ?thesis
      using 2 record_of_reply_type [of "numbered_id 3 cid i" lat obj] by (auto split: prod.splits sum.splits)
  next
    case TimedOut
    have "''timeout'' \<in> record_types" by (simp add: record_types_def)
    with TimedOut 2 rec show ?thesis by (auto split: prod.splits)
  next
    case WsClosed
    have "''ws_closed'' \<in> record_types" by (simp add: record_types_def)
    with WsClosed 2 rec show ?thesis by auto
  qed (use 2 in simp_all)
qed simp

lemma frame_failures_Nil: "resp_type f \<in> record_types \<Longrightarrow> frame_failures f = [] \<longleftrightarrow> resp_type f = ''result''"
  by (auto simp: frame_failures_def record_types_def)

lemma run_one_client_types: "f \<in> set (frames (run_one_client cid frame_timeout conn)) \<Longrightarrow> resp_type f \<in> record_types"
  by (auto simp: run_one_client_def split: option.splits prod.splits intro: client_frames_types)

lemma fairness_failures_Nil:
  "fairness_failures max_ratio stats = [] \<longleftrightarrow> length stats < 2 \<or>
     (0 < Min (set (map median_ms stats)) \<and> fl (Max (set (map median_ms stats)) / Min (set (map median_ms stats))) \<le> max_ratio)"
  by (auto simp: fairness_failures_def Let_def)

lemma client_failures_Nil:
  assumes "\<And>f. f \<in> set (frames r) \<Longrightarrow> resp_type f \<in> record_types"
  shows "client_failures n_frames r = [] \<longleftrightarrow> connect_failed r = None \<and> int (length (frames r)) = n_frames \<and>
    list_all (\<lambda>f. resp_type f = ''result'') (frames r)"
  using assms frame_failures_Nil by (auto simp: client_failures_def list_all_iff)

section \<open>Properties\<close>

text \<open>The smoke test against the edge: for a typed \<open>Response\<close> to its frame it exits with status 4 on an error, with 15 on
  another variant than the expected one, and otherwise passes; none of the structural checks it makes on the fields
  and the items can fail.
\<close>

theorem smoke_test_verdict:
  assumes "is_Response r" and "jget r ''frame_id'' = Some (JStr ''smoke-001'')"
  shows "bindr (await_reply (Message r)) (check_reply expect_type) =
    (if jget r ''type'' = Some (JStr ''error'') then exit_with 4
     else if expect_type \<noteq> None \<and> jget r ''type'' \<noteq> expect_type then exit_with 15 else Inr ())"
  by (rule smoke_verdict [OF assms])

lemma smoke_test_verdict_witness:
  "bindr (await_reply (Message (error_response ''smoke-001'' ''internal'' ''m''))) (check_reply None) = exit_with 4"
proof -
  have r: "is_Response (error_response ''smoke-001'' ''internal'' ''m'')"
    by (simp add: error_response_def is_Response_def Response_variants_def ErrorBody_def ErrorCode_def)
  have f: "jget (error_response ''smoke-001'' ''internal'' ''m'') ''frame_id'' = Some (JStr ''smoke-001'')"
    by (simp add: error_response_def)
  from smoke_test_verdict [OF r f, of None] show ?thesis by (simp add: error_response_def)
qed

text \<open>C40.
  What a passing concurrency test means: it exits with status 0 exactly when at least two clients ran on a JPEG, each got
  its connection and a success reply to every one of its frames, and the medians of the clients differ by at most the
  fairness ratio.
\<close>

theorem concurrency_pass_iff:
  assumes "build_request_concurrency args = Inr req"
    and "results = map (\<lambda>i. run_one_client (client_name i) frame_timeout (map_option (take (nat n_frames)) (server req i))) [0..<nat num_clients]"
    and "medians = map median_ms (per_client_stats results)"
  shows "concurrency_run server jpeg args num_clients n_frames frame_timeout max_ratio = Inr 0 \<longleftrightarrow>
    2 \<le> num_clients \<and> take 3 jpeg = [0xFF, 0xD8, 0xFF] \<and>
    list_all (\<lambda>r. connect_failed r = None \<and> int (length (frames r)) = n_frames \<and>
      list_all (\<lambda>f. resp_type f = ''result'') (frames r)) results \<and>
    (length medians < 2 \<or> 0 < Min (set medians) \<and> fl (Max (set medians) / Min (set medians)) \<le> max_ratio)"
proof -
  have "take 3 jpeg = [0xFF, 0xD8, 0xFF] \<Longrightarrow> \<not> length jpeg < 3" by (drule arg_cong [of _ _ length]) simp
  moreover have "client_failures n_frames r = [] \<longleftrightarrow> connect_failed r = None \<and> int (length (frames r)) = n_frames \<and>
      list_all (\<lambda>f. resp_type f = ''result'') (frames r)" if "r \<in> set results" for r
    using that assms(2) run_one_client_types by (intro client_failures_Nil) auto
  then have "concat (map (client_failures n_frames) results) = [] \<longleftrightarrow>
      list_all (\<lambda>r. connect_failed r = None \<and> int (length (frames r)) = n_frames \<and>
        list_all (\<lambda>f. resp_type f = ''result'') (frames r)) results"
    by (auto simp: list_all_iff)
  moreover have "fairness_failures max_ratio (per_client_stats results) = [] \<longleftrightarrow>
      length medians < 2 \<or> 0 < Min (set medians) \<and> fl (Max (set medians) / Min (set medians)) \<le> max_ratio"
    unfolding fairness_failures_Nil assms(3) by simp
  ultimately show ?thesis
    unfolding concurrency_run_def assms(1) bindr_Inr Let_def assms(2) [symmetric] concurrency_failures_def append_is_Nil_conv
    by auto
qed

definition demo_reply :: "string \<Rightarrow> json" where
  "demo_reply fid = JObj [(''type'', JStr ''abstained''), (''frame_id'', JStr fid), (''raw_text'', JStr [])]"

definition demo_clients :: "json \<Rightarrow> nat \<Rightarrow> (ws_answer \<times> rat) list option" where
  "demo_clients req i = Some [(Message (demo_reply (numbered_id 3 (client_name i) 0)), 5)]"

lemma demo_frames:
  "run_one_client (client_name i) 60 (map_option (take (nat 1)) (demo_clients req i)) =
    \<lparr>client_id = client_name i, frames = [\<lparr>fr_frame_id = numbered_id 3 (client_name i) 0, fr_latency_ms = 5,
       resp_type = ''result'', fr_variant = Some (JStr ''abstained''), n_geom = Some 0\<rparr>], connect_failed = None\<rparr>"
  by (simp add: demo_clients_def run_one_client_def record_of_reply_def demo_reply_def py_get_def SUCCESS_TYPES_def
      sliceable_def)

lemma concurrency_pass_iff_witness:
  "concurrency_run demo_clients demo_jpeg demo_args 2 1 60 5 = Inr 0"
proof -
  have b: "build_request_concurrency demo_args =
      Inr (JObj [(''task'', JStr ''detection''), (''categories'', JList [JStr ''dog'', JStr ''cat''])])"
    by code_simp
  let ?req = "JObj [(''task'', JStr ''detection''), (''categories'', JList [JStr ''dog'', JStr ''cat''])]"
  let ?results = "map (\<lambda>i. run_one_client (client_name i) 60 (map_option (take (nat 1)) (demo_clients ?req i))) [0..<nat 2]"
  have m: "map median_ms (per_client_stats ?results) = [py_round 1 (median [5]), py_round 1 (median [5])]"
    unfolding demo_frames by (simp add: per_client_stats_def ok_latencies_def latency_stats_def upt_rec)
  have five: "py_round 1 (median [5]) = 5" by code_simp
  have one: "fl 1 = 1" using fl_of_int [of 1] by simp
  show ?thesis
    unfolding concurrency_pass_iff [where server = demo_clients and n_frames = 1 and frame_timeout = 60 and num_clients = 2, OF b refl m [symmetric]]
      five demo_frames
    by (simp add: one demo_jpeg_def list_all_iff)
qed

end
