(* ===== verification/Client_Pipe.thy ===== *)
theory Client_Pipe
  imports Reference_Client
begin

text \<open>
  The capture thread and the sender of \<^verbatim>\<open>examples/reference_client.py\<close> at work together, over the bounded
  \<open>queue.Queue\<close> between them: a step relation whose steps are what the two threads do between two blocking calls, in
  any interleaving. \<open>put\<close> blocks while the queue is full, \<open>get\<close> while it is empty, and a queue of size 0 or less is
  unbounded, as documented.

  The sequential functions of theory Reference_Client (\<open>capture_thread\<close>, \<open>sender\<close>) are the specification: the lemmas
  show that every interleaving refines them, with nothing lost, duplicated or reordered and never more than
  \<open>queue_max\<close> frames in memory; and that a sender that dies leaves a capture thread behind that nothing can end.
\<close>

section \<open>The state\<close>

type_synonym frame_item = "(nat \<times> int \<times> int) option"

text \<open>Where the capture thread is: about to look at the stop event and read; in \<open>q.put\<close> with a frame; in the \<open>q.put\<close> of the
  sentinel, after \<open>cap.release()\<close>; or over.\<close>

datatype capture_at = Reading | Putting frame_item | Released | CaptureOver

text \<open>Where the sender is: in \<open>q.get\<close>, or away with a frame; or returned or raised, as its \<open>task_end\<close>.\<close>

datatype sender_at = Getting | Holding "nat \<times> int \<times> int" | Ended task_end

record client_pipe =
  source_left :: "(int \<times> int) list"
  frame_index :: nat
  capture :: capture_at
  queue :: "frame_item list"
  sending :: sender_at
  handled :: "frame_item list"
  delivered :: "byte list list"
  stop_event :: bool

definition pipe_init :: "(int \<times> int) list \<Rightarrow> client_pipe" where
  "pipe_init frames = \<lparr>source_left = frames, frame_index = 0, capture = Reading, queue = [], sending = Getting,
     handled = [], delivered = [], stop_event = False\<rparr>"

section \<open>The steps\<close>

text \<open>\<open>q.put\<close> may go on.\<close>

definition has_room :: "int \<Rightarrow> 'a list \<Rightarrow> bool" where
  "has_room queue_max q \<longleftrightarrow> queue_max \<le> 0 \<or> int (length q) < queue_max"

text \<open>What the loop of the capture thread does with a frame it read: queue it, scaled, or raise in \<open>cv2.resize\<close>.\<close>

definition scaled_item :: "int \<Rightarrow> nat \<Rightarrow> int \<times> int \<Rightarrow> frame_item" where
  "scaled_item max_dim i f =
     (let (w, h) = f; (w', h') = fit_size max_dim w h
      in if max w h > max_dim \<and> (w' \<le> 0 \<or> h' \<le> 0) then None else Some (i, w', h'))"

text \<open>\<open>send_one\<close> is what the sender does with one frame: the payloads it sent, and \<open>Waiting\<close> if it goes on to the next \<open>get\<close>.\<close>

inductive pipe_step ::
  "int \<Rightarrow> int \<Rightarrow> (frame_item \<Rightarrow> byte list list \<times> task_end) \<Rightarrow> client_pipe \<Rightarrow> client_pipe \<Rightarrow> bool"
  for max_dim queue_max send_one where
  read: "capture s = Reading \<Longrightarrow> \<not> stop_event s \<Longrightarrow> source_left s = f # fs \<Longrightarrow>
    scaled_item max_dim (frame_index s) f = Some x \<Longrightarrow>
    pipe_step max_dim queue_max send_one s (s\<lparr>source_left := fs, capture := Putting (Some x)\<rparr>)"
| read_ends: "capture s = Reading \<Longrightarrow>
    stop_event s \<or> source_left s = [] \<or> scaled_item max_dim (frame_index s) (hd (source_left s)) = None \<Longrightarrow>
    pipe_step max_dim queue_max send_one s (s\<lparr>capture := Released\<rparr>)"
| put: "capture s = Putting x \<Longrightarrow> has_room queue_max (queue s) \<Longrightarrow>
    pipe_step max_dim queue_max send_one s
      (s\<lparr>queue := queue s @ [x], frame_index := Suc (frame_index s), capture := Reading\<rparr>)"
| put_sentinel: "capture s = Released \<Longrightarrow> has_room queue_max (queue s) \<Longrightarrow>
    pipe_step max_dim queue_max send_one s (s\<lparr>queue := queue s @ [None], capture := CaptureOver\<rparr>)"
| get: "sending s = Getting \<Longrightarrow> queue s = Some x # q \<Longrightarrow>
    pipe_step max_dim queue_max send_one s (s\<lparr>queue := q, sending := Holding x\<rparr>)"
| get_sentinel: "sending s = Getting \<Longrightarrow> queue s = None # q \<Longrightarrow>
    pipe_step max_dim queue_max send_one s (s\<lparr>queue := q, sending := Ended Done, handled := handled s @ [None]\<rparr>)"
| send: "sending s = Holding x \<Longrightarrow> send_one (Some x) = (payloads, te) \<Longrightarrow>
    pipe_step max_dim queue_max send_one s
      (s\<lparr>sending := (if te = Waiting then Getting else Ended te), handled := handled s @ [Some x],
         delivered := delivered s @ payloads\<rparr>)"
| stop: "pipe_step max_dim queue_max send_one s (s\<lparr>stop_event := True\<rparr>)"

text \<open>The sender's own loop body, for the steps above.\<close>

definition send_item ::
  "(json \<Rightarrow> byte list) \<Rightarrow> (int \<times> int \<Rightarrow> byte list res) \<Rightarrow> (nat \<Rightarrow> run_end option) \<Rightarrow> string \<Rightarrow> json \<Rightarrow> string \<Rightarrow>
   frame_item \<Rightarrow> byte list list \<times> task_end" where
  "send_item dumps encode sends client_id req mode x = sender dumps encode sends client_id req mode [x]"

inductive_cases pipe_stepE: "pipe_step max_dim queue_max send_one s t"

section \<open>Invariants\<close>

text \<open>The items that left the capture thread, in order: done with, in the sender's hands, queued, and in \<open>q.put\<close>.\<close>

definition held :: "sender_at \<Rightarrow> frame_item list" where
  "held sd = (case sd of Holding x \<Rightarrow> [Some x] | _ \<Rightarrow> [])"

definition in_put :: "capture_at \<Rightarrow> frame_item list" where
  "in_put c = (case c of Putting x \<Rightarrow> [x] | _ \<Rightarrow> [])"

definition produced :: "client_pipe \<Rightarrow> frame_item list" where
  "produced s = handled s @ held (sending s) @ queue s @ in_put (capture s)"

text \<open>What is still to come from the capture thread: it may be told to stop before any read.\<close>

definition capture_ok :: "int \<Rightarrow> (int \<times> int) list \<Rightarrow> client_pipe \<Rightarrow> bool" where
  "capture_ok max_dim frames s \<longleftrightarrow> (case capture s of
     Reading \<Rightarrow> (\<forall>later. \<exists>stops. capture_loop max_dim stops 0 frames =
       produced s @ capture_loop max_dim later (frame_index s) (source_left s))
   | Putting x \<Rightarrow> (\<forall>later. \<exists>stops. capture_loop max_dim stops 0 frames =
       produced s @ capture_loop max_dim later (Suc (frame_index s)) (source_left s))
   | Released \<Rightarrow> (\<exists>stops. capture_loop max_dim stops 0 frames = produced s @ [None])
   | CaptureOver \<Rightarrow> (\<exists>stops. capture_loop max_dim stops 0 frames = produced s))"

definition sender_end :: "sender_at \<Rightarrow> task_end" where
  "sender_end sd = (case sd of Ended te \<Rightarrow> te | _ \<Rightarrow> Waiting)"

definition sender_ok :: "(frame_item list \<Rightarrow> byte list list \<times> task_end) \<Rightarrow> client_pipe \<Rightarrow> bool" where
  "sender_ok run_sender s \<longleftrightarrow> run_sender (handled s) = (delivered s, sender_end (sending s)) \<and> sending s \<noteq> Ended Waiting"

definition queue_ok :: "int \<Rightarrow> client_pipe \<Rightarrow> bool" where
  "queue_ok queue_max s \<longleftrightarrow> (0 < queue_max \<longrightarrow> int (length (queue s)) \<le> queue_max)"

text \<open>The sentinel is queued last, and taken only by a sender that ends with it.\<close>

definition sentinel_ok :: "client_pipe \<Rightarrow> bool" where
  "sentinel_ok s \<longleftrightarrow> (None \<in> set (produced s) \<longleftrightarrow> capture s = CaptureOver) \<and> (None \<in> set (handled s) \<longleftrightarrow> sending s = Ended Done)"

section \<open>Lemmas\<close>

lemma capture_loop_item:
  "capture_loop max_dim stops i (f # fs) =
   (if stops i then [None] else case scaled_item max_dim i f of
      None \<Rightarrow> [None] | Some x \<Rightarrow> Some x # capture_loop max_dim stops (Suc i) fs)"
  by (cases f) (auto simp: scaled_item_def Let_def split: prod.split)

lemma capture_loop_cong:
  "(\<And>j. i \<le> j \<Longrightarrow> stops j = later j) \<Longrightarrow> capture_loop max_dim stops i fs = capture_loop max_dim later i fs"
  by (induction fs arbitrary: i) (auto simp: capture_loop_item simp del: capture_loop.simps(2) split: option.split)

lemma capture_loop_stopped [simp]: "capture_loop max_dim (\<lambda>_. True) i fs = [None]"
  by (cases fs) (simp_all add: capture_loop_item del: capture_loop.simps(2))

lemma capture_loop_unstopped:
  assumes "scaled_item max_dim i f = Some x"
  shows "capture_loop max_dim (later(i := False)) i (f # fs) = Some x # capture_loop max_dim later (Suc i) fs"
  using assms capture_loop_cong [of "Suc i" "later(i := False)" later max_dim fs]
  by (simp add: capture_loop_item del: capture_loop.simps(2))

lemma sender_append:
  "sender dumps encode sends cid req mode (xs @ ys) =
   (case sender dumps encode sends cid req mode xs of (ps, te) \<Rightarrow>
      if te = Waiting then (ps @ fst (sender dumps encode sends cid req mode ys), snd (sender dumps encode sends cid req mode ys))
      else (ps, te))"
proof (induction xs)
  case (Cons x xs)
  then show ?case by (cases x) (auto split: sum.split option.split prod.splits)
qed simp

lemma send_item_end: "snd (send_item dumps encode sends cid req mode (Some x)) \<noteq> Done"
  by (cases x) (auto simp: send_item_def split: sum.split option.split)

interpretation capturing: step_invariant "pipe_step max_dim queue_max send_one" "pipe_init frames" "capture_ok max_dim frames"
  for max_dim queue_max send_one frames
proof
  show "capture_ok max_dim frames (pipe_init frames)"
    by (auto simp: capture_ok_def pipe_init_def produced_def held_def in_put_def)
  fix s t assume inv: "capture_ok max_dim frames s" and "pipe_step max_dim queue_max send_one s t"
  from this(2) show "capture_ok max_dim frames t"
  proof cases
    case (read f fs x)
    have "\<exists>stops. capture_loop max_dim stops 0 frames =
        (produced s @ [Some x]) @ capture_loop max_dim later (Suc (frame_index s)) fs" for later
    proof -
      from inv read(2) obtain stops where "capture_loop max_dim stops 0 frames =
          produced s @ capture_loop max_dim (later(frame_index s := False)) (frame_index s) (source_left s)"
        by (auto simp: capture_ok_def)
      with capture_loop_unstopped [OF read(5), of later fs] read(4) show ?thesis by auto
    qed
    with read(1,2) show ?thesis by (simp add: capture_ok_def produced_def in_put_def)
  next
    case read_ends
    from inv read_ends(2) have "\<forall>later. \<exists>stops. capture_loop max_dim stops 0 frames =
        produced s @ capture_loop max_dim later (frame_index s) (source_left s)" by (simp add: capture_ok_def)
    from spec [OF this, of "\<lambda>_. True"] obtain stops where "capture_loop max_dim stops 0 frames = produced s @ [None]" by auto
    with read_ends(1,2) show ?thesis by (auto simp: capture_ok_def produced_def in_put_def)
  qed (use inv in \<open>auto simp: capture_ok_def produced_def in_put_def held_def split: capture_at.splits\<close>)
qed

interpretation sending: step_invariant "pipe_step max_dim queue_max (send_item dumps encode sends cid req mode)" "pipe_init frames"
    "sender_ok (sender dumps encode sends cid req mode)"
  for max_dim queue_max dumps encode sends cid req mode frames
proof
  let ?sender = "sender dumps encode sends cid req mode"
  show "sender_ok ?sender (pipe_init frames)" by (simp add: sender_ok_def pipe_init_def sender_end_def)
  fix s t assume inv: "sender_ok ?sender s"
    and "pipe_step max_dim queue_max (send_item dumps encode sends cid req mode) s t"
  from this(2) show "sender_ok ?sender t"
  proof cases
    case (send x payloads te)
    have "?sender [Some x] = (payloads, te)" using send(3) by (simp only: send_item_def)
    with inv send(1,2) show ?thesis by (simp add: sender_ok_def sender_end_def sender_append del: sender.simps(3))
  qed (use inv in \<open>auto simp: sender_ok_def sender_end_def sender_append\<close>)
qed

interpretation bounded: step_invariant "pipe_step max_dim queue_max send_one" "pipe_init frames" "queue_ok queue_max"
  for max_dim queue_max send_one frames
proof
  show "queue_ok queue_max (pipe_init frames)" by (simp add: queue_ok_def pipe_init_def)
  show "queue_ok queue_max t" if "queue_ok queue_max s" "pipe_step max_dim queue_max send_one s t" for s t
    using that(2,1) by (induction rule: pipe_step.induct) (auto simp: queue_ok_def has_room_def)
qed

interpretation sentinel: step_invariant "pipe_step max_dim queue_max (send_item dumps encode sends cid req mode)" "pipe_init frames"
    sentinel_ok
  for max_dim queue_max dumps encode sends cid req mode frames
proof
  show "sentinel_ok (pipe_init frames)"
    by (simp add: sentinel_ok_def pipe_init_def produced_def held_def in_put_def)
  fix s t assume inv: "sentinel_ok s"
    and "pipe_step max_dim queue_max (send_item dumps encode sends cid req mode) s t"
  from this(2) show "sentinel_ok t"
  proof cases
    case (send x payloads te)
    then have "te \<noteq> Done" using send_item_end [of dumps encode sends cid req mode x] by simp
    with inv send show ?thesis by (auto simp: sentinel_ok_def produced_def held_def in_put_def)
  qed (use inv in \<open>auto simp: sentinel_ok_def produced_def held_def in_put_def split: capture_at.splits sender_at.splits\<close>)
qed

text \<open>The work left: what the items in the source, in the threads' hands and in the queue still have to go through.\<close>

definition item_work :: "frame_item \<Rightarrow> nat" where
  "item_work x = (case x of None \<Rightarrow> 1 | Some _ \<Rightarrow> 2)"

definition pipe_work :: "client_pipe \<Rightarrow> nat" where
  "pipe_work s = 4 * length (source_left s) +
     (case capture s of Reading \<Rightarrow> 3 | Putting x \<Rightarrow> 4 + item_work x | Released \<Rightarrow> 2 | CaptureOver \<Rightarrow> 0) +
     sum_list (map item_work (queue s)) + (case sending s of Holding x \<Rightarrow> 1 | _ \<Rightarrow> 0)"

lemma pipe_work_step:
  assumes "pipe_step max_dim queue_max send_one s t"
  shows "pipe_work t < pipe_work s \<or> t = s\<lparr>stop_event := True\<rparr>"
  using assms by cases (auto simp: pipe_work_def item_work_def)

text \<open>While the sender has not ended there is always a step that gets on: somebody can run.\<close>

lemma pipe_progress:
  assumes "sentinel_ok s" and "sender_end (sending s) = Waiting" and "sending s \<noteq> Ended Waiting"
  shows "\<exists>t. pipe_step max_dim queue_max send_one s t \<and> pipe_work t < pipe_work s"
proof -
  have step: ?thesis
    if "pipe_step max_dim queue_max send_one s t" and "capture t \<noteq> capture s \<or> sending t \<noteq> sending s" for t
    using pipe_work_step [OF that(1)] that by auto
  consider (holding) x where "sending s = Holding x" | (getting) "sending s = Getting"
    using assms(2,3) by (cases "sending s") (auto simp: sender_end_def)
  then show ?thesis
  proof cases
    case holding
    obtain payloads te where o: "send_one (Some x) = (payloads, te)" by fastforce
    show ?thesis by (rule step, rule pipe_step.send) (use holding o in auto)
  next
    case getting
    show ?thesis
    proof (cases "queue s")
      case (Cons y q)
      show ?thesis
      proof (cases y)
        case None
        show ?thesis by (rule step, rule pipe_step.get_sentinel) (use getting Cons None in auto)
      next
        case (Some x)
        show ?thesis by (rule step, rule pipe_step.get) (use getting Cons Some in auto)
      qed
    next
      case Nil
      then have room: "has_room queue_max (queue s)" by (auto simp: has_room_def)
      show ?thesis
      proof (cases "capture s")
        case Reading
        show ?thesis
        proof (cases "stop_event s \<or> source_left s = [] \<or> scaled_item max_dim (frame_index s) (hd (source_left s)) = None")
          case True
          show ?thesis by (rule step, rule pipe_step.read_ends) (use Reading True in auto)
        next
          case False
          then obtain f fs x where "\<not> stop_event s" "source_left s = f # fs" "scaled_item max_dim (frame_index s) f = Some x"
            by (cases "source_left s") auto
          then show ?thesis by (intro step) (rule pipe_step.read, use Reading in auto)
        qed
      next
        case (Putting x)
        show ?thesis by (rule step, rule pipe_step.put) (use Putting room in auto)
      next
        case Released
        show ?thesis by (rule step, rule pipe_step.put_sentinel) (use Released room in auto)
      next
        case CaptureOver
        with assms(1) getting Nil show ?thesis by (auto simp: sentinel_ok_def produced_def held_def in_put_def)
      qed
    qed
  qed
qed

lemma pipe_finishes:
  assumes "reachable (pipe_step max_dim queue_max (send_item dumps encode sends cid req mode)) (pipe_init frames) s"
  shows "\<exists>t te. reachable (pipe_step max_dim queue_max (send_item dumps encode sends cid req mode)) s t \<and> sending t = Ended te"
  using assms
proof (induction "pipe_work s" arbitrary: s rule: less_induct)
  case less
  let ?step = "pipe_step max_dim queue_max (send_item dumps encode sends cid req mode)"
  have so: "sender_ok (sender dumps encode sends cid req mode) s" by (rule sending.always [OF less.prems])
  show ?case
  proof (cases "sender_end (sending s) = Waiting")
    case True
    with so pipe_progress [OF sentinel.always [OF less.prems]] obtain t where t: "?step s t" "pipe_work t < pipe_work s"
      unfolding sender_ok_def by blast
    have "reachable ?step (pipe_init frames) t" using less.prems t(1) by (rule reachable.further)
    from less.hyps [OF t(2) this] obtain u te where
      "reachable ?step t u" "sending u = Ended te" by blast
    from reachable_trans [OF this(1) reachable_step [where step = ?step, OF t(1)]] this(2) show ?thesis by blast
  next
    case False
    then obtain te where "sending s = Ended te" by (cases "sending s") (auto simp: sender_end_def)
    then show ?thesis by (intro exI conjI) (rule reachable.here)
  qed
qed

text \<open>A sender that has ended takes nothing more out of the queue.\<close>

definition stuck :: "int \<Rightarrow> frame_item \<Rightarrow> client_pipe \<Rightarrow> bool" where
  "stuck queue_max x s \<longleftrightarrow> capture s = Putting x \<and> (\<exists>te. sending s = Ended te) \<and> \<not> has_room queue_max (queue s)"

lemma stuck_for_ever:
  assumes "reachable (pipe_step max_dim queue_max send_one) s t" and "stuck queue_max x s"
  shows "stuck queue_max x t"
proof -
  have "stuck queue_max x u" if "stuck queue_max x r" "pipe_step max_dim queue_max send_one r u" for r u
    using that(2,1) by cases (auto simp: stuck_def)
  with assms show ?thesis by (induction rule: reachable.induct) blast+
qed

text \<open>A run for the witnesses: three frames, room for one, and a connection that is closed at the first send.\<close>

definition demo_send :: "frame_item \<Rightarrow> byte list list \<times> task_end" where
  "demo_send = send_item (\<lambda>_. [7]) (\<lambda>_. Inr [1]) (\<lambda>_. Some ClosedError) ''c'' JNull ''fast''"

definition demo_pipe :: "nat \<Rightarrow> nat \<Rightarrow> capture_at \<Rightarrow> frame_item list \<Rightarrow> sender_at \<Rightarrow> frame_item list \<Rightarrow> client_pipe" where
  "demo_pipe left i c q sd h = \<lparr>source_left = replicate left (640, 480), frame_index = i, capture = c, queue = q, sending = sd,
     handled = h, delivered = [], stop_event = False\<rparr>"

lemma demo_read: "pipe_step 2240 1 demo_send (demo_pipe (Suc n) i Reading q sd h) (demo_pipe n i (Putting (Some (i, 640, 480))) q sd h)"
  using pipe_step.read [of "demo_pipe (Suc n) i Reading q sd h" "(640, 480)" "replicate n (640, 480)" 2240 "(i, 640, 480)"]
  by (simp add: demo_pipe_def scaled_item_def fit_size_def)

lemma demo_put: "pipe_step 2240 1 demo_send (demo_pipe n i (Putting x) [] sd h) (demo_pipe n (Suc i) Reading [x] sd h)"
  using pipe_step.put [of "demo_pipe n i (Putting x) [] sd h" x 1] by (simp add: demo_pipe_def has_room_def)

lemma demo_get: "pipe_step 2240 1 demo_send (demo_pipe n i c [Some x] Getting h) (demo_pipe n i c [] (Holding x) h)"
  using pipe_step.get [of "demo_pipe n i c [Some x] Getting h" x "[]"] by (simp add: demo_pipe_def)

lemma demo_dies:
  "pipe_step 2240 1 demo_send (demo_pipe n i c q (Holding (j, 640, 480)) h)
     (demo_pipe n i c q (Ended (Raised ClosedError)) (h @ [Some (j, 640, 480)]))"
proof -
  have "demo_send (Some (j, 640, 480)) = ([], Raised ClosedError)"
    by (simp add: demo_send_def send_item_def wire_frame_def)
  from pipe_step.send [of "demo_pipe n i c q (Holding (j, 640, 480)) h" "(j, 640, 480)" demo_send, OF _ this] show ?thesis
    by (simp add: demo_pipe_def)
qed

lemma demo_stranded:
  "reachable (pipe_step 2240 1 demo_send) (pipe_init [(640, 480), (640, 480), (640, 480)])
     (demo_pipe 0 2 (Putting (Some (2, 640, 480))) [Some (1, 640, 480)] (Ended (Raised ClosedError)) [Some (0, 640, 480)])"
proof -
  have i: "pipe_init [(640, 480), (640, 480), (640, 480)] = demo_pipe 3 0 Reading [] Getting []"
    by (simp add: pipe_init_def demo_pipe_def numeral_3_eq_3)
  note more = reachable.further [where step = "pipe_step 2240 1 demo_send"]
  show ?thesis unfolding i numeral_3_eq_3
    by (simp add: numeral_2_eq_2)
       (intro more [OF _ demo_dies [of _ _ _ _ _ "[]", simplified]] more [OF _ demo_read] more [OF _ demo_put]
          more [OF _ demo_get] reachable.here)
qed

section \<open>Properties\<close>

text \<open>C31.
  The two threads of a connection refine their sequential description, whatever the interleaving: what the capture thread
  produces is its sequential output under some timing of the stop event, and the sender has handled a beginning of it,
  in order, the rest being in its hands, in the queue, in \<open>q.put\<close>, or still to come; nothing is lost, repeated or
  overtaken. What was sent is what the sequential sender sends for those items, and once the sender has ended, for all of
  the source. The queue never holds more than \<open>queue_max\<close> items.
\<close>

theorem pipe_refines_sequential:
  assumes "reachable (pipe_step max_dim queue_max (send_item dumps encode sends cid req mode)) (pipe_init frames) s"
  shows "(\<exists>stops rest. capture_thread max_dim stops (Some frames) =
       handled s @ held (sending s) @ queue s @ in_put (capture s) @ rest \<and>
     (case sending s of
        Ended te \<Rightarrow> sender dumps encode sends cid req mode (capture_thread max_dim stops (Some frames)) = (delivered s, te)
      | _ \<Rightarrow> sender dumps encode sends cid req mode (handled s) = (delivered s, Waiting))) \<and>
    (queue_max \<le> 0 \<or> int (length (queue s)) \<le> queue_max)"
proof -
  have "\<exists>stops rest. capture_loop max_dim stops 0 frames = produced s @ rest"
    using capturing.always [OF assms] append_Nil2 [of "produced s"] unfolding capture_ok_def
    by (cases "capture s"; simp; metis)
  then obtain stops rest where c: "capture_thread max_dim stops (Some frames) =
      handled s @ held (sending s) @ queue s @ in_put (capture s) @ rest"
    by (auto simp: capture_thread_def produced_def)
  have so: "sender dumps encode sends cid req mode (handled s) = (delivered s, sender_end (sending s))" "sending s \<noteq> Ended Waiting"
    using sending.always [OF assms] by (simp_all add: sender_ok_def)
  have "case sending s of
      Ended te \<Rightarrow> sender dumps encode sends cid req mode (capture_thread max_dim stops (Some frames)) = (delivered s, te)
    | _ \<Rightarrow> sender dumps encode sends cid req mode (handled s) = (delivered s, Waiting)"
    using so by (auto simp: c sender_append sender_end_def split: sender_at.split)
  with c bounded.always [OF assms] show ?thesis by (auto simp: queue_ok_def not_less)
qed

lemma pipe_refines_sequential_witness:
  "\<exists>s stops rest. reachable (pipe_step 2240 1 demo_send) (pipe_init [(640, 480), (640, 480), (640, 480)]) s \<and>
     queue s \<noteq> [] \<and> capture_thread 2240 stops (Some [(640, 480), (640, 480), (640, 480)]) =
       handled s @ held (sending s) @ queue s @ in_put (capture s) @ rest"
proof -
  let ?s = "demo_pipe 0 2 (Putting (Some (2, 640, 480))) [Some (1, 640, 480)] (Ended (Raised ClosedError)) [Some (0, 640, 480)]"
  have "queue ?s \<noteq> []" by (simp add: demo_pipe_def)
  with pipe_refines_sequential [OF demo_stranded [unfolded demo_send_def]] demo_stranded show ?thesis by blast
qed

text \<open>C38.
  The hand-over never deadlocks: from every state the two threads can get into, however small the queue, some steps lead to
  the end of the sender, after finitely many, whether or not the stop event is set; and only a step that just sets
  the stop event does not use up work.
\<close>

theorem pipe_never_deadlocks:
  assumes "reachable (pipe_step max_dim queue_max (send_item dumps encode sends cid req mode)) (pipe_init frames) s"
  shows "(\<exists>t te. reachable (pipe_step max_dim queue_max (send_item dumps encode sends cid req mode)) s t \<and> sending t = Ended te) \<and>
    (pipe_step max_dim queue_max (send_item dumps encode sends cid req mode) s u \<longrightarrow>
       pipe_work u < pipe_work s \<or> u = s\<lparr>stop_event := True\<rparr>)"
  using pipe_finishes [OF assms] pipe_work_step by blast

lemma pipe_never_deadlocks_witness:
  "\<exists>t te. reachable (pipe_step 2240 1 (send_item (\<lambda>_. [7]) (\<lambda>_. Inr [1]) (\<lambda>_. None) ''c'' JNull ''fast''))
     (pipe_init [(640, 480), (640, 480)]) t \<and> sending t = Ended te"
  using pipe_never_deadlocks [OF reachable.here] by blast

text \<open>C36.
  A sender that dies at a full queue leaves the capture thread behind for good: it waits in \<open>q.put\<close>, nobody will ever
  take an item, and setting the stop event, which it does not look at there, changes nothing; so the camera is
  not released, and the next connection opens the source once more beside it.
\<close>

theorem dead_sender_strands_capture:
  assumes "capture s = Putting x" and "sending s = Ended te" and "0 < queue_max" and "queue_max \<le> int (length (queue s))"
    and "reachable (pipe_step max_dim queue_max send_one) (s\<lparr>stop_event := True\<rparr>) t"
  shows "capture t = Putting x \<and> (\<forall>u. pipe_step max_dim queue_max send_one t u \<longrightarrow> u = t\<lparr>stop_event := True\<rparr>)"
proof -
  have "stuck queue_max x (s\<lparr>stop_event := True\<rparr>)" using assms by (simp add: stuck_def has_room_def)
  from stuck_for_ever [OF assms(5) this] have st: "stuck queue_max x t" .
  have "u = t\<lparr>stop_event := True\<rparr>" if "pipe_step max_dim queue_max send_one t u" for u
    using that st by cases (auto simp: stuck_def)
  with st show ?thesis by (simp add: stuck_def)
qed

lemma dead_sender_strands_capture_witness:
  "\<exists>s x t. reachable (pipe_step 2240 1 demo_send) (pipe_init [(640, 480), (640, 480), (640, 480)]) s \<and>
     reachable (pipe_step 2240 1 demo_send) (s\<lparr>stop_event := True\<rparr>) t \<and> capture t = Putting x"
proof -
  let ?x = "Some (2, 640, 480)" and ?te = "Raised ClosedError"
  let ?s = "demo_pipe 0 2 (Putting ?x) [Some (1, 640, 480)] (Ended ?te) [Some (0, 640, 480)]"
  have c: "capture ?s = Putting ?x" "sending ?s = Ended ?te" "(0 :: int) < 1" "1 \<le> int (length (queue ?s))"
    by (simp_all add: demo_pipe_def)
  have r: "reachable (pipe_step 2240 1 demo_send) (?s\<lparr>stop_event := True\<rparr>) (?s\<lparr>stop_event := True\<rparr>)" by (rule reachable.here)
  from dead_sender_strands_capture [OF c r] demo_stranded r show ?thesis by blast
qed

end
