(* ===== verification/Py_Args.thy ===== *)
theory Py_Args
  imports Py_Float
begin

text \<open>
  Python's \<^verbatim>\<open>argparse\<close> as the clients use it: a parser with long options only (each takes one value or is a flag) and the
  built-in \<^verbatim>\<open>-h/--help\<close>, no positional arguments. The way a word is classified (\<open>--name\<close>, \<open>--name=value\<close>, unambiguous
  abbreviations, negative numbers and words with blanks as plain words), the meaning of \<open>--\<close>, the conversions and the
  checks are those of CPython 3.11 and of the 3.12 of the container's distribution. Help exits with status 0, every
  usage error with status 2. The lemmas say what a rendered command line means and what an accepted one guarantees.
\<close>

section \<open>Options and their values\<close>

text \<open>A float that is no rational keeps its spelling: an infinity or a NaN.\<close>

datatype arg_value = NoneArg | BoolArg bool | StrArg string | IntArg int | FloatArg rat | SpecialFloat string

datatype arg_kind = Store_str | Store_int | Store_float | Store_true

record arg_spec =
  a_flag :: string
  a_kind :: arg_kind
  a_choices :: "string list option"
  a_required :: bool
  a_default :: arg_value

definition flag_arg :: "string \<Rightarrow> arg_spec" where
  "flag_arg f = \<lparr>a_flag = f, a_kind = Store_true, a_choices = None, a_required = False, a_default = BoolArg False\<rparr>"

definition str_arg :: "string \<Rightarrow> arg_value \<Rightarrow> arg_spec" where
  "str_arg f d = \<lparr>a_flag = f, a_kind = Store_str, a_choices = None, a_required = False, a_default = d\<rparr>"

definition int_arg :: "string \<Rightarrow> int \<Rightarrow> arg_spec" where
  "int_arg f d = \<lparr>a_flag = f, a_kind = Store_int, a_choices = None, a_required = False, a_default = IntArg d\<rparr>"

definition float_arg :: "string \<Rightarrow> rat \<Rightarrow> arg_spec" where
  "float_arg f d = \<lparr>a_flag = f, a_kind = Store_float, a_choices = None, a_required = False, a_default = FloatArg d\<rparr>"

definition usage_error :: "'a res" where "usage_error = raise SystemExit ''2''"

text \<open>\<open>float(s)\<close>: the spellings of the special values in any case, and the numerals too large for a float.\<close>

definition special_float :: "string \<Rightarrow> bool" where
  "special_float s \<longleftrightarrow> py_lower (snd (py_sign (py_strip s))) \<in> {''inf'', ''infinity'', ''nan''}"

definition float_value :: "string \<Rightarrow> arg_value res" where
  "float_value s =
     (if special_float s then ret (SpecialFloat (py_strip s))
      else bindr (py_float s) (\<lambda>x. ret (if \<bar>x\<bar> \<ge> 2 ^ 1024 then SpecialFloat (py_strip s) else FloatArg x)))"

text \<open>\<open>_get_values\<close>: a conversion that raises, or a value that is no choice, is a usage error.\<close>

definition convert_arg :: "arg_kind \<Rightarrow> string \<Rightarrow> arg_value res" where
  "convert_arg k v = (case k of
     Store_int \<Rightarrow> bindr (py_int v) (\<lambda>i. ret (IntArg i))
   | Store_float \<Rightarrow> float_value v
   | _ \<Rightarrow> ret (StrArg v))"

definition get_value :: "arg_spec \<Rightarrow> string \<Rightarrow> arg_value res" where
  "get_value s v = (case convert_arg (a_kind s) v of
     Inl e \<Rightarrow> usage_error
   | Inr x \<Rightarrow> (case a_choices s of None \<Rightarrow> ret x | Some cs \<Rightarrow> if x \<in> StrArg ` set cs then ret x else usage_error))"

section \<open>Classifying a word\<close>

definition find_arg :: "arg_spec list \<Rightarrow> string \<Rightarrow> arg_spec option" where
  "find_arg specs f = List.find (\<lambda>s. a_flag s = f) specs"

text \<open>\<open>word.partition('=')\<close>, with \<open>None\<close> when there is no separator.\<close>

definition partition_eq :: "string \<Rightarrow> string \<times> string option" where
  "partition_eq w = (let name = takeWhile (\<lambda>c. c \<noteq> CHR ''='') w in
     (name, if length name < length w then Some (drop (Suc (length name)) w) else None))"

text \<open>\<open>'^-\d+$|^-\d*\.\d+$'\<close>, where \<open>$\<close> also matches before a final newline.\<close>

definition negative_number :: "string \<Rightarrow> bool" where
  "negative_number w = (let t = (if w \<noteq> [] \<and> last w = CHR 0x0A then butlast w else w);
       i = takeWhile py_isdigit (drop 1 t); f = drop (Suc (length i)) t in
     py_startswith t ''-'' \<and>
     (if f = [] then i \<noteq> []
      else hd f = CHR ''.'' \<and> tl f \<noteq> [] \<and> list_all py_isdigit (tl f)))"

text \<open>The tail of a word that starts with \<open>-h\<close>, read as single-letter options: help is shown unless the tail is refused first.\<close>

fun help_tail :: "string \<Rightarrow> bool" where
  "help_tail [] = False"
| "help_tail (c # cs) =
     (c \<noteq> CHR ''-'' \<and> (c = CHR ''h'' \<longrightarrow> cs = [] \<or> hd cs \<noteq> CHR ''='' \<and> help_tail cs))"

datatype word_class = Plain | Unknown | Ambiguous | Help bool | Opt arg_spec "string option"

definition not_an_option :: "string \<Rightarrow> word_class" where
  "not_an_option w = (if negative_number w \<or> CHR '' '' \<in> set w then Plain else Unknown)"

text \<open>The options that an abbreviated name may stand for; \<open>None\<close> is \<open>--help\<close>.\<close>

definition abbreviated :: "arg_spec list \<Rightarrow> string \<Rightarrow> arg_spec option list" where
  "abbreviated specs name = (if py_startswith ''--help'' name then [None] else []) @
     map Some (filter (\<lambda>s. py_startswith (a_flag s) name) specs)"

definition abbreviation_class :: "arg_spec list \<Rightarrow> string \<Rightarrow> word_class" where
  "abbreviation_class specs w = (case partition_eq w of (name, explicit) \<Rightarrow>
     (case abbreviated specs name of
        [] \<Rightarrow> not_an_option w
      | [None] \<Rightarrow> Help (explicit = None)
      | [Some s] \<Rightarrow> Opt s explicit
      | _ \<Rightarrow> Ambiguous))"

definition classify :: "arg_spec list \<Rightarrow> string \<Rightarrow> word_class" where
  "classify specs w =
     (if w = [] \<or> hd w \<noteq> CHR ''-'' then Plain
      else if w = ''-h'' \<or> w = ''--help'' then Help True
      else case find_arg specs w of Some s \<Rightarrow> Opt s None
      | None \<Rightarrow>
          if length w = 1 then Plain
          else case partition_eq w of (name, explicit) \<Rightarrow>
            if explicit \<noteq> None \<and> (name = ''-h'' \<or> name = ''--help'') then Help False
            else if explicit \<noteq> None \<and> find_arg specs name \<noteq> None then Opt (the (find_arg specs name)) explicit
            else if w ! 1 = CHR ''-'' then abbreviation_class specs w
            else if w ! 1 = CHR ''h'' then Help (help_tail (drop 2 w))
            else not_an_option w)"

section \<open>Parsing\<close>

type_synonym namespace = "string \<Rightarrow> arg_value"

record parsing =
  p_ns :: namespace
  p_seen :: "string list"
  p_extras :: "string list"

definition store_arg :: "arg_spec \<Rightarrow> arg_value \<Rightarrow> parsing \<Rightarrow> parsing" where
  "store_arg s x st = st\<lparr>p_ns := (p_ns st)(a_flag s := x), p_seen := a_flag s # p_seen st\<rparr>"

definition extra_args :: "string list \<Rightarrow> parsing \<Rightarrow> parsing" where
  "extra_args ws st = st\<lparr>p_extras := p_extras st @ ws\<rparr>"

text \<open>The words from left to right; after \<open>--\<close> all words are arguments, which no option here can take.\<close>

function (sequential) consume :: "arg_spec list \<Rightarrow> parsing \<Rightarrow> string list \<Rightarrow> parsing res" where
  "consume specs st [] = ret st"
| "consume specs st (w # ws) =
     (if w = ''--'' then ret (extra_args (w # ws) st)
      else case classify specs w of
        Plain \<Rightarrow> consume specs (extra_args [w] st) ws
      | Unknown \<Rightarrow> consume specs (extra_args [w] st) ws
      | Ambiguous \<Rightarrow> usage_error
      | Help shown \<Rightarrow> raise SystemExit (if shown then ''0'' else ''2'')
      | Opt s explicit \<Rightarrow>
          if a_kind s = Store_true
          then (if explicit = None then consume specs (store_arg s (BoolArg True) st) ws else usage_error)
          else (case explicit of
              Some v \<Rightarrow> bindr (get_value s v) (\<lambda>x. consume specs (store_arg s x st) ws)
            | None \<Rightarrow>
                if ws = [] \<or> hd ws = ''--'' \<or> classify specs (hd ws) \<noteq> Plain then usage_error
                else bindr (get_value s (hd ws)) (\<lambda>x. consume specs (store_arg s x st) (tl ws))))"
  by pat_completeness auto

termination by (relation "measure (\<lambda>(specs, st, ws). length ws)") auto

definition initial_ns :: "arg_spec list \<Rightarrow> namespace" where
  "initial_ns specs f = (case find_arg specs f of None \<Rightarrow> NoneArg | Some s \<Rightarrow> a_default s)"

definition parsing_start :: "arg_spec list \<Rightarrow> parsing" where
  "parsing_start specs = \<lparr>p_ns = initial_ns specs, p_seen = [], p_extras = []\<rparr>"

definition finish_parsing :: "arg_spec list \<Rightarrow> parsing \<Rightarrow> namespace res" where
  "finish_parsing specs st =
     (if list_ex (\<lambda>s. a_required s \<and> a_flag s \<notin> set (p_seen st)) specs \<or> p_extras st \<noteq> [] then usage_error
      else ret (p_ns st))"

text \<open>\<open>p.parse_args(argv)\<close>: the words up to \<open>--\<close> are all classified before the first is used.\<close>

definition run_parser :: "arg_spec list \<Rightarrow> string list \<Rightarrow> namespace res" where
  "run_parser specs argv =
     (if list_ex (\<lambda>w. classify specs w = Ambiguous) (takeWhile (\<lambda>w. w \<noteq> ''--'') argv) then usage_error
      else bindr (consume specs (parsing_start specs) argv) (finish_parsing specs))"
text \<open>Attributes of the namespace, by the type the parser gives them.\<close>

fun str_of :: "arg_value \<Rightarrow> string" where "str_of (StrArg s) = s"
fun int_of_arg :: "arg_value \<Rightarrow> int" where "int_of_arg (IntArg i) = i"
fun bool_of :: "arg_value \<Rightarrow> bool" where "bool_of (BoolArg b) = b"

fun str_or_None :: "arg_value \<Rightarrow> string option" where
  "str_or_None (StrArg s) = Some s"
| "str_or_None _ = None"

section \<open>What a command line written out option by option means\<close>

text \<open>One option as it is written: a flag, \<open>--name=value\<close>, or the two words \<open>--name value\<close>.\<close>

datatype setting = Switch arg_spec | Joined arg_spec string | Separate arg_spec string

fun setting_spec :: "setting \<Rightarrow> arg_spec" where
  "setting_spec (Switch s) = s"
| "setting_spec (Joined s v) = s"
| "setting_spec (Separate s v) = s"

fun setting_words :: "setting \<Rightarrow> string list" where
  "setting_words (Switch s) = [a_flag s]"
| "setting_words (Joined s v) = [a_flag s @ CHR ''='' # v]"
| "setting_words (Separate s v) = [a_flag s, v]"

fun setting_value :: "setting \<Rightarrow> arg_value res" where
  "setting_value (Switch s) = ret (BoolArg True)"
| "setting_value (Joined s v) = get_value s v"
| "setting_value (Separate s v) = get_value s v"

text \<open>Joined values are any text; a separate word must not look like an option.\<close>

fun setting_ok :: "arg_spec list \<Rightarrow> setting \<Rightarrow> bool" where
  "setting_ok specs (Switch s) = (s \<in> set specs \<and> a_kind s = Store_true)"
| "setting_ok specs (Joined s v) = (s \<in> set specs \<and> a_kind s \<noteq> Store_true)"
| "setting_ok specs (Separate s v) = (s \<in> set specs \<and> a_kind s \<noteq> Store_true \<and> v \<noteq> ''--'' \<and> classify specs v = Plain)"

fun assign :: "setting list \<Rightarrow> parsing \<Rightarrow> parsing res" where
  "assign [] st = ret st"
| "assign (s # ss) st = bindr (setting_value s) (\<lambda>x. assign ss (store_arg (setting_spec s) x st))"

definition proper_flag :: "string \<Rightarrow> bool" where
  "proper_flag f \<longleftrightarrow> 2 < length f \<and> take 2 f = ''--'' \<and> CHR ''='' \<notin> set f \<and> f \<noteq> ''--help''"

definition proper_specs :: "arg_spec list \<Rightarrow> bool" where
  "proper_specs specs \<longleftrightarrow> distinct (map a_flag specs) \<and> list_all (\<lambda>s. proper_flag (a_flag s)) specs"

lemma proper_flagD:
  assumes "proper_flag f"
  obtains (flag) g where "f = CHR ''-'' # CHR ''-'' # g" "g \<noteq> []" "CHR ''='' \<notin> set g" "f \<noteq> ''--help''"
proof -
  from assms have "2 < length f" by (simp add: proper_flag_def)
  then obtain a b g where f: "f = a # b # g" "g \<noteq> []"
    by (cases f; cases "tl f"; cases "tl (tl f)") auto
  with assms have "f = CHR ''-'' # CHR ''-'' # g" "CHR ''='' \<notin> set g" "f \<noteq> ''--help''"
    by (auto simp: proper_flag_def)
  with f(2) show thesis by (intro flag)
qed

lemma find_arg_Some: "find_arg specs f = Some s \<Longrightarrow> s \<in> set specs \<and> a_flag s = f"
  by (auto simp: find_arg_def find_Some_iff in_set_conv_nth)

lemma find_arg_flag:
  assumes "proper_specs specs" and "s \<in> set specs" shows "find_arg specs (a_flag s) = Some s"
proof (cases "find_arg specs (a_flag s)")
  case None
  with assms(2) show ?thesis by (auto simp: find_arg_def find_None_iff)
next
  case (Some t)
  from find_arg_Some [OF Some] assms have "t = s" by (auto simp: proper_specs_def distinct_map inj_on_def)
  with Some show ?thesis by simp
qed

lemma with_separator: "c \<notin> set w \<Longrightarrow> f @ c # v \<noteq> w"
  by auto

lemma partition_eq_flag: "CHR ''='' \<notin> set f \<Longrightarrow> partition_eq (f @ CHR ''='' # v) = (f, Some v)"
proof -
  assume "CHR ''='' \<notin> set f"
  then have "takeWhile (\<lambda>c. c \<noteq> CHR ''='') (f @ CHR ''='' # v) = f" by (subst takeWhile_append2) auto
  then show ?thesis by (simp add: partition_eq_def Let_def)
qed

lemma classify_flag:
  assumes "proper_specs specs" and "s \<in> set specs" shows "classify specs (a_flag s) = Opt s None"
proof -
  from assms have "proper_flag (a_flag s)" by (auto simp: proper_specs_def list_all_iff)
  then show ?thesis
    by (rule proper_flagD) (use find_arg_flag [OF assms] in \<open>auto simp: classify_def\<close>)
qed

lemma find_arg_joined:
  assumes "proper_specs specs" and "CHR ''='' \<in> set w" shows "find_arg specs w = None"
  using assms find_arg_Some [of specs w] by (cases "find_arg specs w") (auto simp: proper_specs_def list_all_iff proper_flag_def)

lemma classify_joined:
  assumes "proper_specs specs" and "s \<in> set specs"
  shows "classify specs (a_flag s @ CHR ''='' # v) = Opt s (Some v)"
proof -
  from assms have "proper_flag (a_flag s)" by (auto simp: proper_specs_def list_all_iff)
  then show ?thesis
  proof (cases rule: proper_flagD)
    case (flag g)
    from flag(1,3) have p: "partition_eq (a_flag s @ CHR ''='' # v) = (a_flag s, Some v)" by (intro partition_eq_flag) simp
    have n: "find_arg specs (a_flag s @ CHR ''='' # v) = None" by (rule find_arg_joined [OF assms(1)]) simp
    have "a_flag s @ CHR ''='' # v \<noteq> ''-h''" "a_flag s @ CHR ''='' # v \<noteq> ''--help''"
      by (rule with_separator; simp)+
    with p n find_arg_flag [OF assms] flag show ?thesis by (simp add: classify_def)
  qed
qed

lemma classify_plain: "v = [] \<or> hd v \<noteq> CHR ''-'' \<Longrightarrow> classify specs v = Plain"
  by (simp add: classify_def)

lemma consume_setting:
  assumes p: "proper_specs specs" and ok: "setting_ok specs s"
  shows "consume specs st (setting_words s @ ws) =
    bindr (setting_value s) (\<lambda>x. consume specs (store_arg (setting_spec s) x st) ws)"
proof -
  have dash: "a_flag t \<noteq> ''--''" if "t \<in> set specs" for t
    using that p by (auto simp: proper_specs_def list_all_iff proper_flag_def)
  have sep: "a_flag t @ CHR ''='' # v \<noteq> ''--''" for t v by (rule with_separator) simp
  from ok show ?thesis
    by (cases s) (simp_all only: setting_ok.simps setting_words.simps setting_value.simps setting_spec.simps append.simps
      consume.simps dash sep classify_flag [OF p] classify_joined [OF p] word_class.simps if_False if_True simp_thms
      option.simps bindr_Inr list.sel list.simps)
qed

lemma consume_settings:
  assumes "proper_specs specs" and "list_all (setting_ok specs) ss"
  shows "consume specs st (concat (map setting_words ss) @ ws) = bindr (assign ss st) (\<lambda>st. consume specs st ws)"
  using assms(2)
proof (induction ss arbitrary: st)
  case (Cons s ss)
  then show ?case
    by (simp add: consume_setting [OF assms(1)]) (cases "setting_value s"; simp)
qed simp

lemma setting_word_class:
  assumes "proper_specs specs" and "setting_ok specs s" and "w \<in> set (setting_words s)"
  shows "classify specs w \<noteq> Ambiguous"
  using assms by (cases s) (auto simp: classify_flag classify_joined)

text \<open>The last value given to an option is the one it has.\<close>

lemma run_parser_settings:
  assumes "proper_specs specs" and "list_all (setting_ok specs) ss"
  shows "run_parser specs (concat (map setting_words ss)) =
    bindr (assign ss (parsing_start specs)) (finish_parsing specs)"
proof -
  have "\<not> list_ex (\<lambda>w. classify specs w = Ambiguous) (takeWhile (\<lambda>w. w \<noteq> ''--'') (concat (map setting_words ss)))"
  proof -
    have "classify specs w \<noteq> Ambiguous" if "w \<in> set (takeWhile (\<lambda>w. w \<noteq> ''--'') (concat (map setting_words ss)))" for w
    proof -
      from set_takeWhileD [OF that] obtain s where "s \<in> set ss" "w \<in> set (setting_words s)" by auto
      with setting_word_class [OF assms(1)] assms(2) show ?thesis by (auto simp: list_all_iff)
    qed
    then show ?thesis by (auto simp: list_ex_iff)
  qed
  with consume_settings [OF assms, of _ "[]"] show ?thesis
    by (simp add: run_parser_def)
qed
section \<open>What an accepted command line guarantees\<close>

lemma abbreviated_spec: "abbreviated specs name = [Some s] \<Longrightarrow> s \<in> set specs"
proof -
  assume "abbreviated specs name = [Some s]"
  then have "Some s \<in> set (abbreviated specs name)" by simp
  then show ?thesis by (auto simp: abbreviated_def split: if_splits)
qed

lemma classify_Opt: "classify specs w = Opt s explicit \<Longrightarrow> s \<in> set specs"
  by (auto simp: classify_def abbreviation_class_def not_an_option_def find_arg_Some Let_def
      split: if_splits option.splits prod.splits list.splits dest: find_arg_Some abbreviated_spec)

definition given_arg :: "arg_spec \<Rightarrow> arg_value \<Rightarrow> bool" where
  "given_arg s x \<longleftrightarrow> (if a_kind s = Store_true then x = BoolArg True else \<exists>v. get_value s v = Inr x)"

definition parsing_sound :: "arg_spec list \<Rightarrow> parsing \<Rightarrow> bool" where
  "parsing_sound specs st \<longleftrightarrow> (\<forall>s \<in> set specs.
     if a_flag s \<in> set (p_seen st) then given_arg s (p_ns st (a_flag s)) else p_ns st (a_flag s) = a_default s)"

lemma sound_start: "proper_specs specs \<Longrightarrow> parsing_sound specs (parsing_start specs)"
  by (simp add: parsing_sound_def parsing_start_def initial_ns_def find_arg_flag)

lemma sound_extra [simp]: "parsing_sound specs (extra_args ws st) = parsing_sound specs st"
  by (simp add: parsing_sound_def extra_args_def)

lemma sound_store:
  assumes "proper_specs specs" and "s \<in> set specs" and "given_arg s x" and "parsing_sound specs st"
  shows "parsing_sound specs (store_arg s x st)"
proof -
  have "t = s" if "t \<in> set specs" "a_flag t = a_flag s" for t
    using that assms(1,2) by (auto simp: proper_specs_def distinct_map inj_on_def)
  with assms(3,4) show ?thesis by (auto simp: parsing_sound_def store_arg_def)
qed

lemma given_argI:
  "a_kind s = Store_true \<Longrightarrow> given_arg s (BoolArg True)"
  "a_kind s \<noteq> Store_true \<Longrightarrow> get_value s v = Inr x \<Longrightarrow> given_arg s x"
  by (auto simp: given_arg_def)

text \<open>The two recursive calls for an option, in one rule.\<close>

lemma consume_Opt:
  assumes "w \<noteq> ''--''" and "classify specs w = Opt s explicit" and "consume specs st (w # ws) = Inr st'"
  shows "\<exists>x. given_arg s x \<and> (consume specs (store_arg s x st) ws = Inr st' \<or> consume specs (store_arg s x st) (tl ws) = Inr st')"
  using assms by (cases explicit) (auto simp: usage_error_def bindr_eq_Inr split: if_splits intro: given_argI)

lemma consume_sound:
  "proper_specs specs \<Longrightarrow> parsing_sound specs st \<Longrightarrow> consume specs st ws = Inr st' \<Longrightarrow> parsing_sound specs st'"
proof (induction ws arbitrary: st rule: length_induct)
  case (1 ws)
  have IH: "parsing_sound specs st2 \<Longrightarrow> consume specs st2 vs = Inr st' \<Longrightarrow> parsing_sound specs st'"
    if "length vs < length ws" for vs st2 using 1 that by blast
  show ?case
  proof (cases ws)
    case Nil
    with 1 show ?thesis by simp
  next
    case (Cons w rest)
    show ?thesis
    proof (cases "w = ''--''")
      case True
      with 1 Cons show ?thesis by auto
    next
      case False
      have extra: "parsing_sound specs st'" if "consume specs (extra_args [w] st) rest = Inr st'"
        using IH [of rest "extra_args [w] st"] that 1(3) Cons by simp
      show ?thesis
      proof (cases "classify specs w")
        case Opt_w: (Opt s ex)
        from consume_Opt [OF False Opt_w 1(4) [unfolded Cons]] obtain x where x: "given_arg s x"
          "consume specs (store_arg s x st) rest = Inr st' \<or> consume specs (store_arg s x st) (tl rest) = Inr st'" by blast
        from sound_store [OF 1(2) classify_Opt [OF Opt_w] x(1) 1(3)] IH [of rest] IH [of "tl rest"] x(2) Cons
        show ?thesis by auto
      qed (use 1(4) extra Cons False in \<open>auto simp: usage_error_def\<close>)
    qed
  qed
qed

lemma get_value_error: "get_value s v = Inl e \<Longrightarrow> e = Exc SystemExit ''2''"
  by (auto simp: get_value_def usage_error_def split: sum.splits option.splits if_splits)

lemma consume_error: "consume specs st ws = Inl e \<Longrightarrow> e \<in> {Exc SystemExit ''0'', Exc SystemExit ''2''}"
proof (induction specs st ws rule: consume.induct)
  case (2 specs st w ws)
  then show ?case
    by (auto simp: usage_error_def bindr_eq_Inl get_value_error split: if_splits word_class.splits option.splits)
qed simp

lemma run_parser_error: "run_parser specs argv = Inl e \<Longrightarrow> e \<in> {Exc SystemExit ''0'', Exc SystemExit ''2''}"
  using consume_error [of specs "parsing_start specs" argv e]
  by (auto simp: run_parser_def finish_parsing_def usage_error_def bindr_def split: if_splits sum.splits)

lemma run_parser_sound:
  assumes p: "proper_specs specs" and r: "run_parser specs argv = Inr ns" and s: "s \<in> set specs"
  shows "given_arg s (ns (a_flag s)) \<or> \<not> a_required s \<and> ns (a_flag s) = a_default s"
proof -
  from r obtain st where st: "consume specs (parsing_start specs) argv = Inr st" "finish_parsing specs st = Inr ns"
    by (auto simp: run_parser_def usage_error_def bindr_eq_Inr split: if_splits)
  from consume_sound [OF p sound_start [OF p] st(1)] s st(2) show ?thesis
    by (auto simp: parsing_sound_def finish_parsing_def usage_error_def list_ex_iff split: if_splits)
qed
section \<open>Integers on the command line\<close>

definition show_int :: "int \<Rightarrow> string" where
  "show_int n = (if n < 0 then CHR ''-'' # dec_digits (nat (- n)) else dec_digits (nat n))"

text \<open>\<open>int\<close> refuses longer numerals.\<close>

definition short_int :: "int \<Rightarrow> bool" where
  "short_int n \<longleftrightarrow> length (dec_digits (nat \<bar>n\<bar>)) \<le> 4300"

lemma split1_absent: "d \<notin> set s \<Longrightarrow> py_split1 d s = [s]"
  by (induction s) auto

lemma underscore_digits_dec: "underscore_digits (dec_digits n) = Some (dec_digits n)"
proof -
  have "CHR ''_'' \<notin> set (dec_digits n)" using dec_digits_isdigit [of "CHR ''_''" n] by (auto simp: py_isdigit_def)
  then show ?thesis using dec_digits_isdigit [of _ n] by (simp add: underscore_digits_def split1_absent)
qed

lemma strip_digits: "s \<noteq> [] \<Longrightarrow> \<not> py_isspace (hd s) \<Longrightarrow> \<not> py_isspace (last s) \<Longrightarrow> py_strip s = s"
  by (rule py_strip_trimmed) (simp add: trimmed_def)

lemma py_int_show_int: "short_int n \<Longrightarrow> py_int (show_int n) = Inr n"
proof -
  assume s: "short_int n"
  have d: "\<not> py_isspace (hd (dec_digits m))" "\<not> py_isspace (last (dec_digits m))" "py_isdigit (hd (dec_digits m))" for m
    using dec_digits_isdigit [of _ m] digit_not_space by simp_all
  have "\<not> py_isdigit CHR ''-''" "\<not> py_isdigit CHR ''+''" by (simp_all add: py_isdigit_def)
  with d(3) have "hd (dec_digits m) \<noteq> CHR ''-''" "hd (dec_digits m) \<noteq> CHR ''+''" for m by metis+
  then have sign: "py_sign (dec_digits m) = (1, dec_digits m)" for m
    by (cases "dec_digits m") (simp_all add: py_sign_def, metis list.sel(1))+
  show ?thesis
  proof (cases "n < 0")
    case True
    have "\<not> py_isspace CHR ''-''" by (simp add: py_isspace_def)
    then have "py_strip (show_int n) = show_int n" using True d(2) by (intro strip_digits) (simp_all add: show_int_def)
    with True s show ?thesis
      by (simp add: py_int_def show_int_def py_sign_def underscore_digits_dec py_int_digits_def short_int_def)
  next
    case False
    have "py_strip (show_int n) = show_int n" using False d by (intro strip_digits) (simp_all add: show_int_def)
    with False s show ?thesis
      by (simp add: py_int_def show_int_def sign underscore_digits_dec py_int_digits_def short_int_def)
  qed
qed

lemma get_value_simps:
  "a_kind s = Store_str \<Longrightarrow> a_choices s = None \<Longrightarrow> get_value s v = Inr (StrArg v)"
  "a_kind s = Store_str \<Longrightarrow> a_choices s = Some cs \<Longrightarrow> v \<in> set cs \<Longrightarrow> get_value s v = Inr (StrArg v)"
  "a_kind s = Store_int \<Longrightarrow> a_choices s = None \<Longrightarrow> short_int n \<Longrightarrow> get_value s (show_int n) = Inr (IntArg n)"
  by (auto simp: get_value_def convert_arg_def py_int_show_int)

text \<open>What an accepted value is, by the kind of its option.\<close>

lemma given_arg_kind:
  assumes "given_arg s x"
  shows "a_kind s = Store_str \<Longrightarrow> \<exists>t. x = StrArg t \<and> (\<forall>cs. a_choices s = Some cs \<longrightarrow> t \<in> set cs)"
    and "a_kind s = Store_int \<Longrightarrow> \<exists>n. x = IntArg n"
    and "a_kind s = Store_float \<Longrightarrow> (\<exists>r. x = FloatArg r) \<or> (\<exists>t. x = SpecialFloat t)"
    and "a_kind s = Store_true \<Longrightarrow> x = BoolArg True"
  using assms
  by (auto simp: given_arg_def get_value_def convert_arg_def float_value_def usage_error_def bindr_def
      split: if_splits sum.splits option.splits)

end
