(* ===== verification/Command_Line.thy ===== *)
theory Command_Line
  imports Smoke_Clients Py_Args
begin

text \<open>
  The \<open>main\<close> functions of the three Python clients: their command lines, over the model of argparse in theory Py_Args,
  and what they then run. The video source, the file of the image and the server are arguments. The lemmas show which
  arguments reach the rest of a client, and that every setting of the reference client can be written on a command line.
\<close>

section \<open>The options of a request\<close>

definition MODES :: "string list" where "MODES = [''fast'', ''hybrid'', ''slow'']"

definition request_specs :: "arg_spec list" where
  "request_specs =
     [(str_arg ''--task'' NoneArg)\<lparr>a_choices := Some TASKS, a_required := True\<rparr>,
      str_arg ''--categories'' NoneArg, str_arg ''--phrase'' NoneArg, str_arg ''--text'' NoneArg,
      str_arg ''--description'' NoneArg]"

definition required_arg :: "string \<Rightarrow> arg_spec" where
  "required_arg f = (str_arg f NoneArg)\<lparr>a_required := True\<rparr>"

definition request_of :: "namespace \<Rightarrow> client_args" where
  "request_of ns = \<lparr>task = str_of (ns ''--task''), categories = str_or_None (ns ''--categories''),
     phrase = str_or_None (ns ''--phrase''), text_slot = str_or_None (ns ''--text''),
     description = str_or_None (ns ''--description'')\<rparr>"

section \<open>The reference client\<close>

datatype video_source = Webcam int | Path_or_url string

record reference_args =
  ra_url :: string
  ra_source :: video_source
  ra_request :: client_args
  ra_mode :: string
  ra_client_id :: string
  ra_max_jpeg_bytes :: int
  ra_queue_max :: int
  ra_jpeg_quality :: int
  ra_options :: client_options
  ra_log_level :: string

definition reference_specs :: "arg_spec list" where
  "reference_specs =
     [str_arg ''--url'' (StrArg ''ws://127.0.0.1:8765/v1/stream''), str_arg ''--source'' (StrArg ''0'')] @ request_specs @
     [(str_arg ''--mode'' (StrArg ''hybrid''))\<lparr>a_choices := Some MODES\<rparr>,
      str_arg ''--client-id'' (StrArg ''reference-client-01''),
      int_arg ''--max-jpeg-bytes'' (4 * 1024 * 1024), int_arg ''--queue-max'' 4, int_arg ''--jpeg-quality'' 92,
      int_arg ''--reconnect-delay'' 3, int_arg ''--max-consecutive-errors'' 10, flag_arg ''--no-reconnect'',
      str_arg ''--log-level'' (StrArg ''INFO'')]"

text \<open>\<open>str.isdigit\<close> also holds of the superscript digits, which \<open>int\<close> refuses.\<close>

definition py_str_isdigit :: "string \<Rightarrow> bool" where
  "py_str_isdigit s \<longleftrightarrow> s \<noteq> [] \<and> list_all (\<lambda>c. py_isdigit c \<or> c \<in> {CHR 0xB2, CHR 0xB3, CHR 0xB9}) s"

definition read_source :: "string \<Rightarrow> video_source res" where
  "read_source s = (if py_str_isdigit s then bindr (py_int s) (\<lambda>n. ret (Webcam n)) else ret (Path_or_url s))"

definition parse_args :: "string list \<Rightarrow> reference_args res" where
  "parse_args argv =
     bindr (run_parser reference_specs argv) (\<lambda>ns.
     bindr (read_source (str_of (ns ''--source''))) (\<lambda>source.
     ret \<lparr>ra_url = str_of (ns ''--url''), ra_source = source, ra_request = request_of ns, ra_mode = str_of (ns ''--mode''),
       ra_client_id = str_of (ns ''--client-id''), ra_max_jpeg_bytes = int_of_arg (ns ''--max-jpeg-bytes''),
       ra_queue_max = int_of_arg (ns ''--queue-max''), ra_jpeg_quality = int_of_arg (ns ''--jpeg-quality''),
       ra_options = \<lparr>reconnect_delay = int_of_arg (ns ''--reconnect-delay''),
         max_consecutive_errors = int_of_arg (ns ''--max-consecutive-errors''), no_reconnect = bool_of (ns ''--no-reconnect'')\<rparr>,
       ra_log_level = str_of (ns ''--log-level'')\<rparr>))"

text \<open>\<open>getattr(logging, level.upper())\<close> and \<open>basicConfig\<close>, which takes the attributes that are numbers or level names. Only
  ASCII letters matter: no other character has an upper case that completes one of the names.\<close>

definition py_upper_ascii :: "string \<Rightarrow> string" where
  "py_upper_ascii s = map (\<lambda>c. let n = of_char c :: nat in if 97 \<le> n \<and> n \<le> 122 then char_of (n - 32) else c) s"

definition set_logging :: "string \<Rightarrow> unit res" where
  "set_logging level = (let name = py_upper_ascii level in
     if name \<in> {''CRITICAL'', ''FATAL'', ''ERROR'', ''WARNING'', ''WARN'', ''INFO'', ''DEBUG'', ''NOTSET''} then ret ()
     else if name = ''BASIC_FORMAT'' then raise ValueError ''Unknown level''
     else if name = ''_STYLES'' then raise TypeError ''Level not an integer or a valid string''
     else raise AttributeError name)"

definition reference_main ::
  "(string \<Rightarrow> json res) \<Rightarrow> run_end list \<Rightarrow> string list \<Rightarrow> (json \<times> json \<times> rat list \<times> client_end) res" where
  "reference_main fetch_capabilities ends argv =
     bindr (parse_args argv) (\<lambda>args.
     bindr (set_logging (ra_log_level args)) (\<lambda>_.
     client_main (fetch_capabilities (ra_url args)) (ra_request args) (ra_options args) ends))"

section \<open>The smoke client\<close>

record smoke_args =
  so_url :: string
  so_image :: string
  so_request :: client_args
  so_mode :: string
  so_timeout :: arg_value
  so_expect_type :: "string option"

definition smoke_specs :: "arg_spec list" where
  "smoke_specs = [required_arg ''--url'', required_arg ''--image''] @ request_specs @
     [str_arg ''--mode'' (StrArg ''hybrid''), float_arg ''--timeout'' 120,
      (str_arg ''--expect-type'' NoneArg)\<lparr>a_choices := Some [''boxes'', ''points'', ''abstained'']\<rparr>]"

definition smoke_parse_args :: "string list \<Rightarrow> smoke_args res" where
  "smoke_parse_args argv =
     bindr (run_parser smoke_specs argv) (\<lambda>ns.
     ret \<lparr>so_url = str_of (ns ''--url''), so_image = str_of (ns ''--image''), so_request = request_of ns,
       so_mode = str_of (ns ''--mode''), so_timeout = ns ''--timeout'', so_expect_type = str_or_None (ns ''--expect-type'')\<rparr>)"

text \<open>\<open>server\<close> gets the URL and the frame, and answers after some time; the time-out of the command line decides whether that
  is in time. \<open>None\<close> stands for a time-out that is an infinity or a NaN.\<close>

definition smoke_main ::
  "(json \<Rightarrow> byte list) \<Rightarrow> (string \<Rightarrow> byte list \<Rightarrow> ws_answer \<times> rat) \<Rightarrow> (string \<Rightarrow> byte list res) \<Rightarrow> string list \<Rightarrow>
   unit res option" where
  "smoke_main dumps server read_bytes argv = (case smoke_parse_args argv of
     Inl e \<Rightarrow> Some (Inl e)
   | Inr args \<Rightarrow> (case so_timeout args of
       FloatArg timeout \<Rightarrow>
         Some (bindr (read_bytes (so_image args)) (\<lambda>jpeg.
           smoke_run dumps (server (so_url args)) timeout jpeg (so_request args) (so_mode args)
             (map_option JStr (so_expect_type args))))
     | _ \<Rightarrow> None))"

section \<open>The concurrency client\<close>

record concurrency_args =
  ca_url :: string
  ca_image :: string
  ca_request :: client_args
  ca_mode :: string
  ca_num_clients :: int
  ca_frames_per_client :: int
  ca_send_interval :: arg_value
  ca_start_offset :: arg_value
  ca_frame_timeout :: arg_value
  ca_fairness_ratio :: arg_value

definition concurrency_specs :: "arg_spec list" where
  "concurrency_specs = [required_arg ''--url'', required_arg ''--image''] @ request_specs @
     [str_arg ''--mode'' (StrArg ''hybrid''), int_arg ''--num-clients'' 2, int_arg ''--frames-per-client'' 4,
      float_arg ''--send-interval'' 2, float_arg ''--start-offset'' (1 / 2), float_arg ''--frame-timeout'' 120,
      float_arg ''--fairness-ratio'' 5]"

definition concurrency_parse_args :: "string list \<Rightarrow> concurrency_args res" where
  "concurrency_parse_args argv =
     bindr (run_parser concurrency_specs argv) (\<lambda>ns.
     ret \<lparr>ca_url = str_of (ns ''--url''), ca_image = str_of (ns ''--image''), ca_request = request_of ns,
       ca_mode = str_of (ns ''--mode''), ca_num_clients = int_of_arg (ns ''--num-clients''),
       ca_frames_per_client = int_of_arg (ns ''--frames-per-client''), ca_send_interval = ns ''--send-interval'',
       ca_start_offset = ns ''--start-offset'', ca_frame_timeout = ns ''--frame-timeout'',
       ca_fairness_ratio = ns ''--fairness-ratio''\<rparr>)"

text \<open>The test itself is modelled for a finite time-out and a finite ratio; \<open>None\<close> stands for the others. It ends with
  \<open>sys.exit(rc)\<close>.\<close>

definition concurrency_main ::
  "(concurrency_args \<Rightarrow> json \<Rightarrow> nat \<Rightarrow> (ws_answer \<times> rat) list option) \<Rightarrow> (string \<Rightarrow> byte list res) \<Rightarrow> string list \<Rightarrow>
   unit res option" where
  "concurrency_main server read_bytes argv = (case concurrency_parse_args argv of
     Inl e \<Rightarrow> Some (Inl e)
   | Inr args \<Rightarrow> (case (ca_frame_timeout args, ca_fairness_ratio args) of
       (FloatArg frame_timeout, FloatArg max_ratio) \<Rightarrow>
         Some (bindr (read_bytes (ca_image args)) (\<lambda>jpeg.
           bindr (concurrency_run (server args) jpeg (ca_request args) (ca_num_clients args) (ca_frames_per_client args)
             frame_timeout max_ratio) exit_with))
     | _ \<Rightarrow> None))"
section \<open>Lemmas\<close>

named_theorems spec_defs

declare reference_specs_def [spec_defs] smoke_specs_def [spec_defs] concurrency_specs_def [spec_defs] request_specs_def [spec_defs]
  required_arg_def [spec_defs] str_arg_def [spec_defs] int_arg_def [spec_defs] float_arg_def [spec_defs] flag_arg_def [spec_defs]

lemma proper_parsers: "proper_specs reference_specs" "proper_specs smoke_specs" "proper_specs concurrency_specs"
  by code_simp+

subsection \<open>Writing a command line\<close>

fun show_source :: "video_source \<Rightarrow> string" where
  "show_source (Webcam n) = show_int n"
| "show_source (Path_or_url s) = s"

definition opt_setting :: "arg_spec \<Rightarrow> string option \<Rightarrow> setting list" where
  "opt_setting s v = (case v of None \<Rightarrow> [] | Some t \<Rightarrow> [Joined s t])"

definition reference_opt :: "string \<Rightarrow> arg_spec" where
  "reference_opt f = the (find_arg reference_specs f)"

text \<open>Each option of the reference client, written as \<open>--name=value\<close>.\<close>

definition reference_settings :: "reference_args \<Rightarrow> setting list" where
  "reference_settings args = 
     [Joined (reference_opt ''--url'') (ra_url args), Joined (reference_opt ''--source'') (show_source (ra_source args)),
      Joined (reference_opt ''--task'') (task (ra_request args))] @
     opt_setting (reference_opt ''--categories'') (categories (ra_request args)) @
     opt_setting (reference_opt ''--phrase'') (phrase (ra_request args)) @
     opt_setting (reference_opt ''--text'') (text_slot (ra_request args)) @
     opt_setting (reference_opt ''--description'') (description (ra_request args)) @
     [Joined (reference_opt ''--mode'') (ra_mode args), Joined (reference_opt ''--client-id'') (ra_client_id args),
      Joined (reference_opt ''--max-jpeg-bytes'') (show_int (ra_max_jpeg_bytes args)),
      Joined (reference_opt ''--queue-max'') (show_int (ra_queue_max args)),
      Joined (reference_opt ''--jpeg-quality'') (show_int (ra_jpeg_quality args)),
      Joined (reference_opt ''--reconnect-delay'') (show_int (reconnect_delay (ra_options args))),
      Joined (reference_opt ''--max-consecutive-errors'') (show_int (max_consecutive_errors (ra_options args)))] @
     (if no_reconnect (ra_options args) then [Switch (reference_opt ''--no-reconnect'')] else []) @
     [Joined (reference_opt ''--log-level'') (ra_log_level args)]"

definition command_line :: "reference_args \<Rightarrow> string list" where
  "command_line args = concat (map setting_words (reference_settings args))"

text \<open>What can be written: a task and a mode among the choices, integers \<open>int\<close> reads, a source that is not mistaken.\<close>

definition writable_args :: "reference_args \<Rightarrow> bool" where
  "writable_args args \<longleftrightarrow> task (ra_request args) \<in> set TASKS \<and> ra_mode args \<in> set MODES \<and>
     (case ra_source args of Webcam n \<Rightarrow> 0 \<le> n \<and> short_int n | Path_or_url s \<Rightarrow> \<not> py_str_isdigit s) \<and>
     list_all short_int [ra_max_jpeg_bytes args, ra_queue_max args, ra_jpeg_quality args,
       reconnect_delay (ra_options args), max_consecutive_errors (ra_options args)]"

lemma assign_append: "assign (xs @ ys) st = bindr (assign xs st) (assign ys)"
  by (induction xs arbitrary: st) (auto simp: bindr_def split: sum.splits)

definition store_opt :: "arg_spec \<Rightarrow> string option \<Rightarrow> parsing \<Rightarrow> parsing" where
  "store_opt s v st = (case v of None \<Rightarrow> st | Some t \<Rightarrow> store_arg s (StrArg t) st)"

definition store_if :: "arg_spec \<Rightarrow> bool \<Rightarrow> parsing \<Rightarrow> parsing" where
  "store_if s b st = (if b then store_arg s (BoolArg True) st else st)"

lemma assign_opt: "a_kind s = Store_str \<Longrightarrow> a_choices s = None \<Longrightarrow> assign (opt_setting s v) st = Inr (store_opt s v st)"
  by (cases v) (simp_all add: opt_setting_def store_opt_def get_value_simps)

lemma assign_if: "assign (if b then [Switch s] else []) st = Inr (store_if s b st)"
  by (simp add: store_if_def)

lemma stored_ns [simp]:
  "p_ns (store_arg s x st) f = (if f = a_flag s then x else p_ns st f)"
  "p_ns (store_opt s v st) f = (if f = a_flag s \<and> v \<noteq> None then StrArg (the v) else p_ns st f)"
  "p_ns (store_if s b st) f = (if f = a_flag s \<and> b then BoolArg True else p_ns st f)"
  by (auto simp: store_arg_def store_opt_def store_if_def split: option.splits)

lemma stored_rest [simp]:
  "p_extras (store_arg s x st) = p_extras st" "p_extras (store_opt s v st) = p_extras st" "p_extras (store_if s b st) = p_extras st"
  "f \<in> set (p_seen (store_arg s x st)) \<longleftrightarrow> f = a_flag s \<or> f \<in> set (p_seen st)"
  "f \<in> set (p_seen (store_opt s v st)) \<longleftrightarrow> f = a_flag s \<and> v \<noteq> None \<or> f \<in> set (p_seen st)"
  "f \<in> set (p_seen (store_if s b st)) \<longleftrightarrow> f = a_flag s \<and> b \<or> f \<in> set (p_seen st)"
  by (auto simp: store_arg_def store_opt_def store_if_def split: option.splits)

lemma reference_opts:
  "list_all (\<lambda>f. \<exists>d. find_arg reference_specs f = Some (str_arg f d))
     [''--url'', ''--source'', ''--categories'', ''--phrase'', ''--text'', ''--description'', ''--client-id'', ''--log-level'']"
  "list_all (\<lambda>f. \<exists>d. find_arg reference_specs f = Some (int_arg f d))
     [''--max-jpeg-bytes'', ''--queue-max'', ''--jpeg-quality'', ''--reconnect-delay'', ''--max-consecutive-errors'']"
  "find_arg reference_specs ''--task'' = Some ((str_arg ''--task'' NoneArg)\<lparr>a_choices := Some TASKS, a_required := True\<rparr>)"
  "find_arg reference_specs ''--mode'' = Some ((str_arg ''--mode'' (StrArg ''hybrid''))\<lparr>a_choices := Some MODES\<rparr>)"
  "find_arg reference_specs ''--no-reconnect'' = Some (flag_arg ''--no-reconnect'')"
  by (simp_all add: find_arg_def spec_defs)
text \<open>The options the settings name, with what the proofs read off them.\<close>

lemma opt_facts:
  assumes "find_arg reference_specs f = Some s"
  shows "reference_opt f = s" "s \<in> set reference_specs" "a_flag s = f"
  using find_arg_Some [OF assms] assms by (simp_all add: reference_opt_def)

lemma str_opts:
  assumes "f \<in> {''--url'', ''--source'', ''--categories'', ''--phrase'', ''--text'', ''--description'', ''--client-id'', ''--log-level''}"
  shows "reference_opt f \<in> set reference_specs" "a_flag (reference_opt f) = f" "a_kind (reference_opt f) = Store_str"
    "a_choices (reference_opt f) = None"
proof -
  from assms reference_opts(1) obtain d where "find_arg reference_specs f = Some (str_arg f d)" by auto
  from opt_facts [OF this] show "reference_opt f \<in> set reference_specs" "a_flag (reference_opt f) = f"
    "a_kind (reference_opt f) = Store_str" "a_choices (reference_opt f) = None" by (simp_all add: str_arg_def)
qed

lemma int_opts:
  assumes "f \<in> {''--max-jpeg-bytes'', ''--queue-max'', ''--jpeg-quality'', ''--reconnect-delay'', ''--max-consecutive-errors''}"
  shows "reference_opt f \<in> set reference_specs" "a_flag (reference_opt f) = f" "a_kind (reference_opt f) = Store_int"
    "a_choices (reference_opt f) = None"
proof -
  from assms reference_opts(2) obtain d where "find_arg reference_specs f = Some (int_arg f d)" by auto
  from opt_facts [OF this] show "reference_opt f \<in> set reference_specs" "a_flag (reference_opt f) = f"
    "a_kind (reference_opt f) = Store_int" "a_choices (reference_opt f) = None" by (simp_all add: int_arg_def)
qed

lemmas other_opts = reference_opts(3-5) [THEN opt_facts(1)] reference_opts(3-5) [THEN opt_facts(2)]

lemma reference_settings_ok: "list_all (setting_ok reference_specs) (reference_settings args)"
proof -
  have "list_all (setting_ok reference_specs) (opt_setting s v)" if "s \<in> set reference_specs" "a_kind s \<noteq> Store_true" for s v
    using that by (cases v) (simp_all add: opt_setting_def)
  then show ?thesis
    by (simp add: reference_settings_def str_opts int_opts other_opts) (simp add: str_arg_def flag_arg_def)
qed

lemma finish_reference:
  "finish_parsing reference_specs st =
     (if ''--task'' \<in> set (p_seen st) \<and> p_extras st = [] then Inr (p_ns st) else usage_error)"
  by (auto simp: finish_parsing_def spec_defs)

lemma parsing_start_facts [simp]:
  "p_ns (parsing_start specs) f = (case find_arg specs f of None \<Rightarrow> NoneArg | Some s \<Rightarrow> a_default s)"
  "p_seen (parsing_start specs) = []" "p_extras (parsing_start specs) = []"
  by (simp_all add: parsing_start_def initial_ns_def)

text \<open>The same, one option at a time.\<close>

lemma opt_flags:
  "a_flag (reference_opt ''--url'') = ''--url''"
  "a_flag (reference_opt ''--source'') = ''--source''"
  "a_flag (reference_opt ''--client-id'') = ''--client-id''"
  "a_flag (reference_opt ''--log-level'') = ''--log-level''"
  "a_flag (reference_opt ''--categories'') = ''--categories''"
  "a_flag (reference_opt ''--phrase'') = ''--phrase''"
  "a_flag (reference_opt ''--text'') = ''--text''"
  "a_flag (reference_opt ''--description'') = ''--description''"
  "a_flag (reference_opt ''--max-jpeg-bytes'') = ''--max-jpeg-bytes''"
  "a_flag (reference_opt ''--queue-max'') = ''--queue-max''"
  "a_flag (reference_opt ''--jpeg-quality'') = ''--jpeg-quality''"
  "a_flag (reference_opt ''--reconnect-delay'') = ''--reconnect-delay''"
  "a_flag (reference_opt ''--max-consecutive-errors'') = ''--max-consecutive-errors''"
  "a_flag (reference_opt ''--task'') = ''--task''"
  "a_flag (reference_opt ''--mode'') = ''--mode''"
  "a_flag (reference_opt ''--no-reconnect'') = ''--no-reconnect''"
  by (simp_all add: str_opts int_opts other_opts) (simp_all add: str_arg_def flag_arg_def)

lemma opt_values:
  "get_value (reference_opt ''--url'') v = Inr (StrArg v)"
  "get_value (reference_opt ''--source'') v = Inr (StrArg v)"
  "get_value (reference_opt ''--client-id'') v = Inr (StrArg v)"
  "get_value (reference_opt ''--log-level'') v = Inr (StrArg v)"
  "short_int n \<Longrightarrow> get_value (reference_opt ''--max-jpeg-bytes'') (show_int n) = Inr (IntArg n)"
  "short_int n \<Longrightarrow> get_value (reference_opt ''--queue-max'') (show_int n) = Inr (IntArg n)"
  "short_int n \<Longrightarrow> get_value (reference_opt ''--jpeg-quality'') (show_int n) = Inr (IntArg n)"
  "short_int n \<Longrightarrow> get_value (reference_opt ''--reconnect-delay'') (show_int n) = Inr (IntArg n)"
  "short_int n \<Longrightarrow> get_value (reference_opt ''--max-consecutive-errors'') (show_int n) = Inr (IntArg n)"
  "v \<in> set TASKS \<Longrightarrow> get_value (reference_opt ''--task'') v = Inr (StrArg v)"
  "v \<in> set MODES \<Longrightarrow> get_value (reference_opt ''--mode'') v = Inr (StrArg v)"
  by (simp_all add: get_value_simps(1,3) str_opts int_opts) (simp_all add: get_value_simps(2) other_opts str_arg_def)

lemma opt_assigns:
  "assign (opt_setting (reference_opt ''--categories'') v) st = Inr (store_opt (reference_opt ''--categories'') v st)"
  "assign (opt_setting (reference_opt ''--phrase'') v) st = Inr (store_opt (reference_opt ''--phrase'') v st)"
  "assign (opt_setting (reference_opt ''--text'') v) st = Inr (store_opt (reference_opt ''--text'') v st)"
  "assign (opt_setting (reference_opt ''--description'') v) st = Inr (store_opt (reference_opt ''--description'') v st)"
  by (simp_all add: assign_opt str_opts)

text \<open>What is assigned, in closed form.\<close>

lemma assign_reference:
  assumes "writable_args args"
  shows "assign (reference_settings args) st = Inr (
    store_arg (reference_opt ''--log-level'') (StrArg (ra_log_level args)) (
    store_if (reference_opt ''--no-reconnect'') (no_reconnect (ra_options args)) (
    store_arg (reference_opt ''--max-consecutive-errors'') (IntArg (max_consecutive_errors (ra_options args))) (
    store_arg (reference_opt ''--reconnect-delay'') (IntArg (reconnect_delay (ra_options args))) (
    store_arg (reference_opt ''--jpeg-quality'') (IntArg (ra_jpeg_quality args)) (
    store_arg (reference_opt ''--queue-max'') (IntArg (ra_queue_max args)) (
    store_arg (reference_opt ''--max-jpeg-bytes'') (IntArg (ra_max_jpeg_bytes args)) (
    store_arg (reference_opt ''--client-id'') (StrArg (ra_client_id args)) (
    store_arg (reference_opt ''--mode'') (StrArg (ra_mode args)) (
    store_opt (reference_opt ''--description'') (description (ra_request args)) (
    store_opt (reference_opt ''--text'') (text_slot (ra_request args)) (
    store_opt (reference_opt ''--phrase'') (phrase (ra_request args)) (
    store_opt (reference_opt ''--categories'') (categories (ra_request args)) (
    store_arg (reference_opt ''--task'') (StrArg (task (ra_request args))) (
    store_arg (reference_opt ''--source'') (StrArg (show_source (ra_source args))) (
    store_arg (reference_opt ''--url'') (StrArg (ra_url args)) st))))))))))))))))"
  using assms unfolding writable_args_def reference_settings_def
  by (simp only: assign_append assign_if assign.simps setting_value.simps setting_spec.simps opt_values opt_assigns bindr_Inr
      list.pred_inject simp_thms)

text \<open>A source that is written is read as it was meant.\<close>

lemma read_source_shown:
  assumes "case src of Webcam n \<Rightarrow> 0 \<le> n \<and> short_int n | Path_or_url s \<Rightarrow> \<not> py_str_isdigit s"
  shows "read_source (show_source src) = Inr src"
proof (cases src)
  case (Webcam n)
  with assms have n: "0 \<le> n" "short_int n" by simp_all
  then have "py_str_isdigit (show_int n)" using dec_digits_isdigit [of _ "nat n"]
    by (auto simp: py_str_isdigit_def show_int_def list_all_iff)
  with Webcam n show ?thesis by (simp add: read_source_def py_int_show_int)
qed (use assms in \<open>simp add: read_source_def\<close>)

lemma str_or_None_stored: "str_or_None (if \<exists>y. v = Some y then StrArg (the v) else NoneArg) = v"
  by (cases v) simp_all

lemma assigned_reference:
  assumes "writable_args args"
  shows "\<exists>st. assign (reference_settings args) (parsing_start reference_specs) = Inr st \<and>
     ''--task'' \<in> set (p_seen st) \<and> p_extras st = [] \<and>
     p_ns st ''--url'' = StrArg (ra_url args) \<and>
     p_ns st ''--source'' = StrArg (show_source (ra_source args)) \<and>
     p_ns st ''--task'' = StrArg (task (ra_request args)) \<and>
     p_ns st ''--mode'' = StrArg (ra_mode args) \<and>
     p_ns st ''--client-id'' = StrArg (ra_client_id args) \<and>
     p_ns st ''--max-jpeg-bytes'' = IntArg (ra_max_jpeg_bytes args) \<and>
     p_ns st ''--queue-max'' = IntArg (ra_queue_max args) \<and>
     p_ns st ''--jpeg-quality'' = IntArg (ra_jpeg_quality args) \<and>
     p_ns st ''--reconnect-delay'' = IntArg (reconnect_delay (ra_options args)) \<and>
     p_ns st ''--max-consecutive-errors'' = IntArg (max_consecutive_errors (ra_options args)) \<and>
     p_ns st ''--log-level'' = StrArg (ra_log_level args) \<and>
     str_or_None (p_ns st ''--categories'') = categories (ra_request args) \<and>
     str_or_None (p_ns st ''--phrase'') = phrase (ra_request args) \<and>
     str_or_None (p_ns st ''--text'') = text_slot (ra_request args) \<and>
     str_or_None (p_ns st ''--description'') = description (ra_request args) \<and>
     bool_of (p_ns st ''--no-reconnect'') = no_reconnect (ra_options args)"
proof -
  have defaults: "p_ns (parsing_start reference_specs) ''--categories'' = NoneArg" "p_ns (parsing_start reference_specs) ''--phrase'' = NoneArg"
    "p_ns (parsing_start reference_specs) ''--text'' = NoneArg" "p_ns (parsing_start reference_specs) ''--description'' = NoneArg"
    by (simp_all add: find_arg_def spec_defs)
  have off: "p_ns (parsing_start reference_specs) ''--no-reconnect'' = BoolArg False"
    by (simp add: reference_opts(5)) (simp add: flag_arg_def)
  show ?thesis
    unfolding assign_reference [OF assms]
    by (intro exI conjI, rule refl) (simp_all add: opt_flags defaults off str_or_None_stored del: parsing_start_facts(1))
qed

lemma parse_command_line:
  assumes "writable_args args"
  shows "parse_args (command_line args) = Inr args"
proof -
  obtain st where st: "assign (reference_settings args) (parsing_start reference_specs) = Inr st"
    and seen: "''--task'' \<in> set (p_seen st)" "p_extras st = []"
    and "p_ns st ''--url'' = StrArg (ra_url args)"
    and "p_ns st ''--source'' = StrArg (show_source (ra_source args))"
    and "p_ns st ''--task'' = StrArg (task (ra_request args))"
    and "p_ns st ''--mode'' = StrArg (ra_mode args)"
    and "p_ns st ''--client-id'' = StrArg (ra_client_id args)"
    and "p_ns st ''--max-jpeg-bytes'' = IntArg (ra_max_jpeg_bytes args)"
    and "p_ns st ''--queue-max'' = IntArg (ra_queue_max args)"
    and "p_ns st ''--jpeg-quality'' = IntArg (ra_jpeg_quality args)"
    and "p_ns st ''--reconnect-delay'' = IntArg (reconnect_delay (ra_options args))"
    and "p_ns st ''--max-consecutive-errors'' = IntArg (max_consecutive_errors (ra_options args))"
    and "p_ns st ''--log-level'' = StrArg (ra_log_level args)"
    and "str_or_None (p_ns st ''--categories'') = categories (ra_request args)"
    and "str_or_None (p_ns st ''--phrase'') = phrase (ra_request args)"
    and "str_or_None (p_ns st ''--text'') = text_slot (ra_request args)"
    and "str_or_None (p_ns st ''--description'') = description (ra_request args)"
    and "bool_of (p_ns st ''--no-reconnect'') = no_reconnect (ra_options args)"
    using assigned_reference [OF assms] by metis
  note ns = this
  have src: "read_source (show_source (ra_source args)) = Inr (ra_source args)"
    using assms by (intro read_source_shown) (simp add: writable_args_def)
  have "run_parser reference_specs (command_line args) = Inr (p_ns st)"
    unfolding command_line_def run_parser_settings [OF proper_parsers(1) reference_settings_ok] st bindr_Inr finish_reference
    using seen by simp
  then show ?thesis by (simp add: parse_args_def request_of_def src ns)
qed
subsection \<open>What a client accepts\<close>

lemma py_int_error: "py_int s = Inl e \<Longrightarrow> exc_cls e = ValueError"
  by (auto simp: py_int_def py_int_digits_def bindr_def split: prod.splits option.splits sum.splits if_splits)

lemma py_int_digits_nonneg: "py_int_digits ds = Inr n \<Longrightarrow> 0 \<le> n"
  by (auto simp: py_int_digits_def split: if_splits)

lemma parsed_choice:
  assumes "proper_specs specs" and "run_parser specs argv = Inr ns" and "s \<in> set specs"
    and "a_kind s = Store_str" and "a_choices s = Some cs" and "a_required s \<or> (\<exists>d \<in> set cs. a_default s = StrArg d)"
  shows "\<exists>t \<in> set cs. ns (a_flag s) = StrArg t"
  using run_parser_sound [OF assms(1-3)] given_arg_kind(1) [OF _ assms(4), of "ns (a_flag s)"] assms(5,6) by auto

definition task_arg :: arg_spec where
  "task_arg = (str_arg ''--task'' NoneArg)\<lparr>a_choices := Some TASKS, a_required := True\<rparr>"

lemma parsed_task:
  assumes "proper_specs specs" and "run_parser specs argv = Inr ns" and "task_arg \<in> set specs"
  shows "task (request_of ns) \<in> set TASKS"
  using parsed_choice [OF assms, of TASKS] by (auto simp: task_arg_def str_arg_def request_of_def)

lemma task_args: "task_arg \<in> set reference_specs" "task_arg \<in> set smoke_specs" "task_arg \<in> set concurrency_specs"
  by (simp_all add: task_arg_def spec_defs)

lemma parsed_mode:
  assumes "run_parser reference_specs argv = Inr ns" shows "str_of (ns ''--mode'') \<in> set MODES"
  using parsed_choice [OF proper_parsers(1) assms opt_facts(2) [OF reference_opts(4)], of MODES]
  by (auto simp: str_arg_def MODES_def)

lemma parsed_expect:
  assumes "run_parser smoke_specs argv = Inr ns"
  shows "str_or_None (ns ''--expect-type'') \<in> {None, Some ''boxes'', Some ''points'', Some ''abstained''}"
proof -
  let ?s = "(str_arg ''--expect-type'' NoneArg)\<lparr>a_choices := Some [''boxes'', ''points'', ''abstained'']\<rparr>"
  have "?s \<in> set smoke_specs" by (simp add: smoke_specs_def)
  from run_parser_sound [OF proper_parsers(2) assms this] given_arg_kind(1) [of ?s "ns ''--expect-type''"]
  show ?thesis by (auto simp: str_arg_def)
qed

lemma read_source_cases:
  "case read_source s of Inl e \<Rightarrow> exc_cls e = ValueError
   | Inr src \<Rightarrow> src = Path_or_url s \<and> \<not> py_str_isdigit s \<or> (\<exists>n. src = Webcam n \<and> py_int s = Inr n)"
  by (auto simp: read_source_def bindr_def py_int_error split: sum.splits)

lemma parse_args_Inr:
  assumes "parse_args argv = Inr args"
  shows "task (ra_request args) \<in> set TASKS" "ra_mode args \<in> set MODES"
proof -
  from assms obtain ns where r: "run_parser reference_specs argv = Inr ns"
    and args: "ra_request args = request_of ns" "ra_mode args = str_of (ns ''--mode'')"
    by (auto simp: parse_args_def bindr_eq_Inr)
  show "task (ra_request args) \<in> set TASKS" unfolding args by (rule parsed_task [OF proper_parsers(1) r task_args(1)])
  show "ra_mode args \<in> set MODES" unfolding args by (rule parsed_mode [OF r])
qed

lemma parse_args_Inl:
  "parse_args argv = Inl e \<Longrightarrow> e \<in> {Exc SystemExit ''0'', Exc SystemExit ''2''} \<or> exc_cls e = ValueError"
  using run_parser_error [of reference_specs argv e]
  by (auto simp: parse_args_def bindr_eq_Inl read_source_def py_int_error split: if_splits)

text \<open>With an accepted task only the slot of the task can be missing.\<close>

lemma assemble_known_task:
  assumes "task args \<in> set TASKS" and "assemble_request quit args = x"
  shows "(\<exists>req. x = Inr req) \<or> (\<exists>m. x = quit m \<and> m \<noteq> ''unknown --task'')"
  using assms by (auto simp: TASKS_def assemble_request_def required_slot_def Let_def split: option.splits if_splits)

section \<open>Properties\<close>

text \<open>C19.
  Every setting of the reference client can be given on its command line and is read back as it was meant, whatever text
  its values hold: dashes, blanks, equals signs or nothing at all. Written as \<open>--name=value\<close>, the options never
  interfere with each other or with the abbreviations argparse accepts.
\<close>

theorem command_line_roundtrip:
  assumes "writable_args args"
  shows "parse_args (command_line args) = Inr args"
  by (rule parse_command_line [OF assms])

definition demo_reference_args :: reference_args where
  "demo_reference_args = \<lparr>ra_url = ''ws://h:1/v1/stream'', ra_source = Webcam 2, ra_request = demo_args\<lparr>phrase := Some ''--task=x -h''\<rparr>,
     ra_mode = ''slow'', ra_client_id = [], ra_max_jpeg_bytes = 1000, ra_queue_max = - 1, ra_jpeg_quality = 92,
     ra_options = \<lparr>reconnect_delay = 3, max_consecutive_errors = 10, no_reconnect = True\<rparr>, ra_log_level = ''debug''\<rparr>"

lemma command_line_roundtrip_witness:
  "parse_args (command_line demo_reference_args) = Inr demo_reference_args"
  by (rule command_line_roundtrip) code_simp

text \<open>What reaches a client from its command line. For every list of words, each of the three clients either ends with the
  help (status 0) or a usage error (status 2), or goes on with one of the seven tasks, the reference client also with one
  of the three modes and the smoke client with no expected type or one of the three success types. Only the
  reference client can end in another way: a \<open>ValueError\<close> for a source that \<open>isdigit\<close> takes and \<open>int\<close> does not.
\<close>

theorem accepted_arguments:
  "(case parse_args argv of
      Inl e \<Rightarrow> e \<in> {Exc SystemExit ''0'', Exc SystemExit ''2''} \<or> exc_cls e = ValueError
    | Inr args \<Rightarrow> task (ra_request args) \<in> set TASKS \<and> ra_mode args \<in> set MODES) \<and>
   (case smoke_parse_args argv of
      Inl e \<Rightarrow> e \<in> {Exc SystemExit ''0'', Exc SystemExit ''2''}
    | Inr args \<Rightarrow> task (so_request args) \<in> set TASKS \<and>
        so_expect_type args \<in> {None, Some ''boxes'', Some ''points'', Some ''abstained''}) \<and>
   (case concurrency_parse_args argv of
      Inl e \<Rightarrow> e \<in> {Exc SystemExit ''0'', Exc SystemExit ''2''}
    | Inr args \<Rightarrow> task (ca_request args) \<in> set TASKS)"
proof (intro conjI)
  show "case parse_args argv of
      Inl e \<Rightarrow> e \<in> {Exc SystemExit ''0'', Exc SystemExit ''2''} \<or> exc_cls e = ValueError
    | Inr args \<Rightarrow> task (ra_request args) \<in> set TASKS \<and> ra_mode args \<in> set MODES"
    using parse_args_Inl [of argv] parse_args_Inr [of argv] by (simp split: sum.split)
  show "case smoke_parse_args argv of
      Inl e \<Rightarrow> e \<in> {Exc SystemExit ''0'', Exc SystemExit ''2''}
    | Inr args \<Rightarrow> task (so_request args) \<in> set TASKS \<and>
        so_expect_type args \<in> {None, Some ''boxes'', Some ''points'', Some ''abstained''}"
    using run_parser_error [of smoke_specs argv] parsed_task [OF proper_parsers(2) _ task_args(2), of argv] parsed_expect [of argv]
    by (auto simp: smoke_parse_args_def bindr_def split: sum.splits)
  show "case concurrency_parse_args argv of
      Inl e \<Rightarrow> e \<in> {Exc SystemExit ''0'', Exc SystemExit ''2''}
    | Inr args \<Rightarrow> task (ca_request args) \<in> set TASKS"
    using run_parser_error [of concurrency_specs argv] parsed_task [OF proper_parsers(3) _ task_args(3), of argv]
    by (auto simp: concurrency_parse_args_def bindr_def split: sum.splits)
qed

text \<open>A superscript digit as the source: the client ends with a \<open>ValueError\<close>, neither opening a file nor a webcam.\<close>

lemma superscript_source:
  "parse_args [''--task'', ''scene_text'', ''--source'', [CHR 0xB2]] = raise ValueError ''invalid literal for int()''"
  by code_simp

text \<open>The command line of the smoke test script.\<close>

lemma smoke_script_line:
  "map_sum id so_request (smoke_parse_args [''--url'', ''ws://127.0.0.1:8765/v1/stream'', ''--image'', ''calibration.jpg'',
     ''--task'', ''detection'', ''--categories'', ''bottle,book,cup,laptop'', ''--mode'', ''hybrid'', ''--expect-type'', ''boxes'',
     ''--timeout'', ''120'']) =
   Inr \<lparr>task = ''detection'', categories = Some ''bottle,book,cup,laptop'', phrase = None, text_slot = None, description = None\<rparr>"
  by code_simp

end
