(* ===== verification/Ipc_Link.thy ===== *)
theory Ipc_Link
  imports Ws_Edge
begin

text \<open>
  The hop between the edge and the worker on bytes: \<open>WorkerConn\<close> of \<^verbatim>\<open>rust_server/src/ipc.rs\<close> on one side of the Unix socket,
  the loop \<open>serve\<close> of \<^verbatim>\<open>worker/la_worker.py\<close> on the other. The frames of \<open>LengthDelimitedCodec\<close> are those of theory Framing;
  \<open>to_string\<close> is the JSON printer of the edge.

  Theory Ws_Edge talks to the worker through the function \<open>worker_link\<close>. Here the bytes are shown to implement a worker that
  can die: the abstract worker \<open>mortal_link\<close> is \<open>worker_link\<close> until an inference runs out of memory or time, and then answers
  no more. It is no function of the source but the specification of what the bytes do. Nothing in \<^verbatim>\<open>ws.rs\<close> watches the
  Unix socket between two frames, so a death of the worker is only seen when the next frame is forwarded. The locale \<open>worker_refinement\<close> is the contract between two workers that an edge cannot tell apart.
\<close>

section \<open>The connection\<close>

text \<open>Both ends of the socket: the worker's writer and world, the bytes it sent that the edge has not read, and whether its
  handler still waits for requests (for \<open>serve\<close>, the end of the bytes sent so far).\<close>

record 'w uds =
  link :: writer
  world :: 'w
  unread :: "byte list"
  serving :: bool

definition fresh_uds :: "writer \<Rightarrow> 'w \<Rightarrow> 'w uds" where
  "fresh_uds wr wd = \<lparr>link = wr, world = wd, unread = [], serving = True\<rparr>"

text \<open>\<open>framed.send\<close> refuses a frame above \<open>max_frame_length\<close>, 16 MiB as on the Python side.\<close>

definition codec_send :: "byte list \<Rightarrow> byte list option" where
  "codec_send data = (if length data > MAX_FRAME_BYTES then None else Some (frame_bytes data))"

text \<open>Two frames are sent and one is awaited. \<open>None\<close>: a send or the read failed.\<close>

definition exchange ::
  "('img, 'prof, 'vis, 'inp, 'tok, 'w) worker_app \<Rightarrow> 'w worker_libs \<Rightarrow> byte list \<Rightarrow> byte list \<Rightarrow> 'w uds \<Rightarrow>
   byte list option \<times> 'w uds" where
  "exchange app wlibs header payload u =
     (case (codec_send header, codec_send payload) of
        (Some h, Some p) \<Rightarrow>
          if \<not> serving u then (None, u)
          else let (oc, wr, wd) = serve app wlibs (h @ p) (link u) (world u);
                   arrived = unread u @ drop (length (sent (link u))) (sent wr)
               in (case read_frame arrived of
                     Inl e \<Rightarrow> (None, \<lparr>link = wr, world = wd, unread = arrived, serving = False\<rparr>)
                   | Inr (body, rest) \<Rightarrow> (Some body, \<lparr>link = wr, world = wd, unread = rest, serving = (oc = Closed)\<rparr>))
      | _ \<Rightarrow> (None, u\<lparr>serving := False\<rparr>))"

text \<open>\<open>WorkerConn::infer\<close> up to the parsed body.\<close>

definition wire_worker ::
  "('img, 'prof, 'vis, 'inp, 'tok, 'w) worker_app \<Rightarrow> 'w worker_libs \<Rightarrow> edge_libs \<Rightarrow> (json \<Rightarrow> byte list) \<Rightarrow>
   'w uds \<Rightarrow> json \<Rightarrow> byte list \<Rightarrow> json option \<times> 'w uds" where
  "wire_worker app wlibs libs to_string u header jpeg =
     (let (body, u') = exchange app wlibs (to_string header) jpeg u in (Option.bind body (from_slice libs), u'))"

section \<open>The abstract worker\<close>

definition survives :: "json res \<Rightarrow> bool" where
  "survives r = (case r of Inr _ \<Rightarrow> True | Inl e \<Rightarrow> exc_isa (exc_cls e) Exception \<and> \<not> fatal e)"

definition mortal_link ::
  "('img, 'prof, 'vis, 'inp, 'tok, 'w) worker_app \<Rightarrow> 'w worker_libs \<Rightarrow> 'w option \<Rightarrow> json \<Rightarrow> byte list \<Rightarrow>
   json option \<times> 'w option" where
  "mortal_link app wlibs s header jpeg = (case s of
     None \<Rightarrow> (None, None)
   | Some wd \<Rightarrow> let (body, wd') = worker_link app wlibs wd header jpeg
                in (body, if survives (fst (infer app wlibs wd header jpeg)) then Some wd' else None))"

interpretation mortal: echoing_worker "mortal_link app wlibs" for app wlibs
proof
  fix s s' header jpeg v
  assume "mortal_link app wlibs s header jpeg = (Some v, s')"
  then obtain wd wd' where "worker_link app wlibs wd header jpeg = (Some v, wd')"
    by (auto simp: mortal_link_def split: option.splits prod.splits)
  then show "jget v ''frame_id'' = Some (JStr (req_frame_id header))" by (rule python.echo)
qed

section \<open>Lemmas on the wire\<close>

definition healthy :: "writer \<Rightarrow> bool" where
  "healthy wr \<longleftrightarrow> (\<forall>n. \<not> closing wr n \<and> drain_error wr n = None)"

definition wrote :: "writer \<Rightarrow> byte list \<Rightarrow> writer" where
  "wrote wr d = wr\<lparr>attempts := Suc (attempts wr), sent := sent wr @ frame_bytes d\<rparr>"

lemma wrote [simp]: "healthy (wrote wr d) = healthy wr" "sent (wrote wr d) = sent wr @ frame_bytes d"
  by (simp_all add: wrote_def healthy_def)

lemma write_bytes_healthy:
  "healthy wr \<Longrightarrow> length d \<le> MAX_FRAME_BYTES \<Longrightarrow> write_bytes (Inr d) wr = (Inr (), wrote wr d)"
  by (simp add: write_bytes_def write_frame_def Let_def healthy_def wrote_def)

lemma serve_nil [simp]: "serve app libs [] wr wd = (Closed, wr, wd)"
  by (subst serve.simps) (simp add: read_frame_def readexactly_def LEN_PREFIX_def)

lemma serve_request:
  assumes "length hb \<le> MAX_FRAME_BYTES" "length payload \<le> MAX_FRAME_BYTES"
  shows "serve app libs (frame_bytes hb @ frame_bytes payload @ rest) wr wd =
    (case handle_request app libs hb payload wr wd of
       (Some oc, wr', wd') \<Rightarrow> (oc, wr', wd') | (None, wr', wd') \<Rightarrow> serve app libs rest wr' wd')"
  by (subst serve.simps) (simp add: read_frame_append assms)

lemma handle_exception_Exception:
  assumes "exc_isa (exc_cls e) Exception"
  shows "handle_exception libs fid e wr = (if fatal e then write_and_exit else write_and_continue)
    (err_frame_bytes libs fid ''internal'' (exception_message e)) wr"
  using assms unfolding handle_exception_def exception_message_def fatal_def by (simp split: if_split)
lemma below_Exception: "\<not> exc_isa c Exception \<Longrightarrow>
   \<not> exc_isa c OutOfMemoryError \<and> \<not> exc_isa c TimeoutError \<and> \<not> exc_isa c ValueError \<and> \<not> exc_isa c RuntimeError"
proof -
  have "exc_isa OutOfMemoryError Exception" "exc_isa TimeoutError Exception" "exc_isa ValueError Exception"
    "exc_isa RuntimeError Exception" by code_simp+
  then show "\<not> exc_isa c Exception \<Longrightarrow> ?thesis" using exc_isa_trans by blast
qed

text \<open>One request over a link that works: what is written, and how the handler goes on, by the outcome of its branch.\<close>

lemma handle_request_body:
  assumes h: "json_loads wlibs hb = Inr h" "is_obj h" and wr: "healthy wr"
    and route: "route app wlibs h (req_frame_id h) payload wr wd =
      (let (r, wr') = write_bytes (bindr resp (json_dumps wlibs)) wr in (r, wr', wd'))"
  shows "resp = Inr reply \<Longrightarrow> json_dumps wlibs reply = Inr d \<Longrightarrow> length d \<le> MAX_FRAME_BYTES \<Longrightarrow>
      handle_request app wlibs hb payload wr wd = (None, wrote wr d, wd')"
    and "resp = Inl e \<Longrightarrow> exc_isa (exc_cls e) Exception \<Longrightarrow>
      frame_error (req_frame_id h) ''internal'' (exception_message e) = Inr reply \<Longrightarrow>
      json_dumps wlibs reply = Inr d \<Longrightarrow> length d \<le> MAX_FRAME_BYTES \<Longrightarrow>
      handle_request app wlibs hb payload wr wd = (if fatal e then Some (HardExit 75) else None, wrote wr d, wd')"
    and "resp = Inl e \<Longrightarrow> \<not> exc_isa (exc_cls e) Exception \<Longrightarrow>
      handle_request app wlibs hb payload wr wd = (Some (Crashed e), wr, wd')"
proof -
  have req: "handle_request app wlibs hb payload wr wd =
      (case route app wlibs h (req_frame_id h) payload wr wd of
         (Inr _, wr', wd') \<Rightarrow> (None, wr', wd')
       | (Inl e, wr', wd') \<Rightarrow> let (oc, wr'') = handle_exception wlibs (req_frame_id h) e wr' in (oc, wr'', wd'))"
    using h by (simp add: handle_request_def)
  show "handle_request app wlibs hb payload wr wd = (None, wrote wr d, wd')"
    if "resp = Inr reply" "json_dumps wlibs reply = Inr d" "length d \<le> MAX_FRAME_BYTES"
    using that write_bytes_healthy [OF wr] by (simp add: req route)
  have failed: "handle_request app wlibs hb payload wr wd =
      (let (oc, wr') = handle_exception wlibs (req_frame_id h) e wr in (oc, wr', wd'))" if "resp = Inl e"
    using that by (simp add: req route write_bytes_def)
  show "handle_request app wlibs hb payload wr wd = (if fatal e then Some (HardExit 75) else None, wrote wr d, wd')"
    if e: "resp = Inl e" "exc_isa (exc_cls e) Exception"
      and b: "frame_error (req_frame_id h) ''internal'' (exception_message e) = Inr reply"
      "json_dumps wlibs reply = Inr d" "length d \<le> MAX_FRAME_BYTES"
    using b write_bytes_healthy [OF wr]
    by (simp add: failed [OF e(1)] handle_exception_Exception [OF e(2)] write_and_exit_def write_and_continue_def
        err_frame_bytes_def WORKER_RESTART_EXIT_CODE_def)
  show "handle_request app wlibs hb payload wr wd = (Some (Crashed e), wr, wd')"
    if e: "resp = Inl e" "\<not> exc_isa (exc_cls e) Exception"
    using e(2) below_Exception [OF e(2)] by (simp add: failed [OF e(1)] handle_exception_def)
qed

lemma route_frame:
  assumes "jget h ''kind'' = Some (JStr ''frame'')" "infer app wlibs wd h payload = (resp, wd')"
  shows "route app wlibs h fid payload wr wd =
    (let (r, wr') = write_bytes (bindr resp (json_dumps wlibs)) wr in (r, wr', wd'))"
  using assms by (simp add: route_def)

lemma route_info:
  assumes "jget h ''kind'' = Some (JStr ''info'')"
  shows "route app wlibs h fid payload wr wd =
    (let (r, wr') = write_bytes (bindr (info wlibs wd) (json_dumps wlibs)) wr in (r, wr', wd))"
  using assms by (simp add: route_def)

section \<open>Refinement\<close>

text \<open>Two workers an edge cannot tell apart: whatever one answers to a header and a payload it understands, so does the other.\<close>

locale worker_refinement =
  fixes conc :: "'s \<Rightarrow> json \<Rightarrow> byte list \<Rightarrow> json option \<times> 's" and abst :: "'t \<Rightarrow> json \<Rightarrow> byte list \<Rightarrow> json option \<times> 't"
    and rel :: "'s \<Rightarrow> 't \<Rightarrow> bool" and understood :: "'t \<Rightarrow> json \<Rightarrow> byte list \<Rightarrow> bool"
  assumes simulated: "rel s t \<Longrightarrow> understood t header jpeg \<Longrightarrow> conc s header jpeg = (body, s') \<Longrightarrow>
    \<exists>t'. abst t header jpeg = (body, t') \<and> rel s' t'"
begin

lemma same_conversation:
  assumes "rel s t" and "\<forall>bytes \<in> set (binaries events). \<forall>p t. process_binary libs bytes = Pending p \<longrightarrow>
    understood t (ipc_header p) (pf_jpeg p)"
  shows "handle_ws libs conc s events = handle_ws libs abst t events"
  using assms
proof (induction events arbitrary: s t)
  case (Cons e events)
  show ?case
  proof (cases e)
    case (Binary bytes sends)
    show ?thesis
    proof (cases "process_binary libs bytes")
      case (Pending p)
      obtain body s' where c: "conc s (ipc_header p) (pf_jpeg p) = (body, s')" by fastforce
      have "understood t (ipc_header p) (pf_jpeg p)" using Cons.prems(2) Binary Pending by simp
      from simulated [OF Cons.prems(1) this c] obtain t' where a: "abst t (ipc_header p) (pf_jpeg p) = (body, t')" "rel s' t'"
        by blast
      have "handle_ws libs conc s' events = handle_ws libs abst t' events"
        using Cons.IH [OF a(2)] Cons.prems(2) Binary by simp
      with Binary Pending c a(1) show ?thesis by (simp split: option.split)
    qed (use Binary Cons in auto)
  qed (use Cons in auto)
qed simp

lemma same_answer:
  assumes "rel s t" and "\<And>p. process_binary libs bytes = Pending p \<Longrightarrow> understood t (ipc_header p) (pf_jpeg p)"
  shows "handle_ws libs conc s [Binary bytes sends] = handle_ws libs abst t [Binary bytes sends]"
proof (cases "process_binary libs bytes")
  case (Pending p)
  obtain body s' where c: "conc s (ipc_header p) (pf_jpeg p) = (body, s')" by fastforce
  from simulated [OF assms(1) assms(2) [OF Pending] c] Pending c show ?thesis by (auto split: option.split)
qed simp_all

end

text \<open>What the two JSON libraries owe each other: each reads what the other prints, and no frame is above the cap.\<close>

definition speaks ::
  "('img, 'prof, 'vis, 'inp, 'tok, 'w) worker_app \<Rightarrow> 'w worker_libs \<Rightarrow> edge_libs \<Rightarrow> (json \<Rightarrow> byte list) \<Rightarrow> 'w \<Rightarrow>
   json \<Rightarrow> byte list \<Rightarrow> bool" where
  "speaks app wlibs libs to_string wd header jpeg \<longleftrightarrow>
     json_loads wlibs (to_string header) = Inr header \<and> length (to_string header) \<le> MAX_FRAME_BYTES \<and>
     length jpeg \<le> MAX_FRAME_BYTES \<and>
     (\<forall>v. fst (worker_link app wlibs wd header jpeg) = Some v \<longrightarrow>
        (\<exists>d. json_dumps wlibs v = Inr d \<and> length d \<le> MAX_FRAME_BYTES \<and> from_slice libs d = Some v))"

definition coupled :: "'w uds \<Rightarrow> 'w option \<Rightarrow> bool" where
  "coupled u s \<longleftrightarrow> (case s of
     None \<Rightarrow> \<not> serving u
   | Some wd \<Rightarrow> serving u \<and> world u = wd \<and> unread u = [] \<and> healthy (link u))"

definition is_request :: "json \<Rightarrow> bool" where
  "is_request header \<longleftrightarrow> is_obj header \<and> jget header ''kind'' = Some (JStr ''frame'')"

lemma ipc_header_request [simp]: "is_request (ipc_header p)"
  by (simp add: ipc_header_def is_request_def)

text \<open>One exchange over a link that works, by what the handler makes of the request.\<close>

lemma exchange_answered:
  assumes u: "coupled u (Some wd)" and sizes: "length hb \<le> MAX_FRAME_BYTES" "length jpeg \<le> MAX_FRAME_BYTES"
    and h: "handle_request app wlibs hb jpeg (link u) wd = (oc, wrote (link u) d, wd')" "length d \<le> MAX_FRAME_BYTES"
    and oc: "oc \<noteq> Some Closed"
  shows "exchange app wlibs hb jpeg u =
    (Some d, \<lparr>link = wrote (link u) d, world = wd', unread = [], serving = (oc = None)\<rparr>)"
proof -
  have "serve app wlibs (frame_bytes hb @ frame_bytes jpeg) (link u) (world u) =
      ((case oc of None \<Rightarrow> Closed | Some o' \<Rightarrow> o'), wrote (link u) d, wd')"
    using serve_request [OF sizes, of app wlibs "[]"] u h(1) by (simp add: coupled_def split: option.split)
  moreover have "read_frame (frame_bytes d) = Inr (d, [])" using read_frame_append [OF h(2), of "[]"] by simp
  ultimately show ?thesis
    using u sizes oc by (auto simp: exchange_def codec_send_def coupled_def not_less split: option.split)
qed

lemma exchange_died:
  assumes u: "coupled u (Some wd)" and sizes: "length hb \<le> MAX_FRAME_BYTES" "length jpeg \<le> MAX_FRAME_BYTES"
    and h: "handle_request app wlibs hb jpeg (link u) wd = (Some oc, link u, wd')"
  shows "\<exists>u'. exchange app wlibs hb jpeg u = (None, u') \<and> \<not> serving u'"
proof -
  have "serve app wlibs (frame_bytes hb @ frame_bytes jpeg) (link u) (world u) = (oc, link u, wd')"
    using serve_request [OF sizes, of app wlibs "[]"] u h by (simp add: coupled_def)
  moreover have "read_frame [] = raise IncompleteReadError ''incomplete read''"
    by (simp add: read_frame_def readexactly_def LEN_PREFIX_def)
  ultimately show ?thesis using u sizes by (simp add: exchange_def codec_send_def coupled_def not_less)
qed

definition understood ::
  "('img, 'prof, 'vis, 'inp, 'tok, 'w) worker_app \<Rightarrow> 'w worker_libs \<Rightarrow> edge_libs \<Rightarrow> (json \<Rightarrow> byte list) \<Rightarrow> 'w option \<Rightarrow>
   json \<Rightarrow> byte list \<Rightarrow> bool" where
  "understood app wlibs libs to_string s header jpeg \<longleftrightarrow>
     is_request header \<and> (\<forall>wd. s = Some wd \<longrightarrow> speaks app wlibs libs to_string wd header jpeg)"

interpretation wire: worker_refinement "wire_worker app wlibs libs to_string" "mortal_link app wlibs" coupled
    "understood app wlibs libs to_string" for app wlibs libs to_string
proof
  fix u s header jpeg body u'
  assume c: "coupled u s" and un: "understood app wlibs libs to_string s header jpeg"
    and w: "wire_worker app wlibs libs to_string u header jpeg = (body, u')"
  show "\<exists>s'. mortal_link app wlibs s header jpeg = (body, s') \<and> coupled u' s'"
  proof (cases s)
    case None
    with c w show ?thesis
      by (auto simp: coupled_def wire_worker_def exchange_def mortal_link_def split: option.splits)
  next
    case (Some wd)
    let ?hb = "to_string header"
    from un Some have sizes: "length ?hb \<le> MAX_FRAME_BYTES" "length jpeg \<le> MAX_FRAME_BYTES"
      and h: "json_loads wlibs ?hb = Inr header" "is_obj header" "jget header ''kind'' = Some (JStr ''frame'')"
      and reply: "\<And>v. fst (worker_link app wlibs wd header jpeg) = Some v \<Longrightarrow>
        \<exists>d. json_dumps wlibs v = Inr d \<and> length d \<le> MAX_FRAME_BYTES \<and> from_slice libs d = Some v"
      by (auto simp: understood_def speaks_def is_request_def)
    from c Some have u: "coupled u (Some wd)" and wr: "healthy (link u)" by (simp_all add: coupled_def)
    obtain resp wd' where i: "infer app wlibs wd header jpeg = (resp, wd')" by fastforce
    note hr = handle_request_body [OF h(1,2) wr route_frame [OF h(3) i]]
    have answered: ?thesis
      if l: "worker_link app wlibs wd header jpeg = (Some v, wd')" and oc: "oc = None \<longleftrightarrow> survives resp" "oc \<noteq> Some Closed"
        and hq: "\<And>d. json_dumps wlibs v = Inr d \<Longrightarrow> length d \<le> MAX_FRAME_BYTES \<Longrightarrow>
          handle_request app wlibs ?hb jpeg (link u) wd = (oc, wrote (link u) d, wd')" for v oc
    proof -
      from reply [of v] l obtain d where d: "json_dumps wlibs v = Inr d" "length d \<le> MAX_FRAME_BYTES" "from_slice libs d = Some v"
        by auto
      from w exchange_answered [OF u sizes hq [OF d(1,2)] d(2) oc(2)] d(3)
      show ?thesis using l i oc(1) wr by (auto simp: wire_worker_def mortal_link_def Some coupled_def)
    qed
    show ?thesis
    proof (cases resp)
      case (Inr v)
      with i hr(1) [OF Inr] show ?thesis by (intro answered [of v None]) (simp_all add: worker_link_def survives_def)
    next
      case (Inl e)
      show ?thesis
      proof (cases "exc_isa (exc_cls e) Exception")
        case True
        obtain v where v: "frame_error (req_frame_id header) ''internal'' (exception_message e) = Inr v"
          using frame_error_returns [of "''internal''", unfolded returns_iff, OF ERROR_CODES_simps(3)] by blast
        with i Inl True hr(2) [OF Inl True v] show ?thesis
          by (intro answered [of v "if fatal e then Some (HardExit 75) else None"]) (simp_all add: worker_link_def survives_def)
      next
        case False
        from w exchange_died [OF u sizes hr(3) [OF Inl False]] show ?thesis
          using i Inl False by (auto simp: wire_worker_def mortal_link_def worker_link_def survives_def Some coupled_def)
      qed
    qed
  qed
qed

lemma fresh_coupled: "healthy wr \<Longrightarrow> coupled (fresh_uds wr wd) (Some wd)"
  by (simp add: coupled_def fresh_uds_def)

lemma wire_answer:
  assumes "healthy wr"
    and "\<And>p. process_binary libs bytes = Pending p \<Longrightarrow> speaks app wlibs libs to_string wd (ipc_header p) (pf_jpeg p)"
  shows "handle_ws libs (wire_worker app wlibs libs to_string) (fresh_uds wr wd) [Binary bytes sends] =
    handle_ws libs (worker_link app wlibs) wd [Binary bytes sends]"
proof -
  have "handle_ws libs (wire_worker app wlibs libs to_string) (fresh_uds wr wd) [Binary bytes sends] =
      handle_ws libs (mortal_link app wlibs) (Some wd) [Binary bytes sends]"
    using assms by (intro wire.same_answer fresh_coupled) (simp_all add: understood_def)
  also have "\<dots> = handle_ws libs (worker_link app wlibs) wd [Binary bytes sends]"
    by (simp add: mortal_link_def split: binary_outcome.split prod.split option.split)
  finally show ?thesis .
qed

section \<open>Properties\<close>

text \<open>C10.
  The bytes on the Unix socket implement the worker the edge believes in. Over a link that works, with JSON libraries that
  read what the other prints and no frame above the cap, a client sees of a whole connection exactly what it would see if
  the edge called \<open>worker_link\<close> directly, until an inference runs out of memory or time: then it still gets that frame's
  error reply, and its next frame that reaches the worker gets a Close 1011. The close does not follow the error reply by
  itself, as the documents say it does (immediately): the edge sends it only when it forwards the next frame, and to a
  client that sends no further frame it never sends it.
\<close>

theorem hop_is_transparent:
  assumes "healthy wr" and "\<forall>bytes \<in> set (binaries events). \<forall>p wd. process_binary libs bytes = Pending p \<longrightarrow>
    speaks app wlibs libs to_string wd (ipc_header p) (pf_jpeg p)"
  shows "handle_ws libs (wire_worker app wlibs libs to_string) (fresh_uds wr wd) events =
      handle_ws libs (mortal_link app wlibs) (Some wd) events \<and>
    list_all2 (reply_to libs)
      (take (length (texts (handle_ws libs (mortal_link app wlibs) (Some wd) events))) (binaries events))
      (texts (handle_ws libs (mortal_link app wlibs) (Some wd) events))"
  using assms by (intro conjI wire.same_conversation fresh_coupled mortal.answers_in_order) (simp_all add: understood_def)

lemma process_binary_cong:
  "g (take (unpack_u32 (take 4 bytes)) (drop 4 bytes)) = from_slice libs (take (unpack_u32 (take 4 bytes)) (drop 4 bytes)) \<Longrightarrow>
   process_binary (libs\<lparr>from_slice := g\<rparr>) bytes = process_binary libs bytes"
proof -
  have fields: "nfc (libs\<lparr>from_slice := g\<rparr>) = nfc libs" "read_info (libs\<lparr>from_slice := g\<rparr>) = read_info libs"
    "max_image_dim (libs\<lparr>from_slice := g\<rparr>) = max_image_dim libs" "max_jpeg_bytes (libs\<lparr>from_slice := g\<rparr>) = max_jpeg_bytes libs"
    by simp_all
  assume "g (take (unpack_u32 (take 4 bytes)) (drop 4 bytes)) = from_slice libs (take (unpack_u32 (take 4 bytes)) (drop 4 bytes))"
  then show ?thesis unfolding process_binary_def jpeg_error_def fields Let_def by simp
qed

text \<open>A worker whose inferences all run out of time.\<close>

lemma hop_is_transparent_witness:
  "\<exists>libs wlibs to_string r.
     handle_ws libs (wire_worker demo_app wlibs libs to_string) (fresh_uds demo_writer 0)
       [Binary demo_frame True, Binary demo_frame True] = [Text r, Close 1011 ''worker'']"
proof -
  obtain p where p: "process_binary demo_edge demo_frame = Pending p" using demo_pending by blast
  obtain v where v: "frame_error (req_frame_id (ipc_header p)) ''internal'' ''inference timeout'' = Inr v"
    using frame_error_returns [of "''internal''", unfolded returns_iff, OF ERROR_CODES_simps(3)] by blast
  define libs where "libs = demo_edge\<lparr>from_slice := \<lambda>bs. if bs = [7] then Some demo_request_header else Some v\<rparr>"
  define wlibs where "wlibs = (demo_libs True)\<lparr>json_loads := \<lambda>_. Inr (ipc_header p), json_dumps := \<lambda>_. Inr [9]\<rparr>"
  have pl: "process_binary libs demo_frame = Pending p"
    unfolding libs_def p [symmetric]
    by (rule process_binary_cong) (simp add: demo_frame_def unpack_u32_def demo_edge_def)
  have t: "exc_isa TimeoutError Exception" "\<not> exc_isa TimeoutError OutOfMemoryError" "exc_isa TimeoutError TimeoutError"
    by code_simp+
  have late: "fst (worker_link demo_app wlibs wd (ipc_header p) (pf_jpeg p)) = Some v \<and>
    \<not> survives (fst (infer demo_app wlibs wd (ipc_header p) (pf_jpeg p)))" for wd
  proof -
    have "\<exists>wd'. timed_inference demo_app wlibs wd jpeg q m task = (raise TimeoutError [], wd')" for jpeg q m task
      by (simp add: timed_inference_def wlibs_def demo_libs_def Let_def split: prod.splits)
    then obtain wd' where "timed_inference demo_app wlibs wd (pf_jpeg p) (pf_prompt p)
      (JStr (generation_mode (pf_header p))) (JStr (pf_task p)) = (raise TimeoutError [], wd')" by blast
    then have "infer demo_app wlibs wd (ipc_header p) (pf_jpeg p) = (raise TimeoutError [], wd')"
      by (simp add: infer_def pending_check_header [OF p])
    with t v show ?thesis by (simp add: worker_link_def exception_message_def survives_def fatal_def)
  qed
  then have speaks: "speaks demo_app wlibs libs (\<lambda>_. [8]) wd (ipc_header p) (pf_jpeg p)" for wd
    using process_binary_Pending [OF p] late
    by (auto simp: speaks_def wlibs_def libs_def MAX_FRAME_BYTES_def demo_edge_def jpeg_error_None)
  have "healthy demo_writer" by (simp add: healthy_def demo_writer_def)
  moreover have "\<forall>bytes \<in> set (binaries [Binary demo_frame True, Binary demo_frame True]). \<forall>q wd.
      process_binary libs bytes = Pending q \<longrightarrow> speaks demo_app wlibs libs (\<lambda>_. [8]) wd (ipc_header q) (pf_jpeg q)"
    using pl speaks by simp
  ultimately have "handle_ws libs (wire_worker demo_app wlibs libs (\<lambda>_. [8])) (fresh_uds demo_writer 0)
      [Binary demo_frame True, Binary demo_frame True] =
    handle_ws libs (mortal_link demo_app wlibs) (Some 0) [Binary demo_frame True, Binary demo_frame True]"
    by (rule conjunct1 [OF hop_is_transparent])
  also have "\<dots> = [Text (serialize_response (print_f32 libs) (without ''ok'' v)), Close 1011 ''worker'']"
  proof -
    from late [of 0] obtain wd' where "worker_link demo_app wlibs 0 (ipc_header p) (pf_jpeg p) = (Some v, wd')"
      by (cases "worker_link demo_app wlibs 0 (ipc_header p) (pf_jpeg p)") auto
    with pl late [of 0] frame_error_accepted [OF v] show ?thesis by (simp add: mortal_link_def typed_reply_def)
  qed
  finally show ?thesis by blast
qed

end
