(* ===== verification/End_To_End.thy ===== *)
theory End_To_End
  imports Command_Line Ipc_Link
begin

text \<open>
  The whole path of one frame: from the command line of a client through the edge and the worker to what the client's receiver
  logs. It composes the theories Client_Request (the frame), Ws_Edge (the checks and the hop), Worker (the reply) and
  Reference_Client (the receiver).
\<close>

section \<open>Lemmas\<close>

text \<open>What the worker answers to a frame the edge forwarded, seen by the edge: an error, or the result of an inference on that
  frame's payload and prompt; or nothing, when the handler died of something that is no \<open>Exception\<close>.\<close>

lemma forwarded_reply:
  assumes p: "process_binary libs bytes = Pending p" and short: "short_answers (engine app)"
    and print: "shortest_hundredths (print_f32 libs)"
    and w: "worker_link app wlibs wd (ipc_header p) (pf_jpeg p) = (body, wd')"
  obtains (died) e where "body = None" "infer app wlibs wd (ipc_header p) (pf_jpeg p) = (Inl e, wd')"
      "\<not> exc_isa (exc_cls e) Exception"
  | (failed) r where "typed_reply libs body = Some r" "jget r ''type'' = Some (JStr ''error'')"
  | (success) r wd1 res tot wd2 where "typed_reply libs body = Some r"
      "run (engine app) (gen_cfg app) wd1 (pf_jpeg p) (JStr (pf_prompt p)) (JStr (generation_mode (pf_header p)))
         (JStr (pf_task p)) = (Inr res, wd2)"
      "\<forall>k. jget r k = jget (without ''ok'' (reply_body (frame_id (pf_header p)) (JStr (generation_mode (pf_header p))) res tot)) k"
proof -
  note c = pending_check_header [OF p]
  have error: thesis if "frame_error fid code msg = Inr reply" "body = Some reply" for fid code msg reply
  proof -
    from frame_error_accepted [OF that(1)] have a: "infer_accepts reply" "jget reply ''type'' = Some (JStr ''error'')" by simp_all
    with that(2) have t: "typed_reply libs body = Some (serialize_response (print_f32 libs) (without ''ok'' reply))"
      by (simp add: typed_reply_def)
    from failed [OF t] typed_reply_Some [OF t] that(2) a(2) show thesis by auto
  qed
  obtain resp wd1 where i: "infer app wlibs wd (ipc_header p) (pf_jpeg p) = (resp, wd1)" by fastforce
  show thesis
  proof (cases resp)
    case (Inl e)
    show thesis
    proof (cases "exc_isa (exc_cls e) Exception")
      case True
      obtain reply where r: "frame_error (req_frame_id (ipc_header p)) ''internal'' (exception_message e) = Inr reply"
        using frame_error_returns [of "''internal''", unfolded returns_iff, OF ERROR_CODES_simps(3)] by blast
      with w i Inl True have "body = Some reply" by (simp add: worker_link_def)
      from error [OF r this] show thesis .
    qed (use died [of e] w i Inl in \<open>auto simp: worker_link_def\<close>)
  next
    case (Inr reply)
    with w i have b: "body = Some reply" "wd1 = wd'" by (auto simp: worker_link_def)
    from i [unfolded Inr] show thesis
    proof (cases rule: infer_cases)
      case (rejected code msg)
      from error [OF rejected(3) [symmetric] b(1)] show thesis .
    next
      case (failed fid pr md task e)
      then have "frame_error fid ''invalid_image'' (exc_msg e) = Inr reply" by (simp split: if_splits)
      from error [OF this b(1)] show thesis .
    next
      case (deviated fid pr md task r tot)
      from error [OF deviated(4) [symmetric] b(1)] show thesis .
    next
      case (success fid pr md task r tot)
      from infer_accepted [OF i [unfolded Inr] short] b(1)
      have t: "typed_reply libs body = Some (serialize_response (print_f32 libs) (without ''ok'' reply))"
        by (simp add: typed_reply_def)
      from timed_inference_Inr [OF success(2)] obtain wd1 wd2 where
        run: "run (engine app) (gen_cfg app) wd1 (pf_jpeg p) (JStr pr) md task = (Inr r, wd2)" by blast
      from check_header_Inr [OF success(1)] have "GenerationMode md" by blast
      note printed = reply_body_printed [OF run short success(3) this print]
      from c success(1) have eqs: "frame_id (pf_header p) = fid" "JStr (generation_mode (pf_header p)) = md"
        "pf_prompt p = pr" "JStr (pf_task p) = task" by auto
      show thesis
        by (rule that(3) [OF t, of wd1 r wd2 tot]) (use run printed success(4) in \<open>simp_all only: eqs, blast\<close>)
    qed
  qed
qed

text \<open>One frame, end to end, with the worker as a function.\<close>

lemma frame_answered:
  assumes "build_request args = Inr req" and "wire_frame dumps fid req mode jpeg = Inr bytes"
    and "dumps (wire_header fid req mode (length jpeg)) \<noteq> []"
    and "from_slice libs (dumps (wire_header fid req mode (length jpeg))) = Some (wire_header fid req mode (length jpeg))"
    and "mode \<in> {''fast'', ''hybrid'', ''slow''}" and "length jpeg < 2 ^ 64"
    and "fid \<noteq> []" and "length (utf8 fid) \<le> 256" and short: "short_answers (engine app)"
    and print: "shortest_hundredths (print_f32 libs)"
  shows "\<exists>rq s. meant_request args = Some rq \<and>
    handle_ws libs (worker_link app wlibs) wd [Binary bytes True] = [s] \<and>
    (case s of
       Text r \<Rightarrow> is_Response r \<and> jget r ''frame_id'' = Some (JStr fid) \<and> (\<exists>l. receive r = Inr l \<and> l \<noteq> LogUnknown) \<and>
         (jget r ''type'' = Some (JStr ''error'') \<or>
          (\<exists>prompt wire wd1 res tot wd2. compile (nfc libs) rq = Inr (prompt, wire) \<and> py_build rq = Inr prompt \<and>
             run (engine app) (gen_cfg app) wd1 jpeg (JStr prompt) (JStr mode) (JStr wire) = (Inr res, wd2) \<and>
             (\<forall>k. jget r k = jget (without ''ok'' (reply_body fid (JStr mode) res tot)) k)))
     | Close code reason \<Rightarrow> code = 1011 \<and> (\<exists>header e wd'.
         infer app wlibs wd header jpeg = (Inl e, wd') \<and> \<not> exc_isa (exc_cls e) Exception)
     | Ping \<Rightarrow> False)"
proof -
  let ?h = "\<lambda>rq. \<lparr>frame_id = fid, request = rq, generation_mode = mode, jpeg_len = length jpeg\<rparr>"
  from client_frame_verdict [OF assms(1-8)] obtain rq where m: "meant_request args = Some rq"
    and v: "process_binary libs bytes = edge_verdict libs (?h rq) jpeg" by blast
  have said: "is_Response r \<and> jget r ''frame_id'' = Some (JStr fid) \<and> (\<exists>l. receive r = Inr l \<and> l \<noteq> LogUnknown)"
    if "reply_to libs bytes r" for r
    using that receive_Response [of r] v
    by (auto simp: reply_to_def frame_of_def edge_verdict_def split: sum.splits prod.splits option.splits)
  show ?thesis
  proof (cases "process_binary libs bytes")
    case (FatalFraming reason)
    with v show ?thesis by (auto simp: edge_verdict_def split: sum.splits prod.splits option.splits)
  next
    case (PerFrame f code msg)
    have "jget (error_response f code msg) ''type'' = Some (JStr ''error'')" by (simp add: error_response_def)
    with m PerFrame said [OF per_frame_reply [OF PerFrame]] show ?thesis by auto
  next
    case (Pending p)
    with v have p: "pf_header p = ?h rq" "pf_jpeg p = jpeg" "compile (nfc libs) rq = Inr (pf_prompt p, pf_task p)"
      by (auto simp: edge_verdict_def split: sum.splits prod.splits option.splits)
    obtain body wd' where w: "worker_link app wlibs wd (ipc_header p) (pf_jpeg p) = (body, wd')" by fastforce
    note reply = said [OF python.pending_reply [OF Pending w]]
    from Pending short print w show ?thesis
    proof (cases rule: forwarded_reply)
      case (died e)
      with m Pending w p(2) show ?thesis by (auto simp: typed_reply_def)
    next
      case (failed r)
      with m Pending w reply [OF failed(1)] show ?thesis by auto
    next
      case (success r wd1 res tot wd2)
      have "py_build rq = Inr (pf_prompt p)" using compile_python [OF p(3)] by blast
      with success p have "\<exists>prompt wire wd1 res tot wd2. compile (nfc libs) rq = Inr (prompt, wire) \<and> py_build rq = Inr prompt \<and>
          run (engine app) (gen_cfg app) wd1 jpeg (JStr prompt) (JStr mode) (JStr wire) = (Inr res, wd2) \<and>
          (\<forall>k. jget r k = jget (without ''ok'' (reply_body fid (JStr mode) res tot)) k)" by auto
      with m Pending w success(1) reply [OF success(1)] show ?thesis by auto
    qed
  qed
qed

section \<open>Properties\<close>

text \<open>The JSON libraries of the two ends understand each other on a value: it is printed as a text that is not empty and fits the
  length prefix, and parsed back.\<close>

definition json_carried :: "(json \<Rightarrow> byte list) \<Rightarrow> edge_libs \<Rightarrow> json \<Rightarrow> bool" where
  "json_carried dumps libs v \<longleftrightarrow> dumps v \<noteq> [] \<and> length (dumps v) < 2 ^ 32 \<and> from_slice libs (dumps v) = Some v"

text \<open>What a client may make of a text that comes back for its frame: a typed \<open>Response\<close> with its frame id, which the receiver
  logs under its variant, and which is an error or the result of an inference on the client's own JPEG, in its mode, with
  the trained prompt of its request, value by value as the worker computed it.\<close>

definition frame_reply ::
  "edge_libs \<Rightarrow> ('img, 'prof, 'vis, 'inp, 'tok, 'w) worker_app \<Rightarrow> prompt_request \<Rightarrow> string \<Rightarrow> string \<Rightarrow> byte list \<Rightarrow> json \<Rightarrow> bool" where
  "frame_reply libs app rq fid mode jpeg r \<longleftrightarrow>
     is_Response r \<and> jget r ''frame_id'' = Some (JStr fid) \<and> (\<exists>l. receive r = Inr l \<and> l \<noteq> LogUnknown) \<and>
     (jget r ''type'' = Some (JStr ''error'') \<or>
      (\<exists>prompt wire wd1 res tot wd2. compile (nfc libs) rq = Inr (prompt, wire) \<and> py_build rq = Inr prompt \<and>
         run (engine app) (gen_cfg app) wd1 jpeg (JStr prompt) (JStr mode) (JStr wire) = (Inr res, wd2) \<and>
         (\<forall>k. jget r k = jget (without ''ok'' (reply_body fid (JStr mode) res tot)) k)))"

lemma json_carried_frame:
  assumes "json_carried dumps libs (wire_header fid req mode (length jpeg))"
  shows "\<exists>bytes. wire_frame dumps fid req mode jpeg = Inr bytes" and "dumps (wire_header fid req mode (length jpeg)) \<noteq> []"
    and "from_slice libs (dumps (wire_header fid req mode (length jpeg))) = Some (wire_header fid req mode (length jpeg))"
  using assms by (simp_all add: json_carried_def wire_frame_def Let_def)

lemma assemble_request_quits:
  assumes "\<And>m. \<exists>x. quit m = Inl (Exc SystemExit x)" and "assemble_request quit args = Inl e"
  shows "\<exists>m. quit m = Inl e \<and> exc_cls e = SystemExit"
proof -
  have "\<exists>m. quit m = Inl e"
    using assms(2) by (auto simp: assemble_request_def required_slot_def Let_def split: if_splits option.splits)
  with assms(1) show ?thesis by (metis Inl_inject py_exc.sel(1))
qed


definition demo_reference :: reference_args where
  "demo_reference = \<lparr>ra_url = ''ws://h:1/v1/stream'', ra_source = Webcam 0, ra_request = demo_args, ra_mode = ''slow'',
     ra_client_id = ''c'', ra_max_jpeg_bytes = 1000, ra_queue_max = 4, ra_jpeg_quality = 92,
     ra_options = \<lparr>reconnect_delay = 3, max_consecutive_errors = 10, no_reconnect = False\<rparr>, ra_log_level = ''INFO''\<rparr>"

lemma demo_reference_parsed: "parse_args (command_line demo_reference) = Inr demo_reference"
  by (rule parse_command_line) code_simp


section \<open>The smoke test\<close>

text \<open>What \<open>ws.recv()\<close> gives the smoke client for what the server sends; pings are answered by the library.\<close>

fun recv :: "ws_sent list \<Rightarrow> ws_answer" where
  "recv [] = TimedOut"
| "recv (Text r # msgs) = Message r"
| "recv (Close code reason # msgs) = WsClosed"
| "recv (Ping # msgs) = recv msgs"

lemma assemble_request_quit:
  "assemble_request quit args = (case assemble_request (raise SystemExit) args of Inl e \<Rightarrow> quit (exc_msg e) | Inr req \<Rightarrow> Inr req)"
  unfolding assemble_request_def required_slot_def Let_def by (simp split: option.split)

lemma build_request_same: "build_request_smoke args = Inr req \<Longrightarrow> build_request args = Inr req"
  unfolding build_request_smoke_def build_request_def
  by (subst (asm) assemble_request_quit) (simp split: sum.splits)

lemma unknown_mode_refused:
  assumes "wire_frame dumps fid req mode jpeg = Inr bytes"
    and "dumps (wire_header fid req mode (length jpeg)) \<noteq> []"
    and "from_slice libs (dumps (wire_header fid req mode (length jpeg))) = Some (wire_header fid req mode (length jpeg))"
    and "mode \<notin> set MODES"
  shows "process_binary libs bytes = FatalFraming ''header JSON parse failed''"
proof -
  let ?hb = "dumps (wire_header fid req mode (length jpeg))"
  from assms(1) have b: "length ?hb < 2 ^ 32" "bytes = pack_u32 (length ?hb) @ ?hb @ jpeg"
    by (simp_all add: wire_frame_def Let_def split: if_splits)
  have "decode_header (wire_header fid req mode (length jpeg)) = None"
    using assms(4) by (auto simp: decode_header_def MODES_def split: option.split)
  moreover have "take 4 (pack_u32 (length ?hb) @ ?hb @ jpeg) = pack_u32 (length ?hb)"
    "drop 4 (pack_u32 (length ?hb) @ ?hb @ jpeg) = ?hb @ jpeg" by simp_all
  ultimately show ?thesis
    using assms(2,3) b unpack_pack_u32 [OF b(1)] by (simp add: process_binary_def Let_def)
qed

lemma smoke_request_error: "build_request_smoke args = Inl e \<Longrightarrow> e = Exc SystemExit ''2''"
  using assemble_request_quits [of "\<lambda>message. raise SystemExit ''2''" args e] by (auto simp: build_request_smoke_def)

lemma recv_sent: "recv msgs \<noteq> NotSent"
  by (induction msgs rule: recv.induct) simp_all

lemma smoke_run_sends:
  assumes "take 3 jpeg = [0xFF, 0xD8, 0xFF]" and "build_request_smoke args = Inr req"
    and "wire_frame dumps ''smoke-001'' req mode jpeg = Inr bytes"
  shows "smoke_run dumps server t jpeg args mode expect_type =
    bindr (await_reply (wait_for_answer t (server bytes))) (check_reply expect_type)"
proof -
  have "\<not> length jpeg < 3" using arg_cong [OF assms(1), of length] by simp
  then show ?thesis using assms by (simp add: smoke_run_def)
qed

text \<open>The verdict on the one message that comes back for a known mode.\<close>

lemma smoke_answer_verdict:
  assumes "build_request_smoke args = Inr req" and "wire_frame dumps ''smoke-001'' req mode jpeg = Inr bytes"
    and json: "json_carried dumps libs (wire_header ''smoke-001'' req mode (length jpeg))"
    and "mode \<in> set MODES" and "length jpeg < 2 ^ 64"
    and "short_answers (engine app)" and "shortest_hundredths (print_f32 libs)"
    and msgs: "msgs = handle_ws libs (worker_link app wlibs) wd [Binary bytes True]"
  shows "bindr (await_reply (recv msgs)) (check_reply (map_option JStr expect_type)) =
    (case msgs of
       [Text r] \<Rightarrow> (if jget r ''type'' = Some (JStr ''error'') then exit_with 4
         else if expect_type \<noteq> None \<and> jget r ''type'' \<noteq> map_option JStr expect_type then exit_with 15 else Inr ())
     | _ \<Rightarrow> exit_with 10)"
proof -
  have mode: "mode \<in> {''fast'', ''hybrid'', ''slow''}" using assms(4) by (simp add: MODES_def)
  have u: "length (utf8 ''smoke-001'') \<le> 256" "''smoke-001'' \<noteq> []" by (simp_all add: utf8_def utf8_char_def)
  from frame_answered [OF build_request_same [OF assms(1)] assms(2) json_carried_frame(2,3) [OF json] mode assms(5) u(2,1) assms(6,7), of wlibs wd]
  show ?thesis
    unfolding msgs [symmetric]
  proof (elim exE conjE, goal_cases)
    case (1 rq s)
    show ?case
    proof (cases s)
      case (Text r)
      with 1(3) have "is_Response r" "jget r ''frame_id'' = Some (JStr ''smoke-001'')" by simp_all
      from smoke_verdict [OF this, of "map_option JStr expect_type"] show ?thesis by (simp add: 1(2) Text)
    qed (use 1(2,3) in \<open>simp_all add: await_reply_def exit_with_def\<close>)
  qed
qed


definition demo_smoke_argv :: "string list" where
  "demo_smoke_argv = [''--url=u'', ''--image'', ''i'', ''--task'', ''scene_text'', ''--mode=slow'']"

lemma demo_smoke_parsed:
  "smoke_parse_args demo_smoke_argv = Inr \<lparr>so_url = ''u'', so_image = ''i'',
     so_request = \<lparr>task = ''scene_text'', categories = None, phrase = None, text_slot = None, description = None\<rparr>,
     so_mode = ''slow'', so_timeout = FloatArg 120, so_expect_type = None\<rparr>"
  by code_simp


end
