(* ===== verification/Startup.thy ===== *)
theory Startup
  imports Sha256 Inference Prompt_Validator
begin

text \<open>
  \<^verbatim>\<open>worker/validate_startup.py\<close>: the checks before the model is loaded. \<open>fail\<close> prints and calls
  \<open>sys.exit(1)\<close>, so it is the exception \<open>SystemExit\<close>. The environment, the model directory, the answers of
  CUDA, the run of the Rust binary and the JSON decoder are parameters. The entries of a directory are files, unreadable files
  and directories; a link that points nowhere, for which \<open>stat\<close> raises, is not among them.

  The lemmas say exactly when each check passes (\<open>run_all_iff\<close>), what a passed boot guarantees for the requests served
  later, and that the constants of the Rust validator pass the drift check.
\<close>

section \<open>The pins\<close>

definition PINNED_PY_SHA256 :: "(string \<times> string) list" where
  "PINNED_PY_SHA256 = [
     (''configuration_locateanything.py'',
      ''d2738cc180add2b77e88b8cf2bc87ff012f23bd417a99150a033f61b0a8eb857''),
     (''configuration_qwen2.py'',
      ''1fda5efb735cae465debd414afc673389fe731afd95c934a469faa23d3d7fdf1''),
     (''generate_utils.py'',
      ''863187051772549928bf103b58f6176263c9b786fb19ef83fd7b2e76169fa65e''),
     (''image_processing_locateanything.py'',
      ''5109868add766c7e244487ecfff6a6f5a4aa1497b38b385a33a969f12e23b4ec''),
     (''mask_magi_utils.py'',
      ''646b565e38b30d58cafe30aeecf0283aee83d198ce8e57936c3488c1dc7b9276''),
     (''mask_sdpa_utils.py'',
      ''7e9d600eb25283963cc1696da060813066b9795da467cf9fb0ca68bfc8de1e1d''),
     (''modeling_locateanything.py'',
      ''ffe736fb8ded5d597201704ccd85134d18a8e4dea43d309228644737234b7244''),
     (''modeling_qwen2.py'',
      ''aadb676c0a587a16b7071977c159df16299fad22d88ee8ed9754881ab7f59575''),
     (''modeling_vit.py'',
      ''96479eb121c840f009a32830c78740154171290419108caefcf8778580700373''),
     (''processing_locateanything.py'',
      ''682145ed054b1e912e66273b476e51a25b2d666d4a37b26385af9300b66d40d8'')]"

definition PINNED_WEIGHT_SHA256 :: "(string \<times> string) list" where
  "PINNED_WEIGHT_SHA256 = [
     (''model-00001-of-00002.safetensors'',
      ''923cfc10fed19808067da6df85a9a4220ddc1f9eb91ceee94c0fecd05d0f2d58''),
     (''model-00002-of-00002.safetensors'',
      ''3459ba101f40594f3f62d3312014f1f8378b4ba3da3b1d562480045938fc7d47''),
     (''model.safetensors.index.json'',
      ''2ecc63fee5f958ffc8142fa29ff7b704a58e80349e9c9ca155a9710d97700271''),
     (''config.json'',
      ''59e6b5104f9d948db6a38f778e29f86d5c01e373f46d02008fc3070377917007''),
     (''tokenizer_config.json'',
      ''930b057de30312f861a22780017b09eccd87e893d966bd004bf4d70eec0e2652''),
     (''preprocessor_config.json'',
      ''34f0dc33b40ee26d280d7ed93614c90b1d41a68d6ccfe5a8341e274e6169f94e''),
     (''processor_config.json'',
      ''1274db3b9504d37e57ea41ba7de547194d381265c5946f6db8560f851a940992''),
     (''chat_template.json'',
      ''a0cb84f5108587c8a2e944ad7d4b123bb413c34baeef30e3d6d7a3bb486a835d''),
     (''added_tokens.json'',
      ''1a87d2bec4c707c3946235046555d91f9df6986b8dd4a3ac53e6d0b24c36d176''),
     (''generation_config.json'',
      ''f15f5de33244a61325923e99bad2c061029acb8d6dd5c57f8458b3949ddd8f97''),
     (''special_tokens_map.json'',
      ''bfadce2f545458bf9d39fc9153cd2ac1077371ed5ab553fa4988061fefe67ac7''),
     (''vocab.json'',
      ''87a257b04b17642a0688c98cd1df89c398bda4fee532d6f88b38a659ecb4ac8d''),
     (''merges.txt'',
      ''8831e4f1a044471340f7c0a83d7bd71306a5b867e95fd870f74d0c5308a904d5'')]"

definition REQUIRED_FILES :: "string list" where
  "REQUIRED_FILES = [
     ''config.json'',
     ''tokenizer_config.json'',
     ''preprocessor_config.json'',
     ''processor_config.json'',
     ''chat_template.json'',
     ''added_tokens.json'',
     ''modeling_locateanything.py'',
     ''processing_locateanything.py'',
     ''image_processing_locateanything.py'',
     ''modeling_vit.py'',
     ''modeling_qwen2.py'',
     ''generation_config.json'',
     ''generate_utils.py'']"

definition fail :: "string \<Rightarrow> 'a res" where
  "fail msg = raise SystemExit msg"

section \<open>The model directory\<close>

datatype entry = Regular "byte list" | Unreadable nat | Directory nat

fun entry_is_file :: "entry \<Rightarrow> bool" where
  "entry_is_file (Directory n) = False"
| "entry_is_file _ = True"

fun st_size :: "entry \<Rightarrow> nat" where
  "st_size (Regular content) = length content"
| "st_size (Unreadable n) = n"
| "st_size (Directory n) = n"

text \<open>A directory is the list of its entries by name; \<open>None\<close> is a path that is not a directory.\<close>

type_synonym listing = "(string \<times> entry) list"

definition is_file :: "listing \<Rightarrow> string \<Rightarrow> bool" where
  "is_file dir name = (case map_of dir name of None \<Rightarrow> False | Some e \<Rightarrow> entry_is_file e)"

text \<open>The digest of a file of the directory; reading may raise \<open>OSError\<close>.\<close>

definition hash_file :: "(nat \<Rightarrow> nat) \<Rightarrow> listing \<Rightarrow> string \<Rightarrow> string res" where
  "hash_file avail dir name = (case map_of dir name of
     Some (Regular content) \<Rightarrow> ret (sha256_of_file avail content)
   | _ \<Rightarrow> raise OSError ''cannot open file'')"

text \<open>The loop over the pins: the names that are missing, and the files whose content drifted.\<close>

fun check_pins :: "(nat \<Rightarrow> nat) \<Rightarrow> listing \<Rightarrow> (string \<times> string) list \<Rightarrow> (string list \<times> string list) res" where
  "check_pins avail dir [] = ret ([], [])"
| "check_pins avail dir ((fname, expected_sha) # pins) =
     (if \<not> is_file dir fname
      then bindr (check_pins avail dir pins) (\<lambda>(missing, mismatches). ret (fname # missing, mismatches))
      else bindr (hash_file avail dir fname) (\<lambda>actual_sha.
           bindr (check_pins avail dir pins) (\<lambda>(missing, mismatches).
           ret (missing, if actual_sha \<noteq> expected_sha then fname # mismatches else mismatches))))"

definition validate_model_dir :: "(nat \<Rightarrow> nat) \<Rightarrow> listing option \<Rightarrow> unit res" where
  "validate_model_dir avail model_dir = (case model_dir of
     None \<Rightarrow> fail ''model directory does not exist''
   | Some dir \<Rightarrow>
       if filter (\<lambda>f. \<not> is_file dir f) REQUIRED_FILES \<noteq> [] then fail ''missing required files''
       else let safetensors = filter (\<lambda>(name, e). py_endswith name ''.safetensors'') dir in
       if safetensors = [] then fail ''no .safetensors weights present''
       else if filter (\<lambda>(name, e). py_endswith name ''.py'' \<and> name \<notin> fst ` set PINNED_PY_SHA256) dir \<noteq> []
       then fail ''unpinned .py file(s) present''
       else if sum_list (map (\<lambda>(name, e). int (st_size e)) safetensors) < 7 * 1024 * 1024 * 1024
       then fail ''weight files too small''
       else bindr (check_pins avail dir (PINNED_PY_SHA256 @ PINNED_WEIGHT_SHA256)) (\<lambda>(missing, mismatches).
            if missing \<noteq> [] then fail ''required model file(s) missing''
            else if mismatches \<noteq> [] then fail ''model file content has drifted from the pinned SHA-256''
            else ret ()))"

section \<open>The GPU\<close>

record cuda =
  cuda_is_available :: bool
  device_count :: int
  device_capability :: "int \<times> int"
  total_memory :: int
  arch_list :: "string list"

definition validate_gpu :: "cuda \<Rightarrow> unit res" where
  "validate_gpu c =
     (if \<not> cuda_is_available c then fail ''torch.cuda.is_available() == False''
      else if device_count c = 0 then fail ''torch.cuda.device_count() == 0''
      else if fst (device_capability c) < 12 then fail ''compute capability < 12.0''
      else if fl (of_int (total_memory c) / 1000000000) < 24 then fail ''less than 24 GB VRAM''
      else if \<not> (\<exists>a \<in> set (arch_list c). py_contains ''sm_120'' a) then fail ''no sm_120 in the arch list''
      else ret ())"

section \<open>The environment\<close>

definition required_env :: "string list" where
  "required_env = [''LA_MODEL_DTYPE'', ''LA_ATTN_IMPL'', ''LA_GEN_TEMPERATURE'', ''LA_GEN_TOP_P'', ''LA_GEN_DO_SAMPLE'',
     ''LA_GEN_REP_PEN'', ''LA_GEN_MAX_NEW_TOKENS'', ''LA_GEN_N_FUTURE_TOKENS'', ''LA_IPC_SOCKET'']"

definition canonical_env :: "(string \<times> string) list" where
  "canonical_env = [(''LA_GEN_TEMPERATURE'', ''0.7''), (''LA_GEN_TOP_P'', ''0.9''), (''LA_GEN_REP_PEN'', ''1.1''),
     (''LA_GEN_DO_SAMPLE'', ''1''), (''LA_GEN_N_FUTURE_TOKENS'', ''6''), (''LA_GEN_MAX_NEW_TOKENS'', ''8192''),
     (''LA_MODEL_DTYPE'', ''bfloat16''), (''LA_ATTN_IMPL'', ''sdpa'')]"

definition validate_env :: "env \<Rightarrow> unit res" where
  "validate_env env =
     (if filter (\<lambda>k. env k = None \<or> env k = Some []) required_env \<noteq> [] then fail ''missing env vars''
      else bindr (mapr (\<lambda>(k, expected). case env k of
               None \<Rightarrow> raise KeyError k
             | Some got \<Rightarrow> ret (if got \<noteq> expected then [k] else [])) canonical_env) (\<lambda>drift.
           if concat drift \<noteq> [] then fail ''generation-parameter drift detected'' else ret ()))"

section \<open>Equality of decoded JSON\<close>

text \<open>\<open>==\<close> on what \<open>json.loads\<close> returns: numbers compare by value (a bool is 0 or 1), dicts without order.\<close>

fun json_num :: "json \<Rightarrow> rat option" where
  "json_num (JBool b) = Some (if b then 1 else 0)"
| "json_num (JInt i) = Some (of_int i)"
| "json_num (JFloat x) = Some x"
| "json_num _ = None"

function py_eq :: "json \<Rightarrow> json \<Rightarrow> bool" where
  "py_eq (JList xs) j = (case j of
     JList ys \<Rightarrow> length xs = length ys \<and> list_all (\<lambda>(x, y). py_eq x y) (zip xs ys)
   | _ \<Rightarrow> False)"
| "py_eq (JObj kvs) j = (case j of
     JObj kvs' \<Rightarrow> set (map fst kvs) = set (map fst kvs') \<and>
       list_all (\<lambda>(k, v). case map_of kvs' k of None \<Rightarrow> False | Some v' \<Rightarrow> py_eq v v') kvs
   | _ \<Rightarrow> False)"
| "py_eq JNull j = (j = JNull)"
| "py_eq (JStr s) j = (j = JStr s)"
| "py_eq (JBool b) j = (json_num j = Some (if b then 1 else 0))"
| "py_eq (JInt i) j = (json_num j = Some (of_int i))"
| "py_eq (JFloat x) j = (json_num j = Some x)"
  by pat_completeness auto
termination
proof (relation "measure (\<lambda>(x, y). size x)", goal_cases)
  case 1
  show ?case by simp
next
  case (2 xs j ys z x y)
  then have "x \<in> set xs" by (auto dest: set_zip_leftD)
  then show ?case by (simp add: less_Suc_eq_le size_list_estimation')
next
  case (3 kvs j kvs' z k v v')
  then show ?case
    by (auto simp: less_Suc_eq_le intro!: size_list_estimation' [of "(k, v)"])
qed

section \<open>The preprocessor configuration\<close>

text \<open>\<open>key in cfg\<close> and \<open>cfg[key]\<close> on an arbitrary decoded value.\<close>

fun py_in :: "string \<Rightarrow> json \<Rightarrow> bool res" where
  "py_in k (JObj kvs) = ret (k \<in> fst ` set kvs)"
| "py_in k (JList vs) = ret (JStr k \<in> set vs)"
| "py_in k (JStr s) = ret (py_contains k s)"
| "py_in k _ = raise TypeError ''argument is not iterable''"

fun py_item :: "string \<Rightarrow> json \<Rightarrow> json res" where
  "py_item k (JObj kvs) = (case map_of kvs k of None \<Rightarrow> raise KeyError k | Some v \<Rightarrow> ret v)"
| "py_item k _ = raise TypeError ''indices must be integers''"

definition EXPECTED_PREPROCESSOR :: "(string \<times> json) list" where
  "EXPECTED_PREPROCESSOR = [
     (''image_processor_type'', JStr ''LocateAnythingImageProcessor''),
     (''processor_class'', JStr ''LocateAnythingProcessor''),
     (''in_token_limit'', JInt 25600), (''patch_size'', JInt 14), (''merge_kernel_size'', JList [JInt 2, JInt 2]),
     (''image_mean'', JList [JFloat (1 / 2), JFloat (1 / 2), JFloat (1 / 2)]),
     (''image_std'', JList [JFloat (1 / 2), JFloat (1 / 2), JFloat (1 / 2)])]"

definition preprocessor_drift :: "json \<Rightarrow> string list res" where
  "preprocessor_drift cfg = bindr
     (mapr (\<lambda>(key, want). bindr (py_in key cfg) (\<lambda>present.
        if \<not> present then ret [key]
        else bindr (py_item key cfg) (\<lambda>got. ret (if py_eq want got then [] else [key])))) EXPECTED_PREPROCESSOR)
     (\<lambda>drift. ret (concat drift))"

text \<open>\<open>read_text\<close> and \<open>json.loads\<close> are one parameter, \<open>load\<close>, of the content of the file.\<close>

definition validate_preprocessor_config :: "(entry \<Rightarrow> json res) \<Rightarrow> listing \<Rightarrow> unit res" where
  "validate_preprocessor_config load dir =
     (if \<not> is_file dir ''preprocessor_config.json'' then fail ''preprocessor_config.json missing''
      else bindr (catchr (load (the (map_of dir ''preprocessor_config.json''))) [Exception]
                    (\<lambda>e. fail ''preprocessor_config.json could not be parsed'')) (\<lambda>cfg.
           bindr (preprocessor_drift cfg) (\<lambda>drift.
           if drift \<noteq> [] then fail ''preprocessor_config.json drift detected'' else ret ())))"

section \<open>The templates of the Rust binary\<close>

text \<open>The constants of \<^verbatim>\<open>rust_server/src/prompt_validator.rs\<close> and the object it prints.\<close>

definition canonical_templates_json :: json where
  "canonical_templates_json = JObj [
     (''category_separator'', JStr ''</c>''),
     (''detection_prefix'', JStr ''Locate all the instances that matches the following description: ''),
     (''single_phrase_prefix'', JStr ''Locate a single instance that matches the following description: ''),
     (''multi_phrase_prefix'', JStr ''Locate all the instances that match the following description: ''),
     (''text_grounding_prefix'', JStr ''Please locate the text referred as ''),
     (''scene_text_exact'', JStr ''Detect all the text in box format.''),
     (''gui_box_prefix'', JStr ''Locate the region that matches the following description: ''),
     (''point_prefix'', JStr ''Point to: ''),
     (''template_wire_names'', JList (map (JStr o wire_name)
        [KDetection, KPhraseSingle, KPhraseMulti, KTextGrounding, KSceneText, KGuiBox, KPoint]))]"

text \<open>The comparison of the decoded output with \<open>prompts.CANONICAL_TEMPLATES\<close>, and of the keys of
  \<open>EXPECTED_SHAPE\<close> with the wire names.\<close>

definition check_template_drift :: "json \<Rightarrow> unit res" where
  "check_template_drift rust_constants = (case rust_constants of
     JObj rust \<Rightarrow>
       if fst ` set CANONICAL_TEMPLATES \<noteq> fst ` set rust then fail ''key DRIFT between Rust and Python''
       else if filter (\<lambda>(key, py_val). \<not> py_eq py_val (the (map_of rust key))) CANONICAL_TEMPLATES \<noteq> []
       then fail ''prompt template constant DRIFT''
       else if fst ` set EXPECTED_SHAPE \<noteq> set TEMPLATE_WIRE_NAMES then fail ''prompt_task wire-name DRIFT''
       else ret ()
   | _ \<Rightarrow> fail ''Rust drift-check output is not a JSON object'')"

text \<open>The run of the binary: whether it is a file, and its exit status and output, or the exception of
  \<open>subprocess.run\<close>.\<close>

definition validate_prompt_template_drift ::
  "env \<Rightarrow> (string \<Rightarrow> bool) \<Rightarrow> (string \<Rightarrow> (int \<times> byte list) res) \<Rightarrow> (byte list \<Rightarrow> json res) \<Rightarrow> unit res" where
  "validate_prompt_template_drift env exists_file run_binary loads =
     (let binary = (case env ''LA_SERVER_BIN'' of None \<Rightarrow> ''/usr/local/bin/la_server'' | Some b \<Rightarrow> b) in
      if \<not> exists_file binary then fail ''la_server binary not found''
      else bindr (catchr (run_binary binary) [TimeoutExpired, OSError] (\<lambda>e. fail ''failed to run la_server''))
        (\<lambda>(returncode, stdout).
         if returncode \<noteq> 0 then fail ''la_server exited with an error''
         else bindr (catchr (loads stdout) [UnicodeDecodeError, JSONDecodeError]
                       (\<lambda>e. fail ''could not parse the output as JSON''))
                check_template_drift))"

section \<open>run_all\<close>

record boot_world =
  bw_env :: env
  bw_cuda :: cuda
  bw_model_dir :: "string \<Rightarrow> listing option"
  bw_avail :: "nat \<Rightarrow> nat"
  bw_load :: "entry \<Rightarrow> json res"
  bw_exists :: "string \<Rightarrow> bool"
  bw_run :: "string \<Rightarrow> (int \<times> byte list) res"
  bw_loads :: "byte list \<Rightarrow> json res"

definition run_all :: "boot_world \<Rightarrow> string \<Rightarrow> unit res" where
  "run_all w path =
     bindr (validate_env (bw_env w)) (\<lambda>_.
     bindr (validate_gpu (bw_cuda w)) (\<lambda>_.
     bindr (validate_model_dir (bw_avail w) (bw_model_dir w path)) (\<lambda>_.
     bindr (validate_preprocessor_config (bw_load w) (case bw_model_dir w path of None \<Rightarrow> [] | Some dir \<Rightarrow> dir)) (\<lambda>_.
     validate_prompt_template_drift (bw_env w) (bw_exists w) (bw_run w) (bw_loads w)))))"

section \<open>Lemmas\<close>

lemma fail_neq_Inr [simp]: "fail msg \<noteq> Inr x"
  by (simp add: fail_def)

lemma filter_Nil_list_all: "filter (\<lambda>x. \<not> P x) xs = [] \<longleftrightarrow> list_all P xs"
  by (induction xs) auto

lemma is_file_cases:
  "is_file dir name \<longleftrightarrow> (\<exists>content. map_of dir name = Some (Regular content)) \<or> (\<exists>n. map_of dir name = Some (Unreadable n))"
  by (auto simp: is_file_def split: option.splits elim: entry_is_file.elims)

definition pinned :: "listing \<Rightarrow> string \<times> string \<Rightarrow> bool" where
  "pinned dir pin = (case map_of dir (fst pin) of Some (Regular content) \<Rightarrow> sha256_hex content = snd pin | _ \<Rightarrow> False)"

lemma check_pins_ok: "check_pins avail dir pins = Inr ([], []) \<longleftrightarrow> list_all (pinned dir) pins"
proof (induction pins)
  case Nil
  show ?case by simp
next
  case (Cons pin pins)
  obtain name sha where pin: "pin = (name, sha)" by (cases pin) auto
  show ?case
  proof (cases "map_of dir name")
    case None
    then show ?thesis by (simp add: pin is_file_def pinned_def bindr_eq_Inr)
  next
    case (Some e)
    then show ?thesis
      using Cons.IH streamed_hash_is_whole
      by (cases e) (auto simp: pin is_file_def hash_file_def pinned_def bindr_eq_Inr split: if_splits)
  qed
qed

lemma preprocessor_drift_obj:
  "preprocessor_drift cfg = Inr [] \<longleftrightarrow> (\<exists>kvs. cfg = JObj kvs \<and>
     list_all (\<lambda>(key, want). case map_of kvs key of None \<Rightarrow> False | Some got \<Rightarrow> py_eq want got) EXPECTED_PREPROCESSOR)"
proof (cases cfg)
  case (JObj kvs)
  have one: "bindr (py_in key (JObj kvs)) (\<lambda>present. if \<not> present then ret [key]
        else bindr (py_item key (JObj kvs)) (\<lambda>got. ret (if py_eq want got then [] else [key]))) =
      ret (case map_of kvs key of None \<Rightarrow> [key] | Some got \<Rightarrow> if py_eq want got then [] else [key])" for key want
    using map_of_eq_None_iff [of kvs key] by (cases "map_of kvs key") simp_all
  have "preprocessor_drift (JObj kvs) = ret (concat (map (\<lambda>(key, want).
      case map_of kvs key of None \<Rightarrow> [key] | Some got \<Rightarrow> if py_eq want got then [] else [key]) EXPECTED_PREPROCESSOR))"
    unfolding preprocessor_drift_def one
    by (subst mapr_pure [where g = "\<lambda>(key, want). case map_of kvs key of None \<Rightarrow> [key]
      | Some got \<Rightarrow> if py_eq want got then [] else [key]"]) (auto split: prod.splits)
  then show ?thesis
    using JObj by (auto simp: list_all_iff split: option.splits if_splits)
qed (simp_all add: preprocessor_drift_def EXPECTED_PREPROCESSOR_def bindr_eq_Inr)

section \<open>Properties\<close>

text \<open>C21.
  What the check of the model directory accepts: exactly a directory with the required files, some
  weights of at least 7 GiB, no Python file beyond the pinned ones, and every pinned file readable with a
  content whose SHA-256 is the pin. Any other directory stops the boot, and never with a warning only.
\<close>

theorem model_dir_accepted_iff:
  "validate_model_dir avail model_dir = Inr () \<longleftrightarrow> (\<exists>dir. model_dir = Some dir \<and>
     list_all (is_file dir) REQUIRED_FILES \<and>
     list_ex (\<lambda>(name, e). py_endswith name ''.safetensors'') dir \<and>
     \<not> list_ex (\<lambda>(name, e). py_endswith name ''.py'' \<and> name \<notin> fst ` set PINNED_PY_SHA256) dir \<and>
     7 * 2 ^ 30 \<le> sum_list (map (\<lambda>(name, e). int (st_size e)) (filter (\<lambda>(name, e). py_endswith name ''.safetensors'') dir)) \<and>
     list_all (pinned dir) (PINNED_PY_SHA256 @ PINNED_WEIGHT_SHA256))"
proof (cases model_dir)
  case None
  then show ?thesis by (simp add: validate_model_dir_def)
next
  case (Some dir)
  have e: "filter P xs = [] \<longleftrightarrow> \<not> list_ex P xs" for P and xs :: "('x \<times> 'y) list"
    by (induction xs) auto
  define pins where "pins = PINNED_PY_SHA256 @ PINNED_WEIGHT_SHA256"
  have c: "check_pins avail dir pins = Inr ([], []) \<longleftrightarrow> list_all (pinned dir) pins" by (rule check_pins_ok)
  show ?thesis
    unfolding validate_model_dir_def Some option.case filter_Nil_list_all e Let_def pins_def [symmetric]
    using c by (cases "check_pins avail dir pins") (auto split: if_splits)
qed

text \<open>The drift check of the prompt templates is an equality test: the decoded output of the Rust binary passes
  exactly when it equals the dict of \<^verbatim>\<open>worker/prompts.py\<close>, key by key and value by value. The object that
  \<^verbatim>\<open>prompt_validator.rs\<close> prints passes, so the two sources are in lockstep.
\<close>

theorem templates_in_lockstep:
  "(check_template_drift output = Inr () \<longleftrightarrow> py_eq (JObj CANONICAL_TEMPLATES) output) \<and>
   check_template_drift canonical_templates_json = Inr ()"
proof -
  have names: "fst ` set EXPECTED_SHAPE = set TEMPLATE_WIRE_NAMES"
    by (simp add: EXPECTED_SHAPE_def TEMPLATE_WIRE_NAMES_def)
  have iff: "check_template_drift j = Inr () \<longleftrightarrow> py_eq (JObj CANONICAL_TEMPLATES) j" for j
  proof (cases j)
    case (JObj kvs)
    show ?thesis
    proof (cases "fst ` set CANONICAL_TEMPLATES = fst ` set kvs")
      case False
      then show ?thesis by (simp add: JObj check_template_drift_def)
    next
      case True
      have pres: "\<exists>y. map_of kvs k = Some y" if "(k, v) \<in> set CANONICAL_TEMPLATES" for k v
      proof -
        have "k \<in> fst ` set kvs" using that True by force
        then have "map_of kvs k \<noteq> None" by (simp add: map_of_eq_None_iff)
        then show ?thesis by auto
      qed
      have "(case p of (key, py_val) \<Rightarrow> py_eq py_val (the (map_of kvs key))) =
          (case p of (k, v) \<Rightarrow> case map_of kvs k of None \<Rightarrow> False | Some v' \<Rightarrow> py_eq v v')"
        if "p \<in> set CANONICAL_TEMPLATES" for p
        using pres [of "fst p" "snd p"] that by (cases p) auto
      then have "filter (\<lambda>(key, py_val). \<not> py_eq py_val (the (map_of kvs key))) CANONICAL_TEMPLATES = [] \<longleftrightarrow>
          list_all (\<lambda>(k, v). case map_of kvs k of None \<Rightarrow> False | Some v' \<Rightarrow> py_eq v v') CANONICAL_TEMPLATES"
        unfolding filter_empty_conv list_all_iff by (metis (no_types, lifting) case_prod_conv surj_pair)
      with True names show ?thesis by (simp add: JObj check_template_drift_def)
    qed
  qed (simp_all add: check_template_drift_def)
  have "py_eq (JObj CANONICAL_TEMPLATES) canonical_templates_json"
    by (simp add: CANONICAL_TEMPLATES_def canonical_templates_json_def CATEGORY_SEPARATOR_def prefix_defs
        TEMPLATE_WIRE_NAMES_def)
  with iff show ?thesis by blast
qed

definition trained_config :: gen_config where
  "trained_config = \<lparr>temperature = fl (7 / 10), top_p = fl (9 / 10), repetition_penalty = fl (11 / 10), do_sample = True,
     max_new_tokens = 8192, n_future_tokens = 6\<rparr>"

definition trained_env :: env where
  "trained_env = map_of ((''LA_IPC_SOCKET'', ''/tmp/la.sock'') # canonical_env)"

lemma validate_env_canonical:
  assumes "validate_env env = Inr ()" and "(k, v) \<in> set canonical_env"
  shows "env k = Some v"
proof -
  from assms(1) obtain drift where d: "mapr (\<lambda>(k, expected). case env k of
      None \<Rightarrow> raise KeyError k | Some got \<Rightarrow> ret (if got \<noteq> expected then [k] else [])) canonical_env = Inr drift"
    "concat drift = []"
    by (auto simp: validate_env_def bindr_eq_Inr split: if_splits)
  from assms(2) obtain i where i: "i < length canonical_env" "canonical_env ! i = (k, v)" by (metis in_set_conv_nth)
  from mapr_Inr_nth [OF d(1) i(1)] i(2) have "(case env k of None \<Rightarrow> raise KeyError k
      | Some got \<Rightarrow> ret (if got \<noteq> v then [k] else [])) = Inr (drift ! i)" by simp
  moreover have "drift ! i = []" using d(2) i(1) mapr_length [OF d(1)] by (simp add: concat_eq_Nil_conv)
  ultimately show ?thesis by (auto split: option.splits if_splits)
qed

lemma env_trained:
  assumes "validate_env env = Inr ()"
  shows "from_env env = Inr trained_config \<and> require_env env ''LA_ATTN_IMPL'' = Inr ''sdpa'' \<and>
    require_env env ''LA_MODEL_DTYPE'' = Inr ''bfloat16''"
proof -
  have e: "env ''LA_GEN_TEMPERATURE'' = Some ''0.7''" "env ''LA_GEN_TOP_P'' = Some ''0.9''"
    "env ''LA_GEN_REP_PEN'' = Some ''1.1''" "env ''LA_GEN_DO_SAMPLE'' = Some ''1''"
    "env ''LA_GEN_N_FUTURE_TOKENS'' = Some ''6''" "env ''LA_GEN_MAX_NEW_TOKENS'' = Some ''8192''"
    "env ''LA_MODEL_DTYPE'' = Some ''bfloat16''" "env ''LA_ATTN_IMPL'' = Some ''sdpa''"
    by (rule validate_env_canonical [OF assms], simp add: canonical_env_def)+
  have f: "py_float ''0.7'' = Inr (fl (7 / 10))" "py_float ''0.9'' = Inr (fl (9 / 10))" "py_float ''1.1'' = Inr (fl (11 / 10))"
    by code_simp+
  have i: "py_int ''6'' = Inr 6" "py_int ''8192'' = Inr 8192" by code_simp+
  show ?thesis by (simp add: from_env_def require_env_def e f i trained_config_def)
qed

text \<open>A boot whose environment passed runs with the trained parameters: \<open>GenConfig.from_env\<close> returns exactly the
  canonical sampling configuration, whatever else the environment holds.
\<close>

theorem passed_env_gives_trained_config:
  assumes "validate_env env = Inr ()"
  shows "from_env env = Inr trained_config \<and> require_env env ''LA_ATTN_IMPL'' = Inr ''sdpa'' \<and>
    require_env env ''LA_MODEL_DTYPE'' = Inr ''bfloat16''"
  by (rule env_trained [OF assms])

lemma passed_env_gives_trained_config_witness: "from_env trained_env = Inr trained_config"
proof -
  have "validate_env trained_env = Inr ()"
    by (simp add: validate_env_def trained_env_def required_env_def canonical_env_def)
  from passed_env_gives_trained_config [OF this] show ?thesis by blast
qed

text \<open>A boot whose preprocessor configuration passed resizes as the plan of \<^verbatim>\<open>pixel_token_math.py\<close> assumes: the file
  decodes to an object whose token limit, patch size and merge kernel are the constants of the plan.
\<close>

theorem passed_preprocessor_matches_plan:
  assumes "validate_preprocessor_config load dir = Inr ()"
  shows "\<exists>e kvs. map_of dir ''preprocessor_config.json'' = Some e \<and> load e = Inr (JObj kvs) \<and>
    (\<exists>v. map_of kvs ''in_token_limit'' = Some v \<and> json_num v = Some (of_int IN_TOKEN_LIMIT)) \<and>
    (\<exists>v. map_of kvs ''patch_size'' = Some v \<and> json_num v = Some (of_int PATCH_SIZE)) \<and>
    (\<exists>v w. map_of kvs ''merge_kernel_size'' = Some (JList [v, w]) \<and>
       json_num v = Some (of_int MERGE_KERNEL) \<and> json_num w = Some (of_int MERGE_KERNEL))"
proof -
  from assms obtain e where e: "map_of dir ''preprocessor_config.json'' = Some e"
    by (auto simp: validate_preprocessor_config_def is_file_def split: if_splits option.splits)
  from assms obtain cfg where c: "load e = Inr cfg" "preprocessor_drift cfg = Inr []"
    by (auto simp: validate_preprocessor_config_def e bindr_eq_Inr catchr_eq_Inr split: if_splits)
  from c(2) obtain kvs where k: "cfg = JObj kvs" and
    l: "list_all (\<lambda>(key, want). case map_of kvs key of None \<Rightarrow> False | Some got \<Rightarrow> py_eq want got) EXPECTED_PREPROCESSOR"
    unfolding preprocessor_drift_obj by blast
  have v: "\<exists>v. map_of kvs key = Some v \<and> py_eq want v" if "(key, want) \<in> set EXPECTED_PREPROCESSOR" for key want
    using l that by (auto simp: list_all_iff split: option.splits)
  from v [of "''in_token_limit''" "JInt 25600"] v [of "''patch_size''" "JInt 14"]
    v [of "''merge_kernel_size''" "JList [JInt 2, JInt 2]"]
  obtain a b m where abm: "map_of kvs ''in_token_limit'' = Some a" "json_num a = Some 25600"
    "map_of kvs ''patch_size'' = Some b" "json_num b = Some 14"
    "map_of kvs ''merge_kernel_size'' = Some m" "py_eq (JList [JInt 2, JInt 2]) m"
    by (auto simp: EXPECTED_PREPROCESSOR_def)
  from abm(6) obtain x y where "m = JList [x, y]" "json_num x = Some 2" "json_num y = Some 2"
    by (cases m) (auto simp: length_Suc_conv Suc_length_conv numeral_2_eq_2)
  with abm e c(1) k show ?thesis by (simp add: pixel_consts)
qed

lemma passed_preprocessor_matches_plan_witness:
  "\<exists>e kvs. map_of [(''preprocessor_config.json'', Regular [])] ''preprocessor_config.json'' = Some e \<and>
    (\<lambda>_. Inr (JObj EXPECTED_PREPROCESSOR)) e = (Inr (JObj kvs) :: json res) \<and>
    (\<exists>v. map_of kvs ''in_token_limit'' = Some v \<and> json_num v = Some (of_int IN_TOKEN_LIMIT))"
proof -
  have "validate_preprocessor_config (\<lambda>_. Inr (JObj EXPECTED_PREPROCESSOR)) [(''preprocessor_config.json'', Regular [])] = Inr ()"
    by (simp add: validate_preprocessor_config_def is_file_def preprocessor_drift_def EXPECTED_PREPROCESSOR_def)
  from passed_preprocessor_matches_plan [OF this] show ?thesis by blast
qed

section \<open>What a passed preflight means\<close>

text \<open>The conditions of the five checks, stated over the values they look at.\<close>

definition env_in_order :: "env \<Rightarrow> bool" where
  "env_in_order env \<longleftrightarrow> list_all (\<lambda>(k, v). env k = Some v) canonical_env \<and>
     (\<exists>path. env ''LA_IPC_SOCKET'' = Some path \<and> path \<noteq> [])"

definition gpu_in_order :: "cuda \<Rightarrow> bool" where
  "gpu_in_order c \<longleftrightarrow> cuda_is_available c \<and> device_count c \<noteq> 0 \<and> 12 \<le> fst (device_capability c) \<and>
     24 * 10 ^ 9 \<le> total_memory c \<and> list_ex (py_contains ''sm_120'') (arch_list c)"

definition preprocessor_in_order :: "(entry \<Rightarrow> json res) \<Rightarrow> listing \<Rightarrow> bool" where
  "preprocessor_in_order load dir \<longleftrightarrow> (\<exists>e kvs. map_of dir ''preprocessor_config.json'' = Some e \<and> entry_is_file e \<and>
     load e = Inr (JObj kvs) \<and>
     list_all (\<lambda>(key, want). case map_of kvs key of None \<Rightarrow> False | Some got \<Rightarrow> py_eq want got) EXPECTED_PREPROCESSOR)"

definition server_binary :: "env \<Rightarrow> string" where
  "server_binary env = (case env ''LA_SERVER_BIN'' of None \<Rightarrow> ''/usr/local/bin/la_server'' | Some b \<Rightarrow> b)"

definition templates_in_order :: "boot_world \<Rightarrow> bool" where
  "templates_in_order w \<longleftrightarrow> bw_exists w (server_binary (bw_env w)) \<and> (\<exists>stdout output.
     bw_run w (server_binary (bw_env w)) = Inr (0, stdout) \<and> bw_loads w stdout = Inr output \<and>
     py_eq (JObj CANONICAL_TEMPLATES) output)"

lemma validate_env_iff: "validate_env env = Inr () \<longleftrightarrow> env_in_order env"
proof
  assume v: "validate_env env = Inr ()"
  have "filter (\<lambda>k. env k = None \<or> env k = Some []) required_env = []"
    by (rule ccontr) (use v in \<open>simp add: validate_env_def\<close>)
  then have "\<forall>k \<in> set required_env. env k \<noteq> None \<and> env k \<noteq> Some []" unfolding filter_empty_conv de_Morgan_disj .
  then have "env ''LA_IPC_SOCKET'' \<noteq> None \<and> env ''LA_IPC_SOCKET'' \<noteq> Some []"
    by (rule bspec) (simp add: required_env_def)
  with validate_env_canonical [OF v] show "env_in_order env"
    unfolding env_in_order_def list_all_iff by fastforce
next
  assume "env_in_order env"
  then show "validate_env env = Inr ()"
    by (auto simp: env_in_order_def validate_env_def required_env_def canonical_env_def)
qed

text \<open>The comparison of the rounded quotient is one of the bytes: 24 GB are 24 * 10^9 of them.\<close>

lemma vram_rounds: "fl (of_int m / 1000000000) < 24 \<longleftrightarrow> m < 24 * 10 ^ 9"
proof
  assume "m < 24 * 10 ^ 9"
  then have "of_int m / 1000000000 \<le> (23999999999 / 1000000000 :: rat)" by (simp add: divide_right_mono)
  then have "fl (of_int m / 1000000000) \<le> fl (23999999999 / 1000000000)" by (rule fl_mono)
  also have "\<dots> < 24" by code_simp
  finally show "fl (of_int m / 1000000000) < 24" .
next
  assume less: "fl (of_int m / 1000000000) < 24"
  show "m < 24 * 10 ^ 9"
  proof (rule ccontr)
    assume "\<not> m < 24 * 10 ^ 9"
    then have "(24 :: int) * 1000000000 \<le> m" by simp
    then have "of_int (24 * 1000000000) \<le> (of_int m :: rat)" by (rule of_int_le_iff [THEN iffD2])
    then have "(24 :: rat) \<le> of_int m / 1000000000" by simp
    from fl_mono [OF this] fl_of_int [of 24] less show False by simp
  qed
qed

lemma validate_gpu_iff: "validate_gpu c = Inr () \<longleftrightarrow> gpu_in_order c"
  by (auto simp: validate_gpu_def gpu_in_order_def vram_rounds list_ex_iff)

lemma validate_preprocessor_config_iff: "validate_preprocessor_config load dir = Inr () \<longleftrightarrow> preprocessor_in_order load dir"
proof (cases "is_file dir ''preprocessor_config.json''")
  case True
  then obtain e where e: "map_of dir ''preprocessor_config.json'' = Some e" "entry_is_file e"
    by (auto simp: is_file_def split: option.splits)
  show ?thesis
  proof (cases "load e")
    case (Inl x)
    with e True show ?thesis
      by (auto simp: validate_preprocessor_config_def preprocessor_in_order_def bindr_eq_Inr catchr_eq_Inr)
  next
    case (Inr cfg)
    have "validate_preprocessor_config load dir = Inr () \<longleftrightarrow> preprocessor_drift cfg = Inr []"
      using e True Inr by (auto simp: validate_preprocessor_config_def bindr_eq_Inr split: if_splits)
    also have "\<dots> \<longleftrightarrow> preprocessor_in_order load dir"
      using e Inr by (auto simp: preprocessor_drift_obj preprocessor_in_order_def)
    finally show ?thesis .
  qed
next
  case False
  then show ?thesis by (auto simp: validate_preprocessor_config_def preprocessor_in_order_def is_file_def)
qed

lemma validate_prompt_template_drift_iff:
  "validate_prompt_template_drift (bw_env w) (bw_exists w) (bw_run w) (bw_loads w) = Inr () \<longleftrightarrow> templates_in_order w"
proof -
  have "check_template_drift out = Inr () \<longleftrightarrow> py_eq (JObj CANONICAL_TEMPLATES) out" for out
    using templates_in_lockstep by blast
  note this [symmetric, simp]
  show ?thesis
    unfolding validate_prompt_template_drift_def server_binary_def [symmetric] Let_def templates_in_order_def
    by (auto simp: bindr_eq_Inr catchr_eq_Inr simp del: py_eq.simps)
qed

lemma run_all_iff:
  "run_all w path = Inr () \<longleftrightarrow> env_in_order (bw_env w) \<and> gpu_in_order (bw_cuda w) \<and>
     validate_model_dir (bw_avail w) (bw_model_dir w path) = Inr () \<and>
     (\<exists>dir. bw_model_dir w path = Some dir \<and> preprocessor_in_order (bw_load w) dir) \<and> templates_in_order w"
proof -
  have "\<exists>dir. m = Some dir" if "validate_model_dir avail m = Inr ()" for avail m
    using that by (cases m) (simp_all add: validate_model_dir_def)
  then show ?thesis
    by (auto simp: run_all_def bindr_eq_Inr validate_env_iff validate_gpu_iff validate_preprocessor_config_iff
      validate_prompt_template_drift_iff) (metis option.simps(5))+
qed

end
