(* ===== verification/Engine_Boot.thy ===== *)
theory Engine_Boot
  imports Startup
begin

text \<open>
  The boot of the engine in \<^verbatim>\<open>worker/inference.py\<close>: \<open>LocateAnythingInference.__init__\<close>, the override of the vision
  encoder (\<open>_force_vit_flash_attn_2\<close>) and the two run-time patches of the attention code.

  Python's \<open>sys.modules\<close> is a list of modules with the attributes these functions look at; classes live in
  a store, since the modules and the live model share them; a function is its identity, its parameter names
  and its marker. The loaders of \<open>transformers\<close> and the import of \<open>flash_attn\<close> are parameters.

  The lemmas show what each patch changes and what it leaves alone, that a second run changes nothing, and
  what a boot that returned has verified of the loaded model.
\<close>

section \<open>Python objects\<close>

record py_fun =
  fun_id :: nat
  fun_params :: "string list"
  fun_patched :: bool

text \<open>The method \<open>forward\<close> of the attention class: upstream, or wrapped.\<close>

datatype forward = Upstream "string list" | MemEfficient forward

fun forward_params :: "forward \<Rightarrow> string list" where
  "forward_params (Upstream ps) = ps"
| "forward_params (MemEfficient f) = [''self'', ''args'', ''kwargs'']"

record py_class =
  mro_names :: "string list"
  class_forward :: forward
  class_patched :: bool

record py_module =
  mod_name :: string
  Qwen2SdpaAttention :: "nat option"
  sdpa_attention :: "py_fun option"
  VL_VISION_ATTENTION_FUNCTIONS :: "(string \<times> py_fun) list option"
  multihead_attention :: "py_fun option"

section \<open>The patch of the language model\<close>

definition EXPECTED_QWEN2_FORWARD_PARAMS :: "string list" where
  "EXPECTED_QWEN2_FORWARD_PARAMS = [''self'', ''hidden_states'', ''attention_mask'', ''position_ids'',
     ''past_key_value'', ''output_attentions'', ''use_cache'']"

definition qwen_candidates :: "py_module list \<Rightarrow> nat list" where
  "qwen_candidates modules = map (the o Qwen2SdpaAttention)
     (filter (\<lambda>m. py_endswith (mod_name m) ''.modeling_qwen2'' \<and> Qwen2SdpaAttention m \<noteq> None) modules)"

definition check_qwen_class :: "py_class \<Rightarrow> unit res" where
  "check_qwen_class cls =
     (if class_patched cls then ret ()
      else if ''Qwen2Attention'' \<notin> set (mro_names cls) then raise RuntimeError ''Qwen2Attention is not in the MRO''
      else if forward_params (class_forward cls) \<noteq> EXPECTED_QWEN2_FORWARD_PARAMS
      then raise RuntimeError ''Qwen2SdpaAttention.forward signature has drifted''
      else ret ())"

definition patch_class :: "py_class \<Rightarrow> py_class" where
  "patch_class cls = (if class_patched cls then cls
     else cls\<lparr>class_forward := MemEfficient (class_forward cls), class_patched := True\<rparr>)"

definition patch_sdpa_to_mem_efficient ::
  "py_module list \<Rightarrow> (nat \<Rightarrow> py_class) \<Rightarrow> nat \<Rightarrow> (nat \<Rightarrow> py_class) res" where
  "patch_sdpa_to_mem_efficient modules classes live =
     (let candidates = qwen_candidates modules in
      if candidates = [] then raise RuntimeError ''no loaded modeling_qwen2 module''
      else bindr (mapr (\<lambda>c. check_qwen_class (classes c)) candidates) (\<lambda>_.
        let classes' = foldl (\<lambda>cs c. cs(c := patch_class (cs c))) classes candidates
        in if \<not> class_patched (classes' live)
           then raise RuntimeError ''the live attention class is not patched''
           else ret classes'))"

section \<open>The patch of the vision encoder\<close>

definition EXPECTED_VIT_SDPA_PARAMS :: "string list" where
  "EXPECTED_VIT_SDPA_PARAMS = [''q'', ''k'', ''v'', ''q_cu_seqlens'', ''k_cu_seqlens'']"

definition EXPECTED_VIT_DISPATCH_KEYS :: "string set" where
  "EXPECTED_VIT_DISPATCH_KEYS = {''flash_attention_2'', ''sdpa'', ''eager''}"

definition is_vit_module :: "py_module \<Rightarrow> bool" where
  "is_vit_module m \<longleftrightarrow> py_endswith (mod_name m) ''.modeling_vit''"

definition check_vit_module :: "py_module \<Rightarrow> unit res" where
  "check_vit_module m =
     (if fun_patched (the (sdpa_attention m)) then ret ()
      else if fun_params (the (sdpa_attention m)) \<noteq> EXPECTED_VIT_SDPA_PARAMS
      then raise RuntimeError ''modeling_vit.sdpa_attention signature has drifted''
      else (case VL_VISION_ATTENTION_FUNCTIONS m of
          None \<Rightarrow> raise RuntimeError ''no VL_VISION_ATTENTION_FUNCTIONS dict''
        | Some dispatch \<Rightarrow>
            if fst ` set dispatch \<noteq> EXPECTED_VIT_DISPATCH_KEYS
            then raise RuntimeError ''VL_VISION_ATTENTION_FUNCTIONS keys have drifted''
            else ret ()))"

text \<open>\<open>d[k] = v\<close> on a dict: an existing key keeps its place.\<close>

fun dict_set :: "'k \<Rightarrow> 'v \<Rightarrow> ('k \<times> 'v) list \<Rightarrow> ('k \<times> 'v) list" where
  "dict_set k v [] = [(k, v)]"
| "dict_set k v ((k', v') # kvs) = (if k = k' then (k, v) # kvs else (k', v') # dict_set k v kvs)"

definition patch_vit_module :: "py_fun \<Rightarrow> py_module \<Rightarrow> py_module" where
  "patch_vit_module patched m =
     (if fun_patched (the (sdpa_attention m)) then m
      else m\<lparr>sdpa_attention := Some patched,
             VL_VISION_ATTENTION_FUNCTIONS := map_option (dict_set ''sdpa'' patched) (VL_VISION_ATTENTION_FUNCTIONS m)\<rparr>)"

definition verify_vit_module :: "py_module \<Rightarrow> unit res" where
  "verify_vit_module m = (case VL_VISION_ATTENTION_FUNCTIONS m of
     None \<Rightarrow> ret ()
   | Some dispatch \<Rightarrow> (case map_of dispatch ''sdpa'' of
        None \<Rightarrow> raise RuntimeError ''the sdpa entry is not the patched function''
      | Some f \<Rightarrow> if fun_patched f then ret () else raise RuntimeError ''the sdpa entry is not the patched function''))"

definition patch_vit_sdpa_to_mem_efficient :: "nat \<Rightarrow> py_module list \<Rightarrow> py_module list res" where
  "patch_vit_sdpa_to_mem_efficient fresh_id modules =
     (let candidate = (\<lambda>m. is_vit_module m \<and> sdpa_attention m \<noteq> None);
          patched = \<lparr>fun_id = fresh_id, fun_params = [''q'', ''k'', ''v'', ''q_cu_seqlens'', ''k_cu_seqlens''], fun_patched = True\<rparr>
      in if filter candidate modules = [] then raise RuntimeError ''no loaded modeling_vit module''
         else bindr (mapr check_vit_module (filter candidate modules)) (\<lambda>_.
           let modules' = map (\<lambda>m. if candidate m then patch_vit_module patched m else m) modules
           in bindr (mapr verify_vit_module (filter candidate modules')) (\<lambda>_. ret modules')))"

text \<open>The attention mask of the replacement function: the segments of \<open>q_cu_seqlens\<close>, by slice assignment
  on an \<open>n x n\<close> matrix of \<open>False\<close>, then 0 where it is set and minus infinity (\<open>None\<close>) elsewhere.\<close>

definition slice_bound :: "int \<Rightarrow> int \<Rightarrow> int" where
  "slice_bound n i = (if i < 0 then max 0 (i + n) else min i n)"

definition in_slice :: "int \<Rightarrow> int \<Rightarrow> int \<Rightarrow> int \<Rightarrow> bool" where
  "in_slice n s e i \<longleftrightarrow> slice_bound n s \<le> i \<and> i < slice_bound n e"

fun block_mask :: "int \<Rightarrow> int list \<Rightarrow> (int \<Rightarrow> int \<Rightarrow> bool) \<Rightarrow> int \<Rightarrow> int \<Rightarrow> bool" where
  "block_mask n (s # e # cu) m =
     block_mask n (e # cu) (\<lambda>i j. if in_slice n s e i \<and> in_slice n s e j then True else m i j)"
| "block_mask n cu m = m"

definition additive_mask :: "int \<Rightarrow> int list \<Rightarrow> int \<Rightarrow> int \<Rightarrow> rat option" where
  "additive_mask n cu i j = (if block_mask n cu (\<lambda>i j. False) i j then Some 0 else None)"

section \<open>The FlashAttention override\<close>

text \<open>\<open>getattr(obj, name, None)\<close> on a configuration object: its attributes by name, \<open>JNull\<close> for an absent one.\<close>

type_synonym attrs = "(string \<times> json) list"

definition attr :: "attrs \<Rightarrow> string \<Rightarrow> json" where
  "attr obj name = (case map_of obj name of None \<Rightarrow> JNull | Some v \<Rightarrow> v)"

record model_config =
  top_config :: attrs
  text_config :: "attrs option"
  vision_config :: "attrs option"

record boot_libs =
  import_flash_attn :: "json res"
  import_varlen_func :: "unit res"
  import_modeling_vit :: "py_module list \<Rightarrow> py_module list res"

definition EXPECTED_FLASH_ATTN_VERSION :: string where "EXPECTED_FLASH_ATTN_VERSION = ''2.8.3''"

definition check_fa2_module :: "py_module \<Rightarrow> unit res" where
  "check_fa2_module m = (let dispatch = the (VL_VISION_ATTENTION_FUNCTIONS m) in
     if fst ` set dispatch \<noteq> EXPECTED_VIT_DISPATCH_KEYS
     then raise RuntimeError ''VL_VISION_ATTENTION_FUNCTIONS keys have drifted''
     else (case multihead_attention m of
         None \<Rightarrow> raise RuntimeError ''no multihead_attention attribute''
       | Some expected_fn \<Rightarrow>
           if fun_id (the (map_of dispatch ''flash_attention_2'')) \<noteq> fun_id expected_fn
           then raise RuntimeError ''the FA2 slot has been remapped''
           else if fun_params expected_fn \<noteq> [''q'', ''k'', ''v'', ''q_cu_seqlens'', ''k_cu_seqlens'']
           then raise RuntimeError ''multihead_attention signature has drifted''
           else ret ()))"

definition vision_identity :: "(string \<times> json) list" where
  "vision_identity = [(''model_type'', JStr ''moonvit''), (''num_attention_heads'', JInt 16), (''hidden_size'', JInt 1152)]"

definition override_impl :: "attrs \<Rightarrow> attrs res" where
  "override_impl vc =
     (let current_impl = attr vc ''_attn_implementation'' in
      if current_impl = JStr ''flash_attention_2''
      then ret (if \<not> truthy (attr vc ''_la_vit_fa2_forced'')
                then dict_set ''_la_vit_fa2_forced'' (JBool True) vc else vc)
      else if current_impl \<notin> {JNull, JStr ''sdpa''}
      then raise RuntimeError ''vision attn impl was set elsewhere''
      else ret (dict_set ''_la_vit_fa2_forced'' (JBool True)
                 (dict_set ''_attn_implementation'' (JStr ''flash_attention_2'') vc)))"

definition force_vit_flash_attn_2 ::
  "boot_libs \<Rightarrow> py_module list \<Rightarrow> model_config \<Rightarrow> (model_config \<times> py_module list) res" where
  "force_vit_flash_attn_2 libs modules config =
     bindr (catchr (import_flash_attn libs) [ImportError]
              (\<lambda>e. raise RuntimeError ''pre-check (a): import flash_attn'')) (\<lambda>fa_version.
     if fa_version \<noteq> JStr EXPECTED_FLASH_ATTN_VERSION then raise RuntimeError ''pre-check (a): flash_attn version''
     else bindr (catchr (import_varlen_func libs) [ImportError]
              (\<lambda>e. raise RuntimeError ''pre-check (b): import flash_attn_varlen_func'')) (\<lambda>_.
     bindr (catchr (import_modeling_vit libs modules) [Exception]
              (\<lambda>e. raise RuntimeError ''pre-check (c): import modeling_vit'')) (\<lambda>modules.
     let candidates = filter (\<lambda>m. is_vit_module m \<and> VL_VISION_ATTENTION_FUNCTIONS m \<noteq> None) modules in
     if candidates = [] then raise RuntimeError ''pre-check (c): no loaded modeling_vit module''
     else bindr (mapr check_fa2_module candidates) (\<lambda>_.
       case vision_config config of
         None \<Rightarrow> raise RuntimeError ''pre-check (e): no vision_config''
       | Some vc \<Rightarrow>
           if filter (\<lambda>(key, want). \<not> py_eq want (attr vc key)) vision_identity \<noteq> []
           then raise RuntimeError ''pre-check (e): vision_config drift''
           else bindr (override_impl vc) (\<lambda>vc'.
             ret (config\<lparr>vision_config := Some vc'\<rparr>, modules))))))"

section \<open>The constructor\<close>

definition parse_dtype :: "string \<Rightarrow> string res" where
  "parse_dtype s = (let s = py_lower (py_strip s) in
     if s \<in> {''bfloat16'', ''bf16''} then ret ''bfloat16'' else raise RuntimeError ''LA_MODEL_DTYPE unsupported'')"

text \<open>The model that \<open>AutoModel.from_pretrained\<close> returned: what the verification reads of it.\<close>

record loaded_model =
  llm_impl :: json
  vit_config_impl :: json
  vit_blocks :: "json list option"
  loaded_modules :: "py_module list"
  class_store :: "nat \<Rightarrow> py_class"
  live_attention :: nat

definition verify_loaded :: "string \<Rightarrow> model_config \<Rightarrow> loaded_model \<Rightarrow> unit res" where
  "verify_loaded attn_impl config model =
     (if llm_impl model \<noteq> JStr attn_impl then raise RuntimeError ''attn_implementation override did not take effect''
      else if vit_config_impl model \<noteq> JStr ''flash_attention_2''
      then raise RuntimeError ''vision_model.config is not on flash_attention_2''
      else if attr (the (vision_config config)) ''_la_vit_fa2_forced'' \<noteq> JBool True
      then raise RuntimeError ''the FA2 marker is missing''
      else (case vit_blocks model of
          None \<Rightarrow> raise RuntimeError ''vision_model has no encoder''
        | Some blocks \<Rightarrow>
            if filter (\<lambda>impl. impl \<noteq> JStr ''flash_attention_2'') blocks \<noteq> []
            then raise RuntimeError ''an encoder block is not on flash_attention_2''
            else ret ()))"

text \<open>From the loading of the configuration to the end of \<open>__init__\<close>. \<open>load_config\<close> and \<open>load_model\<close> are
  \<open>AutoConfig.from_pretrained\<close> and \<open>AutoModel.from_pretrained\<close>; the result is the model with both patches.\<close>

definition load_engine ::
  "boot_libs \<Rightarrow> model_config res \<Rightarrow> (model_config \<Rightarrow> py_module list \<Rightarrow> loaded_model res) \<Rightarrow> string \<Rightarrow> nat \<Rightarrow>
   py_module list \<Rightarrow> loaded_model res" where
  "load_engine libs load_config load_model attn_impl fresh_id modules =
     bindr load_config (\<lambda>config.
     let config = config\<lparr>top_config := dict_set ''_attn_implementation'' (JStr attn_impl) (top_config config)\<rparr> in
     case text_config config of
       None \<Rightarrow> raise RuntimeError ''config is missing text_config''
     | Some tc \<Rightarrow>
         bindr (force_vit_flash_attn_2 libs modules
             (config\<lparr>text_config := Some (dict_set ''_attn_implementation'' (JStr attn_impl) tc)\<rparr>)) (\<lambda>(config, modules).
         bindr (load_model config modules) (\<lambda>model.
         bindr (verify_loaded attn_impl config model) (\<lambda>_.
         bindr (patch_sdpa_to_mem_efficient (loaded_modules model) (class_store model) (live_attention model)) (\<lambda>classes.
         bindr (patch_vit_sdpa_to_mem_efficient fresh_id (loaded_modules model)) (\<lambda>modules.
         ret (model\<lparr>class_store := classes, loaded_modules := modules\<rparr>)))))))"

definition init_engine ::
  "env \<Rightarrow> cuda \<Rightarrow> string \<Rightarrow> unit res \<Rightarrow> unit res \<Rightarrow> unit res \<Rightarrow> (string \<Rightarrow> loaded_model res) \<Rightarrow>
   (string \<times> string \<times> gen_config \<times> loaded_model) res" where
  "init_engine env c device model_dir_check load_tokenizer load_processor load =
     bindr (bindr (require_env env ''LA_MODEL_DTYPE'') parse_dtype) (\<lambda>dtype.
     bindr (require_env env ''LA_ATTN_IMPL'') (\<lambda>attn_impl.
     bindr (from_env env) (\<lambda>gen_cfg.
     if \<not> cuda_is_available c then raise RuntimeError ''torch.cuda.is_available() == False''
     else if device \<noteq> ''cpu'' \<and>
        (fst (device_capability c) < 12 \<or> fst (device_capability c) = 12 \<and> snd (device_capability c) < 0)
     then raise RuntimeError ''compute capability < sm_120''
     else bindr model_dir_check (\<lambda>_.
          bindr load_tokenizer (\<lambda>_.
          bindr load_processor (\<lambda>_.
          bindr (load attn_impl) (\<lambda>model. ret (dtype, attn_impl, gen_cfg, model))))))))"

section \<open>Lemmas\<close>

lemma map_of_dict_set [simp]: "map_of (dict_set k v kvs) = (map_of kvs)(k \<mapsto> v)"
  by (induction k v kvs rule: dict_set.induct) auto

lemma attr_dict_set [simp]: "attr (dict_set k v obj) k' = (if k' = k then v else attr obj k')"
  by (simp add: attr_def)

lemma patch_class_idem [simp]: "patch_class (patch_class cls) = patch_class cls"
  by (simp add: patch_class_def)

lemma patch_class_patched [simp]: "class_patched (patch_class cls)"
  by (simp add: patch_class_def)

lemma patch_classes:
  "foldl (\<lambda>cs c. cs(c := patch_class (cs c))) classes cands =
   (\<lambda>c. if c \<in> set cands then patch_class (classes c) else classes c)"
  by (induction cands arbitrary: classes) (auto simp: fun_eq_iff)

lemma mapr_unit_Inr: "mapr f xs = Inr ys \<Longrightarrow> x \<in> set xs \<Longrightarrow> f x = Inr ()"
  by (induction xs arbitrary: ys) (auto simp: bindr_eq_Inr)

lemma mapr_unit_ok: "(\<And>x. x \<in> set xs \<Longrightarrow> f x = Inr ()) \<Longrightarrow> \<exists>ys. mapr f xs = Inr ys"
  by (induction xs) auto

lemma in_slice_pos:
  "0 \<le> s \<Longrightarrow> s \<le> n \<Longrightarrow> 0 \<le> e \<Longrightarrow> e \<le> n \<Longrightarrow> in_slice n s e i \<longleftrightarrow> s \<le> i \<and> i < e"
  by (simp add: in_slice_def slice_bound_def)

lemma block_mask_iff:
  assumes "sorted cu" "\<forall>c \<in> set cu. 0 \<le> c \<and> c \<le> n"
  shows "block_mask n cu m i j \<longleftrightarrow> m i j \<or>
    (\<exists>k. Suc k < length cu \<and> cu ! k \<le> i \<and> i < cu ! Suc k \<and> cu ! k \<le> j \<and> j < cu ! Suc k)"
  using assms
proof (induction n cu m rule: block_mask.induct)
  case (1 n s e cu m)
  have IH: "block_mask n (s # e # cu) m i j \<longleftrightarrow> (s \<le> i \<and> i < e \<and> s \<le> j \<and> j < e \<or> m i j) \<or>
    (\<exists>k. Suc k < length (e # cu) \<and> (e # cu) ! k \<le> i \<and> i < (e # cu) ! Suc k \<and> (e # cu) ! k \<le> j \<and> j < (e # cu) ! Suc k)"
    using 1 by (simp add: in_slice_pos) blast
  have "(\<exists>k. Suc k < length (s # e # cu) \<and> P ((s # e # cu) ! k) ((s # e # cu) ! Suc k)) \<longleftrightarrow>
      P s e \<or> (\<exists>k. Suc k < length (e # cu) \<and> P ((e # cu) ! k) ((e # cu) ! Suc k))" for P
    by (auto simp: gr0_conv_Suc nth_Cons split: nat.splits) (metis nat.exhaust)+
  from this [of "\<lambda>a b. a \<le> i \<and> i < b \<and> a \<le> j \<and> j < b"] IH show ?case by auto
qed simp_all

section \<open>A model for the witnesses\<close>

definition demo_fun :: "nat \<Rightarrow> py_fun" where
  "demo_fun i = \<lparr>fun_id = i, fun_params = [''q'', ''k'', ''v'', ''q_cu_seqlens'', ''k_cu_seqlens''], fun_patched = False\<rparr>"

definition demo_modules :: "py_module list" where
  "demo_modules = [
     \<lparr>mod_name = ''x.modeling_qwen2'', Qwen2SdpaAttention = Some 0, sdpa_attention = None,
      VL_VISION_ATTENTION_FUNCTIONS = None, multihead_attention = None\<rparr>,
     \<lparr>mod_name = ''x.modeling_vit'', Qwen2SdpaAttention = None, sdpa_attention = Some (demo_fun 1),
      VL_VISION_ATTENTION_FUNCTIONS = Some [(''flash_attention_2'', demo_fun 2), (''sdpa'', demo_fun 1), (''eager'', demo_fun 3)],
      multihead_attention = Some (demo_fun 2)\<rparr>]"

definition demo_classes :: "nat \<Rightarrow> py_class" where
  "demo_classes c = \<lparr>mro_names = [''Qwen2SdpaAttention'', ''Qwen2Attention''],
     class_forward = Upstream EXPECTED_QWEN2_FORWARD_PARAMS, class_patched = False\<rparr>"

definition demo_config :: model_config where
  "demo_config = \<lparr>top_config = [], text_config = Some [],
     vision_config = Some [(''model_type'', JStr ''moonvit''), (''num_attention_heads'', JInt 16), (''hidden_size'', JInt 1152),
       (''_attn_implementation'', JStr ''sdpa'')]\<rparr>"

definition demo_boot_libs :: boot_libs where
  "demo_boot_libs = \<lparr>import_flash_attn = Inr (JStr ''2.8.3''), import_varlen_func = Inr (), import_modeling_vit = Inr\<rparr>"

definition demo_loader :: "model_config \<Rightarrow> py_module list \<Rightarrow> loaded_model res" where
  "demo_loader config modules = Inr \<lparr>llm_impl = JStr ''sdpa'', vit_config_impl = JStr ''flash_attention_2'',
     vit_blocks = Some [JStr ''flash_attention_2'', JStr ''flash_attention_2''], loaded_modules = modules,
     class_store = demo_classes, live_attention = 0\<rparr>"

lemma demo_patch_sdpa: "\<exists>cs. patch_sdpa_to_mem_efficient demo_modules demo_classes 0 = Inr cs"
  by (simp add: patch_sdpa_to_mem_efficient_def qwen_candidates_def demo_modules_def check_qwen_class_def demo_classes_def
      EXPECTED_QWEN2_FORWARD_PARAMS_def py_endswith_def Let_def)

lemma demo_patch_vit: "\<exists>ms. patch_vit_sdpa_to_mem_efficient 9 demo_modules = Inr ms"
  by (simp add: patch_vit_sdpa_to_mem_efficient_def demo_modules_def is_vit_module_def check_vit_module_def demo_fun_def
      EXPECTED_VIT_SDPA_PARAMS_def EXPECTED_VIT_DISPATCH_KEYS_def patch_vit_module_def verify_vit_module_def
      py_endswith_def Let_def insert_commute)

lemma demo_force: "\<exists>config. force_vit_flash_attn_2 demo_boot_libs demo_modules demo_config = Inr (config, demo_modules)"
  by (simp add: force_vit_flash_attn_2_def demo_boot_libs_def demo_modules_def demo_config_def is_vit_module_def
      check_fa2_module_def demo_fun_def EXPECTED_FLASH_ATTN_VERSION_def EXPECTED_VIT_DISPATCH_KEYS_def
      vision_identity_def override_impl_def attr_def py_endswith_def Let_def insert_commute)

lemma llm_rel:
  assumes "patch_sdpa_to_mem_efficient modules classes live = Inr classes'"
  shows "class_patched (classes' live) \<and>
    (\<forall>c. classes' c = (if c \<in> set (qwen_candidates modules) \<and> \<not> class_patched (classes c)
       then (classes c)\<lparr>class_forward := MemEfficient (Upstream EXPECTED_QWEN2_FORWARD_PARAMS), class_patched := True\<rparr>
       else classes c)) \<and>
    patch_sdpa_to_mem_efficient modules classes' live = Inr classes'"
proof -
  let ?cands = "qwen_candidates modules"
  from assms obtain us where ne: "?cands \<noteq> []" and us: "mapr (\<lambda>c. check_qwen_class (classes c)) ?cands = Inr us"
    and cl: "classes' = (\<lambda>c. if c \<in> set ?cands then patch_class (classes c) else classes c)"
    and live: "class_patched (classes' live)"
    by (auto simp: patch_sdpa_to_mem_efficient_def Let_def bindr_eq_Inr patch_classes split: if_splits)
  have up: "class_forward (classes c) = Upstream EXPECTED_QWEN2_FORWARD_PARAMS"
    if "c \<in> set ?cands" "\<not> class_patched (classes c)" for c
  proof -
    have "check_qwen_class (classes c) = Inr ()" using mapr_unit_Inr [OF us that(1)] .
    then have "forward_params (class_forward (classes c)) = EXPECTED_QWEN2_FORWARD_PARAMS"
      using that(2) by (simp add: check_qwen_class_def split: if_splits)
    then show ?thesis by (cases "class_forward (classes c)") (simp_all add: EXPECTED_QWEN2_FORWARD_PARAMS_def)
  qed
  have each: "classes' c = (if c \<in> set ?cands \<and> \<not> class_patched (classes c)
       then (classes c)\<lparr>class_forward := MemEfficient (Upstream EXPECTED_QWEN2_FORWARD_PARAMS), class_patched := True\<rparr>
       else classes c)" for c
    using up [of c] by (simp add: cl patch_class_def)
  have "check_qwen_class (classes' c) = Inr ()" if "c \<in> set ?cands" for c
    using that by (simp add: cl check_qwen_class_def)
  then obtain vs where vs: "mapr (\<lambda>c. check_qwen_class (classes' c)) ?cands = Inr vs" using mapr_unit_ok by metis
  have same: "(\<lambda>c. if c \<in> set ?cands then patch_class (classes' c) else classes' c) = classes'"
    by (auto simp: cl fun_eq_iff)
  have "patch_sdpa_to_mem_efficient modules classes' live = Inr classes'"
    using ne vs live by (simp add: patch_sdpa_to_mem_efficient_def Let_def patch_classes same)
  with live each show ?thesis by blast
qed

lemma vit_patch_facts:
  assumes "patch_vit_sdpa_to_mem_efficient fresh modules = Inr modules'"
  shows "list_all2 (\<lambda>m m'. mod_name m' = mod_name m \<and> multihead_attention m' = multihead_attention m \<and>
      Qwen2SdpaAttention m' = Qwen2SdpaAttention m \<and>
      (\<not> (is_vit_module m \<and> sdpa_attention m \<noteq> None) \<longrightarrow> m' = m) \<and>
      (is_vit_module m \<and> sdpa_attention m \<noteq> None \<longrightarrow> fun_patched (the (sdpa_attention m'))) \<and>
      (\<forall>d' k. VL_VISION_ATTENTION_FUNCTIONS m' = Some d' \<and> k \<noteq> ''sdpa'' \<longrightarrow>
         map_of d' k = map_of (the (VL_VISION_ATTENTION_FUNCTIONS m)) k) \<and>
      (\<forall>d'. (is_vit_module m \<and> sdpa_attention m \<noteq> None) \<and> VL_VISION_ATTENTION_FUNCTIONS m' = Some d' \<longrightarrow>
         (\<exists>f. map_of d' ''sdpa'' = Some f \<and> fun_patched f))) modules modules' \<and>
    patch_vit_sdpa_to_mem_efficient other modules' = Inr modules'"
proof -
  define cand where "cand = (\<lambda>m. is_vit_module m \<and> sdpa_attention m \<noteq> None)"
  define pf :: py_fun where "pf = \<lparr>fun_id = fresh, fun_params = [''q'', ''k'', ''v'', ''q_cu_seqlens'', ''k_cu_seqlens''], fun_patched = True\<rparr>"
  define step where "step = (\<lambda>m. if cand m then patch_vit_module pf m else m)"
  have cd: "(is_vit_module m \<and> sdpa_attention m \<noteq> None) = cand m" for m by (simp add: cand_def)
  have sd: "(if cand m then patch_vit_module pf m else m) = step m" for m by (simp add: step_def)
  from assms have "(if filter cand modules = [] then raise RuntimeError ''no loaded modeling_vit module''
      else bindr (mapr check_vit_module (filter cand modules)) (\<lambda>_.
        bindr (mapr verify_vit_module (filter cand (map step modules))) (\<lambda>_. ret (map step modules)))) = Inr modules'"
    unfolding patch_vit_sdpa_to_mem_efficient_def Let_def pf_def [symmetric] cd sd .
  then obtain us vs where ne: "filter cand modules \<noteq> []"
    and m': "modules' = map step modules"
    and vs: "mapr verify_vit_module (filter cand modules') = Inr vs"
    by (auto simp: bindr_eq_Inr split: if_splits)
  have cs: "cand (step m) = cand m" for m
    by (simp add: step_def cand_def patch_vit_module_def is_vit_module_def)
  have pt: "fun_patched (the (sdpa_attention (step m)))" if "cand m" for m
    using that by (simp add: step_def patch_vit_module_def pf_def)
  have ver: "verify_vit_module (step m) = Inr ()" if "m \<in> set modules" "cand m" for m
    using mapr_unit_Inr [OF vs, of "step m"] that by (simp add: m' cs)
  have entry: "\<exists>f. map_of d' ''sdpa'' = Some f \<and> fun_patched f"
    if "m \<in> set modules" "cand m" "VL_VISION_ATTENTION_FUNCTIONS (step m) = Some d'" for m d'
    using ver [OF that(1,2)] that(3) by (auto simp: verify_vit_module_def split: option.splits if_splits)
  have keep: "map_of d' k = map_of (the (VL_VISION_ATTENTION_FUNCTIONS m)) k"
    if "VL_VISION_ATTENTION_FUNCTIONS (step m) = Some d'" "k \<noteq> ''sdpa''" for m d' k
    using that by (auto simp: step_def patch_vit_module_def split: if_splits)
  have frame: "mod_name (step m) = mod_name m \<and> multihead_attention (step m) = multihead_attention m \<and>
      Qwen2SdpaAttention (step m) = Qwen2SdpaAttention m \<and> (\<not> cand m \<longrightarrow> step m = m)" for m
    by (simp add: step_def patch_vit_module_def)
  have first: "list_all2 (\<lambda>m m'. mod_name m' = mod_name m \<and> multihead_attention m' = multihead_attention m \<and>
      Qwen2SdpaAttention m' = Qwen2SdpaAttention m \<and> (\<not> cand m \<longrightarrow> m' = m) \<and>
      (cand m \<longrightarrow> fun_patched (the (sdpa_attention m'))) \<and>
      (\<forall>d' k. VL_VISION_ATTENTION_FUNCTIONS m' = Some d' \<and> k \<noteq> ''sdpa'' \<longrightarrow>
         map_of d' k = map_of (the (VL_VISION_ATTENTION_FUNCTIONS m)) k) \<and>
      (\<forall>d'. cand m \<and> VL_VISION_ATTENTION_FUNCTIONS m' = Some d' \<longrightarrow>
         (\<exists>f. map_of d' ''sdpa'' = Some f \<and> fun_patched f))) modules modules'"
    unfolding m' list_all2_map2 list_all2_same using frame pt keep entry by blast
  have ne': "filter cand modules' \<noteq> []" using ne cs by (auto simp: m' filter_empty_conv)
  have marked: "fun_patched (the (sdpa_attention m))" if "m \<in> set modules'" "cand m" for m
    using that pt cs by (auto simp: m')
  then obtain ws where ws: "mapr check_vit_module (filter cand modules') = Inr ws"
    using mapr_unit_ok [of "filter cand modules'" check_vit_module] by (auto simp: check_vit_module_def)
  have again: "map (\<lambda>m. if cand m then patch_vit_module g m else m) modules' = modules'" for g
    by (rule map_idI) (simp add: patch_vit_module_def marked)
  have "patch_vit_sdpa_to_mem_efficient other modules' = Inr modules'"
    unfolding patch_vit_sdpa_to_mem_efficient_def Let_def cd again
    using ne' ws vs by simp
  with first show ?thesis unfolding cand_def by blast
qed

lemmas vit_rel = vit_patch_facts [THEN conjunct1]
lemmas vit_again = vit_patch_facts [THEN conjunct2]

lemma segment_of:
  fixes cu :: "int list"
  assumes "sorted cu" "cu \<noteq> []" "hd cu = 0" "last cu = n" "0 \<le> i" "i < n"
  shows "\<exists>k. Suc k < length cu \<and> cu ! k \<le> i \<and> i < cu ! Suc k"
proof -
  define P where "P = (\<lambda>k. k < length cu \<and> i < cu ! k)"
  have P: "P (length cu - 1)" using assms(2,4,6) by (simp add: P_def last_conv_nth)
  define k where "k = (LEAST k. P k)"
  have k: "P k" unfolding k_def by (rule LeastI [of P, OF P])
  have "k \<noteq> 0" using k assms(2,3,5) by (auto simp: P_def hd_conv_nth intro: Nat.gr0I)
  then obtain k' where k': "k = Suc k'" by (cases k) auto
  have "\<not> P k'" using not_less_Least [of k' P] k' by (simp add: k_def)
  with k k' show ?thesis by (auto simp: P_def)
qed

lemma demo_load: "\<exists>model. load_engine demo_boot_libs (Inr demo_config) demo_loader ''sdpa'' 9 demo_modules = Inr model"
proof -
  define cfg where "cfg = demo_config\<lparr>top_config := dict_set ''_attn_implementation'' (JStr ''sdpa'') (top_config demo_config),
    text_config := Some (dict_set ''_attn_implementation'' (JStr ''sdpa'') [])\<rparr>"
  obtain config where f: "force_vit_flash_attn_2 demo_boot_libs demo_modules cfg = Inr (config, demo_modules)"
    and vc: "attr (the (vision_config config)) ''_la_vit_fa2_forced'' = JBool True"
    by (simp add: cfg_def force_vit_flash_attn_2_def demo_boot_libs_def demo_modules_def demo_config_def is_vit_module_def
      check_fa2_module_def demo_fun_def EXPECTED_FLASH_ATTN_VERSION_def EXPECTED_VIT_DISPATCH_KEYS_def
      vision_identity_def override_impl_def attr_def py_endswith_def Let_def insert_commute)
  obtain cs where cs: "patch_sdpa_to_mem_efficient demo_modules demo_classes 0 = Inr cs" using demo_patch_sdpa by blast
  obtain ms where ms: "patch_vit_sdpa_to_mem_efficient 9 demo_modules = Inr ms" using demo_patch_vit by blast
  have tc: "text_config demo_config = Some []" by (simp add: demo_config_def)
  show ?thesis
    unfolding load_engine_def
    by (simp add: tc Let_def f [unfolded cfg_def, simplified] demo_loader_def verify_loaded_def vc cs ms)
qed

section \<open>Properties\<close>

text \<open>The patch of the language model: when it returns, the class of the live attention module is patched; every
  candidate class that was not yet patched had the expected forward and now has it wrapped exactly once;
  classes already patched, and all others, are untouched; and running the patch again changes nothing.
\<close>

theorem llm_patch_wraps_once:
  assumes "patch_sdpa_to_mem_efficient modules classes live = Inr classes'"
  shows "class_patched (classes' live) \<and>
    (\<forall>c. classes' c = (if c \<in> set (qwen_candidates modules) \<and> \<not> class_patched (classes c)
       then (classes c)\<lparr>class_forward := MemEfficient (Upstream EXPECTED_QWEN2_FORWARD_PARAMS), class_patched := True\<rparr>
       else classes c)) \<and>
    patch_sdpa_to_mem_efficient modules classes' live = Inr classes'"
  by (rule llm_rel [OF assms])

lemma llm_patch_wraps_once_witness:
  "\<exists>cs. patch_sdpa_to_mem_efficient demo_modules demo_classes 0 = Inr cs \<and> class_patched (cs 0) \<and>
     patch_sdpa_to_mem_efficient demo_modules cs 0 = Inr cs"
proof -
  obtain cs where cs: "patch_sdpa_to_mem_efficient demo_modules demo_classes 0 = Inr cs" using demo_patch_sdpa by blast
  from llm_patch_wraps_once [OF cs] cs show ?thesis by blast
qed

text \<open>The patch of the vision encoder: when it returns, every module keeps its name, its FlashAttention function and
  every entry of its dispatch table but \<open>sdpa\<close>; each loaded \<open>modeling_vit\<close> routes \<open>sdpa\<close> to a patched function;
  and running the patch again changes nothing.
\<close>

theorem vit_patch_only_reroutes_sdpa:
  assumes "patch_vit_sdpa_to_mem_efficient fresh modules = Inr modules'"
  shows "list_all2 (\<lambda>m m'. mod_name m' = mod_name m \<and> multihead_attention m' = multihead_attention m \<and>
      Qwen2SdpaAttention m' = Qwen2SdpaAttention m \<and>
      (\<not> (is_vit_module m \<and> sdpa_attention m \<noteq> None) \<longrightarrow> m' = m) \<and>
      (is_vit_module m \<and> sdpa_attention m \<noteq> None \<longrightarrow> fun_patched (the (sdpa_attention m'))) \<and>
      (\<forall>d' k. VL_VISION_ATTENTION_FUNCTIONS m' = Some d' \<and> k \<noteq> ''sdpa'' \<longrightarrow>
         map_of d' k = map_of (the (VL_VISION_ATTENTION_FUNCTIONS m)) k) \<and>
      (\<forall>d'. (is_vit_module m \<and> sdpa_attention m \<noteq> None) \<and> VL_VISION_ATTENTION_FUNCTIONS m' = Some d' \<longrightarrow>
         (\<exists>f. map_of d' ''sdpa'' = Some f \<and> fun_patched f))) modules modules' \<and>
    patch_vit_sdpa_to_mem_efficient other modules' = Inr modules'"
  by (rule vit_patch_facts [OF assms])

lemma vit_patch_only_reroutes_sdpa_witness:
  "\<exists>ms. patch_vit_sdpa_to_mem_efficient 9 demo_modules = Inr ms \<and> patch_vit_sdpa_to_mem_efficient 10 ms = Inr ms"
proof -
  obtain ms where ms: "patch_vit_sdpa_to_mem_efficient 9 demo_modules = Inr ms" using demo_patch_vit by blast
  from vit_patch_only_reroutes_sdpa [OF ms, of 10] ms show ?thesis by blast
qed

lemma override_impl_Inr:
  assumes "override_impl vc = Inr vc'"
  shows "attr vc ''_attn_implementation'' \<in> {JNull, JStr ''sdpa'', JStr ''flash_attention_2''} \<and>
    attr vc' ''_attn_implementation'' = JStr ''flash_attention_2'' \<and> truthy (attr vc' ''_la_vit_fa2_forced'') \<and>
    (\<forall>k. k \<notin> {''_attn_implementation'', ''_la_vit_fa2_forced''} \<longrightarrow> attr vc' k = attr vc k) \<and>
    override_impl vc' = Inr vc'"
  using assms by (auto simp: override_impl_def Let_def split: if_splits)

text \<open>The FlashAttention override: when it returns, the installed \<open>flash_attn\<close> is the pinned version, the vision
  encoder has the tested shape, its attention implementation was unset, cascaded to \<open>sdpa\<close> or already right and
  now is \<open>flash_attention_2\<close>, marked as forced; no other attribute of the three configurations changed, and
  overriding again changes nothing.
\<close>

theorem fa2_override_is_minimal:
  assumes "force_vit_flash_attn_2 libs modules config = Inr (config', modules')"
  shows "import_flash_attn libs = Inr (JStr ''2.8.3'') \<and> (\<exists>vc vc'. vision_config config = Some vc \<and>
    config' = config\<lparr>vision_config := Some vc'\<rparr> \<and>
    py_eq (JStr ''moonvit'') (attr vc ''model_type'') \<and> py_eq (JInt 16) (attr vc ''num_attention_heads'') \<and>
    py_eq (JInt 1152) (attr vc ''hidden_size'') \<and>
    attr vc ''_attn_implementation'' \<in> {JNull, JStr ''sdpa'', JStr ''flash_attention_2''} \<and>
    attr vc' ''_attn_implementation'' = JStr ''flash_attention_2'' \<and> truthy (attr vc' ''_la_vit_fa2_forced'') \<and>
    (\<forall>k. k \<notin> {''_attn_implementation'', ''_la_vit_fa2_forced''} \<longrightarrow> attr vc' k = attr vc k) \<and>
    override_impl vc' = Inr vc')"
proof -
  from assms obtain vc vc' where v: "vision_config config = Some vc" "config' = config\<lparr>vision_config := Some vc'\<rparr>"
    "override_impl vc = Inr vc'" "filter (\<lambda>(key, want). \<not> py_eq want (attr vc key)) vision_identity = []"
    and fa: "catchr (import_flash_attn libs) [ImportError] (\<lambda>e. raise RuntimeError ''pre-check (a): import flash_attn'') =
      Inr (JStr EXPECTED_FLASH_ATTN_VERSION)"
    unfolding force_vit_flash_attn_2_def
    by (auto simp: bindr_eq_Inr Let_def split: if_splits option.splits)
  have "import_flash_attn libs = Inr (JStr ''2.8.3'')"
    using fa by (simp add: catchr_eq_Inr EXPECTED_FLASH_ATTN_VERSION_def)
  moreover from v(4) have "py_eq (JStr ''moonvit'') (attr vc ''model_type'')" "py_eq (JInt 16) (attr vc ''num_attention_heads'')"
    "py_eq (JInt 1152) (attr vc ''hidden_size'')"
    by (auto simp: vision_identity_def split: if_splits)
  ultimately show ?thesis using v(1,2) override_impl_Inr [OF v(3)] by blast
qed

lemma fa2_override_is_minimal_witness:
  "\<exists>config. force_vit_flash_attn_2 demo_boot_libs demo_modules demo_config = Inr (config, demo_modules) \<and>
     (\<exists>vc'. config = demo_config\<lparr>vision_config := Some vc'\<rparr> \<and> attr vc' ''_attn_implementation'' = JStr ''flash_attention_2'')"
proof -
  obtain config where c: "force_vit_flash_attn_2 demo_boot_libs demo_modules demo_config = Inr (config, demo_modules)"
    using demo_force by blast
  from fa2_override_is_minimal [OF c] c show ?thesis by blast
qed

lemma load_engine_verified:
  assumes "load_engine libs load_config load_model attn_impl fresh modules = Inr model"
  shows "llm_impl model = JStr attn_impl \<and> class_patched (class_store model (live_attention model)) \<and>
    vit_config_impl model = JStr ''flash_attention_2'' \<and>
    (\<exists>blocks. vit_blocks model = Some blocks \<and> set blocks \<subseteq> {JStr ''flash_attention_2''}) \<and>
    patch_sdpa_to_mem_efficient (loaded_modules model) (class_store model) (live_attention model) = Inr (class_store model) \<and>
    patch_vit_sdpa_to_mem_efficient fresh (loaded_modules model) = Inr (loaded_modules model)"
proof -
  from assms obtain config m classes ms where v: "verify_loaded attn_impl config m = Inr ()"
    and ps: "patch_sdpa_to_mem_efficient (loaded_modules m) (class_store m) (live_attention m) = Inr classes"
    and pv: "patch_vit_sdpa_to_mem_efficient fresh (loaded_modules m) = Inr ms"
    and model: "model = m\<lparr>class_store := classes, loaded_modules := ms\<rparr>"
    unfolding load_engine_def by (auto simp: bindr_eq_Inr Let_def split: option.splits)
  have pv_rel: "list_all2 (\<lambda>m m'. mod_name m' = mod_name m \<and> Qwen2SdpaAttention m' = Qwen2SdpaAttention m) (loaded_modules m) ms"
    by (rule list_all2_mono [OF vit_rel [OF pv]]) simp
  have q: "qwen_candidates ms = qwen_candidates (loaded_modules m)"
    using pv_rel by (induction rule: list_all2_induct) (auto simp: qwen_candidates_def)
  have "patch_sdpa_to_mem_efficient ms classes (live_attention m) = Inr classes"
    using llm_rel [OF ps] unfolding patch_sdpa_to_mem_efficient_def q by simp
  moreover have "class_patched (classes (live_attention m))" by (rule llm_rel [OF ps, THEN conjunct1])
  moreover have "patch_vit_sdpa_to_mem_efficient fresh ms = Inr ms" using vit_again [OF pv] .
  ultimately show ?thesis
    using v model by (auto simp: verify_loaded_def filter_empty_conv split: if_splits option.splits)
qed

text \<open>C29.
  A booted engine is the verified one: when the loading returned, the language model runs on the requested attention
  implementation and its live attention class is patched, every block of the vision encoder reports
  \<open>flash_attention_2\<close>, and every loaded \<open>modeling_vit\<close> routes \<open>sdpa\<close> to the memory-efficient replacement.
\<close>

theorem booted_engine_is_verified:
  assumes "load_engine libs load_config load_model attn_impl fresh modules = Inr model"
  shows "llm_impl model = JStr attn_impl \<and> class_patched (class_store model (live_attention model)) \<and>
    vit_config_impl model = JStr ''flash_attention_2'' \<and>
    (\<exists>blocks. vit_blocks model = Some blocks \<and> set blocks \<subseteq> {JStr ''flash_attention_2''}) \<and>
    patch_sdpa_to_mem_efficient (loaded_modules model) (class_store model) (live_attention model) = Inr (class_store model) \<and>
    patch_vit_sdpa_to_mem_efficient fresh (loaded_modules model) = Inr (loaded_modules model)"
  by (rule load_engine_verified [OF assms])

lemma booted_engine_is_verified_witness:
  "\<exists>model. load_engine demo_boot_libs (Inr demo_config) demo_loader ''sdpa'' 9 demo_modules = Inr model \<and>
     class_patched (class_store model (live_attention model)) \<and>
     (\<exists>blocks. vit_blocks model = Some blocks \<and> set blocks \<subseteq> {JStr ''flash_attention_2''})"
proof -
  obtain model where m: "load_engine demo_boot_libs (Inr demo_config) demo_loader ''sdpa'' 9 demo_modules = Inr model"
    using demo_load by blast
  from booted_engine_is_verified [OF m] m show ?thesis by blast
qed

text \<open>C39.
  The attention mask of the vision patch is block diagonal: for segment boundaries that start at 0, ascend and end at
  the sequence length, position \<open>i\<close> may attend to \<open>j\<close> exactly when one segment holds both; so every position
  attends to itself, and attention is symmetric and never crosses an image.
\<close>

theorem vit_mask_is_block_diagonal:
  assumes "sorted cu" and "cu \<noteq> []" and "hd cu = 0" and "last cu = n" and "0 \<le> i" and "i < n"
  shows "(additive_mask n cu i j = Some 0 \<longleftrightarrow>
      (\<exists>k. Suc k < length cu \<and> cu ! k \<le> i \<and> i < cu ! Suc k \<and> cu ! k \<le> j \<and> j < cu ! Suc k)) \<and>
    additive_mask n cu i i = Some 0 \<and> additive_mask n cu i j = additive_mask n cu j i"
proof -
  have rng: "\<forall>c \<in> set cu. 0 \<le> c \<and> c \<le> n"
  proof
    fix c assume "c \<in> set cu"
    then obtain p where p: "p < length cu" "cu ! p = c" by (auto simp: in_set_conv_nth)
    have "cu ! 0 \<le> cu ! p" "cu ! p \<le> cu ! (length cu - 1)" 
      by (rule sorted_nth_mono [OF assms(1)]; use p(1) in simp)+
    then show "0 \<le> c \<and> c \<le> n" using assms(2-4) p by (simp add: hd_conv_nth last_conv_nth)
  qed
  have m: "additive_mask n cu a b = Some 0 \<longleftrightarrow>
      (\<exists>k. Suc k < length cu \<and> cu ! k \<le> a \<and> a < cu ! Suc k \<and> cu ! k \<le> b \<and> b < cu ! Suc k)" for a b
    unfolding additive_mask_def using block_mask_iff [OF assms(1) rng] by simp
  have none: "additive_mask n cu a b = None \<longleftrightarrow> additive_mask n cu a b \<noteq> Some 0" for a b
    by (simp add: additive_mask_def)
  obtain k where "Suc k < length cu" "cu ! k \<le> i" "i < cu ! Suc k" using segment_of [OF assms] by blast
  then have "additive_mask n cu i i = Some 0" unfolding m by blast
  moreover have "additive_mask n cu i j = additive_mask n cu j i"
  proof (cases "additive_mask n cu i j = Some 0")
    case True
    then have "additive_mask n cu j i = Some 0" unfolding m by blast
    with True show ?thesis by simp
  next
    case False
    then have "additive_mask n cu j i \<noteq> Some 0" unfolding m by blast
    with False none show ?thesis by metis
  qed
  ultimately show ?thesis using m by blast
qed

lemma vit_mask_is_block_diagonal_witness:
  "additive_mask 5 [0, 2, 5] 3 3 = Some 0 \<and> additive_mask 5 [0, 2, 5] 3 1 = additive_mask 5 [0, 2, 5] 1 3"
  using vit_mask_is_block_diagonal [of "[0, 2, 5]" 5 3 1] by simp

end
