(* ===== verification/Main_Boot.thy ===== *)
theory Main_Boot
  imports Engine_Boot Worker Py_Args
begin

text \<open>
  The start of the worker, \<open>main_async\<close> of \<^verbatim>\<open>worker/la_worker.py\<close>, which puts the other parts together: the preflight
  checks (theory Startup), the engine (Engine_Boot), the calibration (Calibration), the weight manifest, the application
  object (Worker), and then the Unix socket: its permissions, the serving phase and the shutdown. Also
  \<open>parse_args\<close>, whose defaults read the environment. What a path holds is a function of the path, and the model directory of the
  options is the one that is looked up. The lemmas spell out what a worker that got as far as its application object has
  verified (\<open>verified_start\<close>, exactly the conditions of getting there), and that the socket is never bound under a wider mask than its own.
\<close>

section \<open>parse_args\<close>

record worker_options =
  opt_socket :: string
  opt_model_dir :: string
  calibration_image :: string
  calibration_prompt :: string
  calibration_runs :: int

definition env_get :: "env \<Rightarrow> string \<Rightarrow> string \<Rightarrow> string" where
  "env_get env key dflt = (case env key of None \<Rightarrow> dflt | Some v \<Rightarrow> v)"

text \<open>The defaults, from the environment.\<close>

definition default_options :: "env \<Rightarrow> worker_options res" where
  "default_options env =
     bindr (point_to ''drone in the sky'') (\<lambda>prompt.
     bindr (py_int (env_get env ''LA_CALIBRATION_RUNS'' ''6'')) (\<lambda>runs.
     ret \<lparr>opt_socket = env_get env ''LA_IPC_SOCKET'' ''/tmp/la.sock'',
          opt_model_dir = env_get env ''LA_MODEL_LOCAL_DIR'' ''/opt/locate_anything/model'',
          calibration_image = env_get env ''LA_CALIBRATION_IMAGE'' ''/opt/locate_anything/test_data/drone_sirius.jpg'',
          calibration_prompt = prompt, calibration_runs = runs\<rparr>))"

text \<open>The parser is built with those defaults; a numeral that \<open>int\<close> refuses in the environment ends the process before
  any flag is looked at.\<close>

definition worker_specs :: "worker_options \<Rightarrow> arg_spec list" where
  "worker_specs d =
     [str_arg ''--socket'' (StrArg (opt_socket d)), str_arg ''--model-dir'' (StrArg (opt_model_dir d)),
      str_arg ''--calibration-image'' (StrArg (calibration_image d)),
      str_arg ''--calibration-prompt'' (StrArg (calibration_prompt d)), int_arg ''--calibration-runs'' (calibration_runs d)]"

definition worker_parse_args :: "env \<Rightarrow> string list \<Rightarrow> worker_options res" where
  "worker_parse_args env argv =
     bindr (default_options env) (\<lambda>d.
     bindr (run_parser (worker_specs d) argv) (\<lambda>ns.
     ret \<lparr>opt_socket = str_of (ns ''--socket''), opt_model_dir = str_of (ns ''--model-dir''),
       calibration_image = str_of (ns ''--calibration-image''), calibration_prompt = str_of (ns ''--calibration-prompt''),
       calibration_runs = int_of_arg (ns ''--calibration-runs'')\<rparr>))"

lemma proper_worker_specs: "proper_specs (worker_specs d)"
  by (simp add: worker_specs_def proper_specs_def proper_flag_def str_arg_def int_arg_def)

text \<open>Without flags the options are the defaults; each flag replaces its own option and no other.\<close>

lemma worker_no_flags: "worker_parse_args env [] = default_options env"
proof (cases "default_options env")
  case (Inr d)
  have "run_parser (worker_specs d) [] = Inr (initial_ns (worker_specs d))"
    by (simp add: run_parser_def finish_parsing_def parsing_start_def worker_specs_def str_arg_def int_arg_def)
  then show ?thesis
    by (simp add: worker_parse_args_def Inr initial_ns_def find_arg_def) (simp add: worker_specs_def str_arg_def int_arg_def)
qed (simp add: worker_parse_args_def)

lemma worker_socket_flag:
  assumes "default_options env = Inr d" and "path = [] \<or> hd path \<noteq> CHR ''-''"
  shows "worker_parse_args env [''--socket'', path] = Inr (d\<lparr>opt_socket := path\<rparr>)"
proof -
  let ?s = "str_arg ''--socket'' (StrArg (opt_socket d))"
  have "?s \<in> set (worker_specs d)" by (simp add: worker_specs_def)
  then have "list_all (setting_ok (worker_specs d)) [Separate ?s path]"
    using assms(2) by (auto simp: classify_plain str_arg_def)
  from run_parser_settings [OF proper_worker_specs this]
  have "run_parser (worker_specs d) [''--socket'', path] = Inr ((initial_ns (worker_specs d))(''--socket'' := StrArg path))"
    by (simp add: str_arg_def get_value_def convert_arg_def store_arg_def finish_parsing_def parsing_start_def)
      (simp add: worker_specs_def str_arg_def int_arg_def)
  then show ?thesis
    by (simp add: worker_parse_args_def assms(1) initial_ns_def find_arg_def) (simp add: worker_specs_def str_arg_def int_arg_def)
qed

text \<open>The flag the container's entry point passes repeats the default.\<close>

lemma entrypoint_flag_is_default:
  assumes "env ''LA_IPC_SOCKET'' = Some path" and "path = [] \<or> hd path \<noteq> CHR ''-''"
  shows "worker_parse_args env [''--socket'', path] = default_options env"
proof (cases "default_options env")
  case (Inr d)
  with assms(1) have "opt_socket d = path" by (auto simp: default_options_def env_get_def bindr_eq_Inr)
  with worker_socket_flag [OF Inr assms(2)] Inr show ?thesis by simp
qed (simp add: worker_parse_args_def)

section \<open>From the checks to the application object\<close>

text \<open>What the process finds: the world of the preflight checks; the directory at a path as it is when the engine checks it
  again and when the manifest is taken; what the loaders make of a path; the file system of the calibration image.\<close>

record engine_world =
  ew_model_dir :: "string \<Rightarrow> listing option"
  ew_tokenizer :: "string \<Rightarrow> unit res"
  ew_processor :: "string \<Rightarrow> unit res"
  ew_libs :: boot_libs
  ew_config :: "string \<Rightarrow> model_config res"
  ew_model :: "string \<Rightarrow> model_config \<Rightarrow> py_module list \<Rightarrow> loaded_model res"
  ew_fresh_id :: nat
  ew_modules :: "py_module list"
  ew_is_file :: "string \<Rightarrow> bool"
  ew_read_bytes :: "string \<Rightarrow> byte list res"
  ew_manifest_dir :: "string \<Rightarrow> listing"

definition boot_engine ::
  "boot_world \<Rightarrow> engine_world \<Rightarrow> string \<Rightarrow> (string \<times> string \<times> gen_config \<times> loaded_model) res" where
  "boot_engine w ew path =
     init_engine (bw_env w) (bw_cuda w) ''cuda'' (validate_model_dir (bw_avail w) (ew_model_dir ew path)) (ew_tokenizer ew path)
       (ew_processor ew path)
       (\<lambda>impl. load_engine (ew_libs ew) (ew_config ew path) (ew_model ew path) impl (ew_fresh_id ew) (ew_modules ew))"

definition manifest_entries :: "listing \<Rightarrow> (string \<times> bool \<times> nat) list" where
  "manifest_entries dir = map (\<lambda>(name, e). (name, entry_is_file e, st_size e)) dir"

text \<open>\<open>backend_of\<close> is the engine object around the loaded model.\<close>

definition boot_app ::
  "boot_world \<Rightarrow> engine_world \<Rightarrow> (loaded_model \<Rightarrow> ('img, 'prof, 'vis, 'inp, 'tok, 'w) backend) \<Rightarrow> worker_options \<Rightarrow> 'w \<Rightarrow>
   ('img, 'prof, 'vis, 'inp, 'tok, 'w) worker_app res \<times> 'w" where
  "boot_app w ew backend_of opts wd =
     (case bindr (read_inference_timeout (bw_env w)) (\<lambda>timeout.
           bindr (run_all w (opt_model_dir opts)) (\<lambda>_.
           bindr (boot_engine w ew (opt_model_dir opts)) (\<lambda>eng. ret (timeout, eng)))) of
        Inl e \<Rightarrow> (Inl e, wd)
      | Inr (timeout, dtype, impl, gen, model) \<Rightarrow>
          (let (calib, wd') = calibrate (backend_of model) gen (ew_is_file ew) (ew_read_bytes ew) wd
                 (calibration_image opts) (calibration_prompt opts) (calibration_runs opts)
           in (bindr calib (\<lambda>c.
               ret \<lparr>engine = backend_of model, gen_cfg = gen, model_dir = opt_model_dir opts, attn_impl = impl,
                    model_manifest_sha256 = compute_weight_manifest_sha256 (manifest_entries (ew_manifest_dir ew (opt_model_dir opts))),
                    calibration = c, inference_timeout_s = timeout\<rparr>), wd')))"

section \<open>The socket\<close>

datatype sock_effect =
    UnlinkStale | Umask nat | Bind | Chmod nat | StopListening | DrainLock bool | ShutdownExecutor | UnlinkSocket

record sock_world =
  stale_socket :: bool
  old_umask :: nat
  bind_result :: "unit res"
  chmod_result :: "unit res"
  drained :: bool
  executor_result :: "unit res"

text \<open>From the stale socket to the end of \<open>main_async\<close>: the effects in their order, and the result. The bind is an effect
  whether or not it succeeds. The modes are octal in the code, \<open>0o117\<close> and \<open>0o660\<close>.\<close>

definition serve_socket :: "sock_world \<Rightarrow> sock_effect list \<times> int res" where
  "serve_socket sw =
     (let before = (if stale_socket sw then [UnlinkStale] else []) @ [Umask 79, Bind, Umask (old_umask sw)] in
      case bind_result sw of
        Inl e \<Rightarrow> (before, Inl e)
      | Inr _ \<Rightarrow>
          (case chmod_result sw of
             Inl e \<Rightarrow> (before @ [Chmod 432], Inl e)
           | Inr _ \<Rightarrow>
               let served = before @ [Chmod 432, StopListening, DrainLock (drained sw), ShutdownExecutor] in
               (case catchr (executor_result sw) [Exception] (\<lambda>e. ret ()) of
                  Inl e \<Rightarrow> (served, Inl e)
                | Inr _ \<Rightarrow> (served @ [UnlinkSocket], ret 0))))"

section \<open>main\<close>

text \<open>The process from its command line: the time-out is read when the module is imported; then the arguments, \<open>main_async\<close> up
  to the application object, and the socket. The result has the effects on the socket and the status.\<close>

definition worker_main ::
  "boot_world \<Rightarrow> engine_world \<Rightarrow> (loaded_model \<Rightarrow> ('img, 'prof, 'vis, 'inp, 'tok, 'w) backend) \<Rightarrow> sock_world \<Rightarrow> 'w \<Rightarrow>
   string list \<Rightarrow> (sock_effect list \<times> int res) \<times> 'w" where
  "worker_main w ew backend_of sw wd argv =
     (case bindr (read_inference_timeout (bw_env w)) (\<lambda>_. worker_parse_args (bw_env w) argv) of
        Inl e \<Rightarrow> (([], Inl e), wd)
      | Inr opts \<Rightarrow>
          (case boot_app w ew backend_of opts wd of
             (Inl e, wd') \<Rightarrow> (([], Inl e), wd')
           | (Inr app, wd') \<Rightarrow> (serve_socket sw, wd')))"

text \<open>\<open>_hard_exit_for_restart\<close>: how the log handlers and the two streams flush; \<open>os._exit\<close> is reached unless a flush raises
  something that is no \<open>Exception\<close>. The streams share a \<open>try\<close>.\<close>

definition hard_exit_for_restart :: "unit res list \<Rightarrow> unit res \<Rightarrow> unit res \<Rightarrow> nat \<Rightarrow> nat res" where
  "hard_exit_for_restart handlers err out code =
     bindr (mapr (\<lambda>flush. catchr flush [Exception] (\<lambda>_. ret ())) handlers) (\<lambda>_.
     bindr (catchr (bindr err (\<lambda>_. out)) [Exception] (\<lambda>_. ret ())) (\<lambda>_. ret code))"

section \<open>Lemmas\<close>

text \<open>The conditions of the engine's constructor, and with those of the preflight checks (theory Startup) everything that must
  be in order before an inference runs.\<close>

definition engine_in_order :: "boot_world \<Rightarrow> engine_world \<Rightarrow> string \<Rightarrow> bool" where
  "engine_in_order w ew path \<longleftrightarrow> validate_model_dir (bw_avail w) (ew_model_dir ew path) = Inr () \<and>
     (fst (device_capability (bw_cuda w)) = 12 \<longrightarrow> 0 \<le> snd (device_capability (bw_cuda w))) \<and>
     ew_tokenizer ew path = Inr () \<and> ew_processor ew path = Inr () \<and>
     (\<exists>model. load_engine (ew_libs ew) (ew_config ew path) (ew_model ew path) ''sdpa'' (ew_fresh_id ew) (ew_modules ew) = Inr model)"

definition verified_start :: "boot_world \<Rightarrow> engine_world \<Rightarrow> string \<Rightarrow> bool" where
  "verified_start w ew path \<longleftrightarrow> env_in_order (bw_env w) \<and> gpu_in_order (bw_cuda w) \<and>
     validate_model_dir (bw_avail w) (bw_model_dir w path) = Inr () \<and>
     (\<exists>dir. bw_model_dir w path = Some dir \<and> preprocessor_in_order (bw_load w) dir) \<and>
     templates_in_order w \<and> engine_in_order w ew path"

lemma boot_engine_iff:
  assumes "env_in_order (bw_env w)" and "gpu_in_order (bw_cuda w)"
  shows "boot_engine w ew path = Inr (dtype, impl, gen, model) \<longleftrightarrow>
    engine_in_order w ew path \<and> dtype = ''bfloat16'' \<and> impl = ''sdpa'' \<and> gen = trained_config \<and>
    load_engine (ew_libs ew) (ew_config ew path) (ew_model ew path) ''sdpa'' (ew_fresh_id ew) (ew_modules ew) = Inr model"
proof -
  from assms(1) have e: "from_env (bw_env w) = Inr trained_config" "require_env (bw_env w) ''LA_ATTN_IMPL'' = Inr ''sdpa''"
    "require_env (bw_env w) ''LA_MODEL_DTYPE'' = Inr ''bfloat16''"
    using env_trained by (auto simp: validate_env_iff [symmetric])
  have "parse_dtype ''bfloat16'' = Inr ''bfloat16''" by code_simp
  moreover from assms(2) have "cuda_is_available (bw_cuda w)" "\<not> fst (device_capability (bw_cuda w)) < 12"
    by (auto simp: gpu_in_order_def)
  ultimately show ?thesis
    by (auto simp: boot_engine_def init_engine_def e bindr_eq_Inr engine_in_order_def)
qed

text \<open>These are exactly the conditions under which the start gets as far as the calibration.\<close>

lemma verified_start_iff:
  "verified_start w ew path \<longleftrightarrow> run_all w path = Inr () \<and> (\<exists>eng. boot_engine w ew path = Inr eng)"
proof -
  have "(\<exists>eng. boot_engine w ew path = Inr eng) \<longleftrightarrow> engine_in_order w ew path"
    if "env_in_order (bw_env w)" "gpu_in_order (bw_cuda w)"
    using boot_engine_iff [OF that] by (auto simp: engine_in_order_def)
  then show ?thesis by (auto simp: verified_start_def run_all_iff)
qed

lemma boot_app_Inr:
  assumes "boot_app w ew backend_of opts wd = (Inr app, wd')"
  obtains dtype model where "run_all w (opt_model_dir opts) = Inr ()"
    "boot_engine w ew (opt_model_dir opts) = Inr (dtype, attn_impl app, gen_cfg app, model)"
    "engine app = backend_of model" "read_inference_timeout (bw_env w) = Inr (inference_timeout_s app)"
    "calibrate (backend_of model) (gen_cfg app) (ew_is_file ew) (ew_read_bytes ew) wd (calibration_image opts)
       (calibration_prompt opts) (calibration_runs opts) = (Inr (calibration app), wd')"
  using assms by (auto simp: boot_app_def bindr_eq_Inr Let_def split: sum.splits prod.splits)

text \<open>What an application object stands for.\<close>

lemma boot_app_verified:
  assumes "boot_app w ew backend_of opts wd = (Inr app, wd')"
  shows "verified_start w ew (opt_model_dir opts)" and "gen_cfg app = trained_config" and "attn_impl app = ''sdpa''"
proof -
  from assms obtain dtype model where r: "run_all w (opt_model_dir opts) = Inr ()"
    and b: "boot_engine w ew (opt_model_dir opts) = Inr (dtype, attn_impl app, gen_cfg app, model)"
    by (rule boot_app_Inr)
  then show v: "verified_start w ew (opt_model_dir opts)" by (auto simp: verified_start_iff)
  from v b boot_engine_iff [of w ew "opt_model_dir opts"] show "gen_cfg app = trained_config" "attn_impl app = ''sdpa''"
    by (auto simp: verified_start_def)
qed

lemma unverified_refused:
  assumes "\<not> verified_start w ew (opt_model_dir opts)"
  shows "\<exists>e. boot_app w ew backend_of opts wd = (Inl e, wd)"
proof -
  let ?path = "opt_model_dir opts"
  from assms have "run_all w ?path \<noteq> Inr () \<or> (\<forall>eng. boot_engine w ew ?path \<noteq> Inr eng)"
    by (auto simp: verified_start_iff)
  then have "(\<exists>e. run_all w ?path = Inl e) \<or> (\<exists>e. boot_engine w ew ?path = Inl e)"
    by (cases "run_all w ?path"; cases "boot_engine w ew ?path") auto
  then show ?thesis
    by (cases "read_inference_timeout (bw_env w)"; cases "run_all w ?path") (auto simp: boot_app_def)
qed

lemma serve_socket_masks:
  "\<exists>before after. fst (serve_socket sw) = before @ [Umask 79, Bind, Umask (old_umask sw)] @ after \<and>
    set before \<subseteq> {UnlinkStale} \<and> Bind \<notin> set after \<and> range Umask \<inter> set after = {} \<and>
    (UnlinkSocket \<in> set after \<longleftrightarrow> snd (serve_socket sw) = ret 0)"
proof -
  let ?before = "if stale_socket sw then [UnlinkStale] else []"
  consider (bind) e where "bind_result sw = Inl e" | (chmod) u e where "bind_result sw = Inr u" "chmod_result sw = Inl e"
    | (serve) u v where "bind_result sw = Inr u" "chmod_result sw = Inr v"
    by (metis sum.exhaust)
  then obtain after where "fst (serve_socket sw) = ?before @ [Umask 79, Bind, Umask (old_umask sw)] @ after"
    and "Bind \<notin> set after" "range Umask \<inter> set after = {}" "UnlinkSocket \<in> set after \<longleftrightarrow> snd (serve_socket sw) = ret 0"
  proof cases
    case serve
    show ?thesis
      by (rule that [of "drop (length ?before + 3) (fst (serve_socket sw))"])
         (auto simp: serve_socket_def serve Let_def split: sum.splits)
  qed (auto intro: that simp: serve_socket_def)
  then show ?thesis by (intro exI [of _ ?before] exI [of _ after]) auto
qed

text \<open>Broken handlers and streams cannot keep the process alive.\<close>

lemma hard_exit_reached:
  assumes "\<And>flush e. flush \<in> set (err # out # handlers) \<Longrightarrow> flush = Inl e \<Longrightarrow> exc_isa (exc_cls e) Exception"
  shows "hard_exit_for_restart handlers err out code = Inr code"
proof -
  have c: "catchr flush [Exception] (\<lambda>_. ret ()) = Inr ()" if "\<And>e. flush = Inl e \<Longrightarrow> exc_isa (exc_cls e) Exception" for flush
    using that by (cases flush) (auto simp: catchr_def)
  have "\<exists>us. mapr (\<lambda>flush. catchr flush [Exception] (\<lambda>_. ret ())) fs = Inr us" if "set fs \<subseteq> set handlers" for fs
    using that
  proof (induction fs)
    case (Cons f fs)
    then have "catchr f [Exception] (\<lambda>_. ret ()) = Inr ()" using assms by (intro c) auto
    with Cons show ?case by auto
  qed simp
  then obtain us where "mapr (\<lambda>flush. catchr flush [Exception] (\<lambda>_. ret ())) handlers = Inr us" by blast
  moreover have "catchr (bindr err (\<lambda>_. out)) [Exception] (\<lambda>_. ret ()) = Inr ()"
    using assms by (intro c) (auto simp: bindr_eq_Inl)
  ultimately show ?thesis by (simp add: hard_exit_for_restart_def)
qed

section \<open>Properties\<close>

text \<open>C22.
  A worker for which anything is off never serves, and never runs an inference either. For a command line that names a
  model directory, or leaves it to the environment, \<open>verified_start\<close> spells the conditions out: the environment has the
  eight canonical values and a socket path; there is a CUDA device of capability 12.0 or more with at least 24 * 10^9
  bytes and \<open>sm_120\<close> among the compiled architectures; the directory passes its pins in both looks at it (the preflight
  check and the engine's own); its preprocessor configuration has the expected values; the templates the Rust binary
  prints are those of \<^verbatim>\<open>worker/prompts.py\<close>; and tokenizer, processor and model load. If any one of them fails,
  \<open>main\<close> ends with an exception, has not touched the socket, and leaves the world of the engine as it was, calibration
  included.
\<close>

theorem worker_starts_only_when_verified:
  assumes "\<And>opts. worker_parse_args (bw_env w) argv = Inr opts \<Longrightarrow> \<not> verified_start w ew (opt_model_dir opts)"
  shows "\<exists>e. worker_main w ew backend_of sw wd argv = (([], Inl e), wd)"
proof (cases "bindr (read_inference_timeout (bw_env w)) (\<lambda>_. worker_parse_args (bw_env w) argv)")
  case (Inr opts)
  then have "worker_parse_args (bw_env w) argv = Inr opts" by (auto simp: bindr_eq_Inr)
  from unverified_refused [OF assms [OF this], of backend_of wd]
  obtain e where "boot_app w ew backend_of opts wd = (Inl e, wd)" by blast
  with Inr show ?thesis by (simp add: worker_main_def)
qed (simp add: worker_main_def)

text \<open>Here it is the memory of the card that is too small, by one byte.\<close>

lemma worker_starts_only_when_verified_witness:
  "\<exists>e. worker_main
     \<lparr>bw_env = trained_env, bw_cuda = \<lparr>cuda_is_available = True, device_count = 1, device_capability = (12, 0),
        total_memory = 23999999999, arch_list = [''sm_120'']\<rparr>, bw_model_dir = (\<lambda>_. Some []), bw_avail = id,
      bw_load = (\<lambda>_. Inr JNull), bw_exists = (\<lambda>_. True), bw_run = (\<lambda>_. Inr (0, [])), bw_loads = (\<lambda>_. Inr JNull)\<rparr>
     \<lparr>ew_model_dir = (\<lambda>_. Some []), ew_tokenizer = (\<lambda>_. Inr ()), ew_processor = (\<lambda>_. Inr ()), ew_libs = demo_boot_libs,
      ew_config = (\<lambda>_. Inr demo_config), ew_model = (\<lambda>_. demo_loader), ew_fresh_id = 9, ew_modules = demo_modules,
      ew_is_file = (\<lambda>_. True), ew_read_bytes = (\<lambda>_. Inr demo_jpeg), ew_manifest_dir = (\<lambda>_. [])\<rparr>
     (\<lambda>_. demo_backend ''None'')
     \<lparr>stale_socket = False, old_umask = 18, bind_result = Inr (), chmod_result = Inr (), drained = True, executor_result = Inr ()\<rparr> 0
     [''--socket'', ''/run/la.sock''] = (([], Inl e), 0)"
  by (rule worker_starts_only_when_verified) (simp add: verified_start_def gpu_in_order_def)

end
