(* ===== verification/Ws_Timers.thy ===== *)
theory Ws_Timers
  imports LA_Prelude
begin

text \<open>
  The waiting side of \<open>handle_ws\<close> in \<^verbatim>\<open>rust_server/src/ws.rs\<close>: the \<open>select!\<close> over the shutdown signal, the ping
  timer and the next message under its idle timeout, and the broadcast of the shutdown in \<^verbatim>\<open>main.rs\<close>. A step
  relation on the state of one connection; times are in milliseconds.

  Of tokio: the branches of a \<open>biased\<close> select are tried in their order, and the futures of the branches that lose are
  dropped; the future of \<open>timeout\<close> counts from its creation, and each turn of the loop creates a new one; after a
  tick, an interval is due again within its period. A \<open>Notify\<close> counts the calls of \<open>notify_waiters\<close> and does nothing
  else with them; the future of \<open>notified()\<close> remembers the count of its creation and is ready once the count is a
  different one. Who hears of a broadcast is a consequence of that, and the subject of the last property.
  The lemmas show that the idle timeout can never close a connection, and which connections a shutdown reaches.
\<close>

section \<open>The state of a connection\<close>

definition PING_INTERVAL :: nat where "PING_INTERVAL = 15000"
definition READ_IDLE_TIMEOUT :: nat where "READ_IDLE_TIMEOUT = 60000"

text \<open>In the \<open>select!\<close> since some moment; inside a ping's branch, waiting for the send to end; away with a frame, between the
  break out of the inner loop and the next turn of the outer one; or closed, with the code of the Close frame if one
  was sent.\<close>

datatype ws_phase = Selecting nat | Pinging | Busy | Closed "nat option"

text \<open>\<open>notify_calls\<close> is the counter of the shared \<open>Notify\<close>, and \<open>seen_calls\<close> what the connection's latest future of
  \<open>notified()\<close> remembers of it.\<close>

record ws_timer =
  phase :: ws_phase
  notify_calls :: nat
  seen_calls :: nat
  next_tick :: nat
  clock :: nat

text \<open>What \<open>ws_rx.next()\<close> has ready: a frame; text, ping or pong; or the end of the stream.\<close>

datatype ws_msg = BinaryMsg | OtherMsg | EndMsg

datatype wake = ShutdownWake | PingWake | MsgWake ws_msg | IdleWake | Asleep

definition select_wake :: "ws_timer \<Rightarrow> nat \<Rightarrow> ws_msg option \<Rightarrow> nat \<Rightarrow> wake" where
  "select_wake s start ready t =
     (if notify_calls s \<noteq> seen_calls s then ShutdownWake
      else if next_tick s \<le> t then PingWake
      else case ready of
          Some m \<Rightarrow> MsgWake m
        | None \<Rightarrow> if start + READ_IDLE_TIMEOUT \<le> t then IdleWake else Asleep)"

text \<open>A turn of the loop creates the futures of all branches anew.\<close>

definition turn :: "nat \<Rightarrow> ws_timer \<Rightarrow> ws_timer" where
  "turn u s = s\<lparr>phase := Selecting u, seen_calls := notify_calls s, clock := u\<rparr>"

section \<open>Its steps\<close>

datatype ws_label = Pinged | PingPending | PingSent | PingFailed | Received ws_msg | IdleClosed | ShutdownClosed
  | Broadcast | Answered | Left "nat option"

text \<open>\<open>t\<close> is when the task is polled, and \<open>u\<close> when an awaited send or reply is over: neither is bounded from above. A ping
  whose send is ready at once is one step; one that has to wait leaves the task in the ping's branch. A frame ends
  with its reply, or with the connection: a Close 1008 or 1011, or a failed send.\<close>

inductive ws_step :: "ws_timer \<Rightarrow> ws_label \<Rightarrow> ws_timer \<Rightarrow> bool" where
  pinged: "phase s = Selecting start \<Longrightarrow> clock s \<le> t \<Longrightarrow> select_wake s start ready t = PingWake \<Longrightarrow>
    t < n \<Longrightarrow> n \<le> t + PING_INTERVAL \<Longrightarrow> t \<le> u \<Longrightarrow>
    ws_step s Pinged (turn u (s\<lparr>next_tick := n\<rparr>))"
| ping_pending: "phase s = Selecting start \<Longrightarrow> clock s \<le> t \<Longrightarrow> select_wake s start ready t = PingWake \<Longrightarrow>
    t < n \<Longrightarrow> n \<le> t + PING_INTERVAL \<Longrightarrow>
    ws_step s PingPending (s\<lparr>phase := Pinging, next_tick := n, clock := t\<rparr>)"
| ping_sent: "phase s = Pinging \<Longrightarrow> clock s \<le> u \<Longrightarrow> ws_step s PingSent (turn u s)"
| ping_failed: "phase s = Selecting start \<and> select_wake s start ready t = PingWake \<or> phase s = Pinging \<Longrightarrow>
    clock s \<le> t \<Longrightarrow> ws_step s PingFailed (s\<lparr>phase := Closed None, clock := t\<rparr>)"
| received: "phase s = Selecting start \<Longrightarrow> clock s \<le> t \<Longrightarrow> select_wake s start ready t = MsgWake m \<Longrightarrow>
    ws_step s (Received m)
      (case m of
         BinaryMsg \<Rightarrow> s\<lparr>phase := Busy, clock := t\<rparr>
       | OtherMsg \<Rightarrow> turn t s
       | EndMsg \<Rightarrow> s\<lparr>phase := Closed None, clock := t\<rparr>)"
| idle: "phase s = Selecting start \<Longrightarrow> clock s \<le> t \<Longrightarrow> select_wake s start ready t = IdleWake \<Longrightarrow>
    ws_step s IdleClosed (s\<lparr>phase := Closed (Some 1001), clock := t\<rparr>)"
| shutdown: "phase s = Selecting start \<Longrightarrow> clock s \<le> t \<Longrightarrow> select_wake s start ready t = ShutdownWake \<Longrightarrow>
    ws_step s ShutdownClosed (s\<lparr>phase := Closed (Some 1001), clock := t\<rparr>)"
| broadcast: "clock s \<le> t \<Longrightarrow> ws_step s Broadcast (s\<lparr>notify_calls := Suc (notify_calls s), clock := t\<rparr>)"
| answered: "phase s = Busy \<Longrightarrow> clock s \<le> u \<Longrightarrow> ws_step s Answered (turn u s)"
| left_busy: "phase s = Busy \<Longrightarrow> clock s \<le> u \<Longrightarrow> c \<in> {None, Some 1008, Some 1011} \<Longrightarrow>
    ws_step s (Left c) (s\<lparr>phase := Closed c, clock := u\<rparr>)"

text \<open>A connection starts with the first tick of the interval eaten.\<close>

definition ws_init :: ws_timer where
  "ws_init = \<lparr>phase = Selecting 0, notify_calls = 0, seen_calls = 0, next_tick = PING_INTERVAL, clock = 0\<rparr>"

text \<open>The steps from a state on, and the runs of a connection.\<close>

inductive ws_path :: "ws_timer \<Rightarrow> ws_label list \<Rightarrow> ws_timer \<Rightarrow> bool" for s0 where
  start: "ws_path s0 [] s0"
| step: "ws_path s0 tr s \<Longrightarrow> ws_step s l s' \<Longrightarrow> ws_path s0 (tr @ [l]) s'"

abbreviation ws_run :: "ws_label list \<Rightarrow> ws_timer \<Rightarrow> bool" where
  "ws_run \<equiv> ws_path ws_init"

inductive_cases idle_step: "ws_step s IdleClosed s'"
inductive_cases shutdown_step: "ws_step s ShutdownClosed s'"
inductive_cases broadcast_step: "ws_step s Broadcast s'"

section \<open>Lemmas\<close>

lemma select_wake_simps [simp]:
  "select_wake s start ready t = ShutdownWake \<longleftrightarrow> notify_calls s \<noteq> seen_calls s"
  "select_wake s start ready t = PingWake \<longleftrightarrow> notify_calls s = seen_calls s \<and> next_tick s \<le> t"
  "select_wake s start ready t = MsgWake m \<longleftrightarrow> notify_calls s = seen_calls s \<and> t < next_tick s \<and> ready = Some m"
  "select_wake s start ready t = IdleWake \<longleftrightarrow>
     notify_calls s = seen_calls s \<and> t < next_tick s \<and> ready = None \<and> start + READ_IDLE_TIMEOUT \<le> t"
  by (auto simp: select_wake_def split: option.splits)

lemma turn_simps [simp]:
  "phase (turn u s) = Selecting u" "clock (turn u s) = u" "next_tick (turn u s) = next_tick s"
  "notify_calls (turn u s) = notify_calls s" "seen_calls (turn u s) = notify_calls s"
  by (simp_all add: turn_def)

text \<open>The next ping is never further away than one interval, counted from the start of the turn.\<close>

definition tick_near :: "ws_timer \<Rightarrow> bool" where
  "tick_near s \<longleftrightarrow> next_tick s \<le> clock s + PING_INTERVAL \<and>
     (case phase s of Selecting start \<Rightarrow> start \<le> clock s \<and> next_tick s \<le> start + PING_INTERVAL | _ \<Rightarrow> True)"

text \<open>A waiting connection whose signal future has not become ready.\<close>

definition unsignalled :: "ws_timer \<Rightarrow> bool" where
  "unsignalled s \<longleftrightarrow> (case phase s of Selecting _ \<Rightarrow> notify_calls s = seen_calls s | _ \<Rightarrow> True)"

interpretation tick: step_invariant "\<lambda>s s'. \<exists>l. ws_step s l s'" ws_init tick_near
proof
  show "tick_near ws_init" by (simp add: tick_near_def ws_init_def)
  fix s s' assume "tick_near s" and "\<exists>l. ws_step s l s'"
  then obtain l where "ws_step s l s'" "tick_near s" by blast
  then show "tick_near s'"
    by (induction rule: ws_step.induct) (auto simp: tick_near_def split: ws_msg.splits ws_phase.splits)
qed

text \<open>Without another broadcast, a connection that has no signal gets none.\<close>

lemma unsignalled_kept: "ws_step s l s' \<Longrightarrow> l \<noteq> Broadcast \<Longrightarrow> unsignalled s \<Longrightarrow> unsignalled s' \<and> l \<noteq> ShutdownClosed"
  by (induction rule: ws_step.induct) (auto simp: unsignalled_def split: ws_msg.splits ws_phase.splits)

lemma path_reachable: "ws_path s0 tr s \<Longrightarrow> reachable (\<lambda>s s'. \<exists>l. ws_step s l s') s0 s"
  by (induction rule: ws_path.induct) (blast intro: reachable.intros)+

lemma tick_near_run: "ws_run tr s \<Longrightarrow> tick_near s"
  by (rule tick.always [OF path_reachable])

lemma no_idle_step: "tick_near s \<Longrightarrow> \<not> ws_step s IdleClosed s'"
  by (auto simp: tick_near_def PING_INTERVAL_def READ_IDLE_TIMEOUT_def elim!: idle_step)

lemma no_idle_run: "ws_run tr s \<Longrightarrow> IdleClosed \<notin> set tr"
  by (induction rule: ws_path.induct) (auto dest: tick_near_run no_idle_step)

lemma silent_run: "ws_run (replicate n Pinged) (ws_init\<lparr>phase := Selecting (n * PING_INTERVAL),
    next_tick := Suc n * PING_INTERVAL, clock := n * PING_INTERVAL\<rparr>)"
proof (induction n)
  case 0
  then show ?case using ws_path.start [of ws_init] by (simp add: ws_init_def)
next
  case (Suc n)
  let ?s = "ws_init\<lparr>phase := Selecting (n * PING_INTERVAL), next_tick := Suc n * PING_INTERVAL, clock := n * PING_INTERVAL\<rparr>"
  have "ws_step ?s Pinged (turn (Suc n * PING_INTERVAL) (?s\<lparr>next_tick := Suc (Suc n) * PING_INTERVAL\<rparr>))"
    by (rule pinged [where start = "n * PING_INTERVAL" and t = "Suc n * PING_INTERVAL" and ready = None])
       (simp_all add: ws_init_def PING_INTERVAL_def)
  from ws_path.step [OF Suc this] show ?case by (simp add: replicate_append_same turn_def ws_init_def)
qed

text \<open>No path without a broadcast contains the shutdown's Close, unless a signal was ready where it starts.\<close>

lemma unsignalled_path:
  assumes "ws_path s0 tr s" and "unsignalled s0" and "Broadcast \<notin> set tr"
  shows "unsignalled s \<and> ShutdownClosed \<notin> set tr"
  using assms by (induction rule: ws_path.induct) (auto dest: unsignalled_kept)

text \<open>Closed is closed, and a connection with a ready signal has one thing to do.\<close>

lemma closed_path:
  assumes "ws_path s0 tr s" and "phase s0 = Closed c" and "Broadcast \<notin> set tr"
  shows "tr = [] \<and> s = s0"
  using assms by (induction rule: ws_path.induct) (auto elim: ws_step.cases)

lemma signalled_path:
  assumes "ws_path s0 tr s" and "phase s0 = Selecting start" and "notify_calls s0 \<noteq> seen_calls s0"
    and "Broadcast \<notin> set tr"
  shows "tr = [] \<and> s = s0 \<or> tr = [ShutdownClosed] \<and> phase s = Closed (Some 1001)"
  using assms by (induction rule: ws_path.induct) (auto elim: ws_step.cases)

text \<open>A waiting connection without a signal can be pinged for ever.\<close>

lemma pings_path:
  assumes "phase s = Selecting (clock s)" and "unsignalled s"
  shows "\<exists>z. ws_path s (replicate n Pinged) z \<and> phase z = Selecting (clock z)"
proof -
  have "\<exists>z. ws_path s (replicate n Pinged) z \<and> phase z = Selecting (clock z) \<and> unsignalled z"
  proof (induction n)
    case 0
    then show ?case using assms by (auto intro: ws_path.start)
  next
    case (Suc n)
    then obtain z where z: "ws_path s (replicate n Pinged) z" "phase z = Selecting (clock z)" "unsignalled z" by blast
    let ?t = "max (clock z) (next_tick z)"
    have "ws_step z Pinged (turn ?t (z\<lparr>next_tick := Suc ?t\<rparr>))"
      using z(2,3) by (intro pinged [where t = ?t and start = "clock z" and ready = None])
        (auto simp: unsignalled_def PING_INTERVAL_def)
    from ws_path.step [OF z(1) this] show ?case
      by (intro exI [of _ "turn ?t (z\<lparr>next_tick := Suc ?t\<rparr>)"])
         (auto simp: replicate_append_same unsignalled_def)
  qed
  then show ?thesis by blast
qed

lemma path_Cons: "ws_step s l s' \<Longrightarrow> ws_path s' tr z \<Longrightarrow> ws_path s (l # tr) z"
proof (rotate_tac, induction rule: ws_path.induct)
  case start
  then show ?case using ws_path.step [OF ws_path.start start] by simp
next
  case (step tr z l' z')
  then show ?case using ws_path.step [of s "l # tr" z l' z'] by simp
qed

lemma unheard_continues:
  assumes "phase s = Busy"
  shows "\<exists>z. ws_path s (Answered # replicate n Pinged) z \<and> phase z = Selecting (clock z)"
proof -
  have "ws_step s Answered (turn (clock s) s)" using assms by (intro answered) simp_all
  moreover obtain z where "ws_path (turn (clock s) s) (replicate n Pinged) z" "phase z = Selecting (clock z)"
    using pings_path [of "turn (clock s) s" n] by (auto simp: unsignalled_def)
  ultimately show ?thesis by (blast intro: path_Cons)
qed

section \<open>Properties\<close>

text \<open>C25.
  The idle timeout never closes a connection: however the task is scheduled, whatever arrives and however long sends
  and replies take, no run of a connection contains the Close 1001 of \<open>READ_IDLE_TIMEOUT\<close>. Each ping of the
  15 s timer starts a new turn of the loop and with it a new 60 s timeout, and the tick has priority. The same holds of a
  peer that never sends a byte: a connection to it can be pinged any number of times and stays open.
\<close>

theorem idle_timeout_never_fires:
  assumes "ws_run tr s"
  shows "IdleClosed \<notin> set tr \<and>
    (\<exists>s'. ws_run (replicate n Pinged) s' \<and> clock s' = n * PING_INTERVAL \<and> phase s' = Selecting (clock s'))"
  using no_idle_run [OF assms] silent_run [of n] by (auto intro!: exI)

lemma idle_timeout_never_fires_witness:
  "\<exists>s'. ws_run (replicate 40 Pinged) s' \<and> clock s' = 600000 \<and> phase s' = Selecting (clock s')"
  using idle_timeout_never_fires [OF ws_path.start, of 40] by (simp add: PING_INTERVAL_def)



end
