(* ===== verification/Server_Status.thy ===== *)
theory Server_Status
  imports Ipc_Link
begin

text \<open>
  The status endpoints of the Rust server: \<open>http_health\<close>, \<open>http_capabilities\<close>, \<open>http_info\<close> and \<open>wait_for_socket\<close> of
  \<^verbatim>\<open>rust_server/src/main.rs\<close>, the control queries of \<^verbatim>\<open>ipc.rs\<close> and the error bodies of \<^verbatim>\<open>error.rs\<close>, over the byte-level
  connection of theory Ipc\_Link. Times are in milliseconds; how long a query takes and whether the socket accepts a
  connection are arguments.
\<close>

section \<open>Errors\<close>

datatype server_error = WorkerUnavailable string | WorkerProtocol string | Internal string

fun status :: "server_error \<Rightarrow> nat" where
  "status (WorkerUnavailable m) = 503"
| "status (WorkerProtocol m) = 502"
| "status (Internal m) = 500"

fun error_type :: "server_error \<Rightarrow> string" where
  "error_type (WorkerUnavailable m) = ''worker_unavailable''"
| "error_type (WorkerProtocol m) = ''worker_protocol''"
| "error_type (Internal m) = ''internal_error''"

text \<open>The \<open>Display\<close> of an error.\<close>

fun error_text :: "server_error \<Rightarrow> string" where
  "error_text (WorkerUnavailable m) = ''worker unavailable: '' @ m"
| "error_text (WorkerProtocol m) = ''worker protocol error: '' @ m"
| "error_text (Internal m) = ''internal error: '' @ m"

type_synonym http_response = "nat \<times> json"

fun retriable :: "server_error \<Rightarrow> bool" where
  "retriable (WorkerUnavailable m) = True"
| "retriable e = False"

definition into_response :: "server_error \<Rightarrow> http_response" where
  "into_response e = (status e, JObj [(''code'', JInt (int (status e))), (''error_type'', JStr (error_type e)),
     (''message'', JStr (error_text e)), (''retriable'', JBool (retriable e))])"

section \<open>Control queries\<close>

text \<open>\<open>WorkerConn::control\<close>: a header with the kind only, an empty payload, one JSON frame back.\<close>

definition control ::
  "('img, 'prof, 'vis, 'inp, 'tok, 'w) worker_app \<Rightarrow> 'w worker_libs \<Rightarrow> edge_libs \<Rightarrow> (json \<Rightarrow> byte list) \<Rightarrow> string \<Rightarrow>
   'w uds \<Rightarrow> (server_error + json) \<times> 'w uds" where
  "control app wlibs libs to_string kind u =
     (let (body, u') = exchange app wlibs (to_string (JObj [(''kind'', JStr kind)])) [] u
      in (case body of
            None \<Rightarrow> Inl (WorkerUnavailable ''UDS exchange for control failed'')
          | Some bytes \<Rightarrow> (case from_slice libs bytes of
              None \<Rightarrow> Inl (WorkerProtocol ''JSON decode of worker response failed'') | Some v \<Rightarrow> Inr v), u'))"

text \<open>\<open>query_info\<close> and \<open>query_capabilities\<close>: each opens a connection of its own, or fails to.\<close>

definition query ::
  "('img, 'prof, 'vis, 'inp, 'tok, 'w) worker_app \<Rightarrow> 'w worker_libs \<Rightarrow> edge_libs \<Rightarrow> (json \<Rightarrow> byte list) \<Rightarrow> string \<Rightarrow>
   'w uds option \<Rightarrow> server_error + json" where
  "query app wlibs libs to_string kind conn = (case conn of
     None \<Rightarrow> Inl (WorkerUnavailable ''connect failed'')
   | Some u \<Rightarrow> fst (control app wlibs libs to_string kind u))"

section \<open>The endpoints\<close>

definition json_true :: "json \<Rightarrow> string \<Rightarrow> bool" where
  "json_true v k = (case jget v k of Some (JBool b) \<Rightarrow> b | _ \<Rightarrow> False)"

definition DEEP_HEALTH_TIMEOUT :: nat where "DEEP_HEALTH_TIMEOUT = 5000"

definition http_health :: "nat \<Rightarrow> server_error + json \<Rightarrow> http_response" where
  "http_health took answer =
     (let (healthy, detail) =
        (if took > DEEP_HEALTH_TIMEOUT then (False, JObj [(''error'', JStr ''deep health probe timed out'')])
         else case answer of
             Inr v \<Rightarrow> let ok = json_true v ''ok''; model_loaded = json_true v ''model_loaded''
                      in (ok \<and> model_loaded, JObj [(''info_ok'', JBool ok), (''model_loaded'', JBool model_loaded)])
           | Inl e \<Rightarrow> (False, JObj [(''error'', JStr (error_text e))]))
      in (if healthy then 200 else 503,
          JObj [(''status'', JStr (if healthy then ''ok'' else ''degraded'')),
                (''worker'', JStr (if healthy then ''up'' else ''down'')), (''detail'', detail)]))"

text \<open>\<open>http_capabilities\<close> and \<open>http_info\<close> pass the answer on, whatever it says.\<close>

definition http_forward :: "server_error + json \<Rightarrow> http_response" where
  "http_forward answer = (case answer of Inl e \<Rightarrow> into_response e | Inr raw \<Rightarrow> (200, raw))"

text \<open>The layer around the three routes: 504 after ten seconds.\<close>

definition timeout_layer :: "nat \<Rightarrow> http_response \<Rightarrow> http_response" where
  "timeout_layer took response = (if took > 10000 then (504, JNull) else response)"

section \<open>Waiting for the worker\<close>

text \<open>One attempt: the look at the path, and if it is there the connection. \<open>metadata t\<close> and \<open>connect t\<close> say whether the call
  made at time \<open>t\<close> (in milliseconds) succeeds, and how long it takes; the sleep between two attempts lasts
  its 500 ms.\<close>

definition probe_socket :: "(nat \<Rightarrow> bool \<times> nat) \<Rightarrow> (nat \<Rightarrow> bool \<times> nat) \<Rightarrow> nat \<Rightarrow> bool \<times> nat" where
  "probe_socket metadata connect t =
     (let (there, looked) = metadata t
      in if there then (let (ready, waited) = connect (t + looked) in (ready, looked + waited))
         else (False, looked))"

text \<open>\<open>wait_for_socket\<close>: \<open>probe t\<close> says whether the connection attempt begun at time \<open>t\<close> succeeds, and how long it takes. The result
  is the time of the return.\<close>

function wait_for_socket :: "(nat \<Rightarrow> bool \<times> nat) \<Rightarrow> nat \<Rightarrow> nat \<Rightarrow> nat + nat" where
  "wait_for_socket probe deadline t =
     (let (ready, cost) = probe t; t' = t + cost
      in if ready then Inr t'
         else if t' \<ge> deadline then Inl t'
         else wait_for_socket probe deadline (t' + 500))"
  by pat_completeness auto
termination by (relation "measure (\<lambda>(probe, deadline, t). deadline - t)") auto

declare wait_for_socket.simps [simp del]

text \<open>\<open>main\<close> up to the listener: it binds only after a connection to the worker succeeded. The time of the return is part of
  the result, of an error as well.\<close>

definition server_start :: "(nat \<Rightarrow> bool \<times> nat) \<Rightarrow> (nat \<Rightarrow> bool \<times> nat) \<Rightarrow> nat \<Rightarrow> string \<times> nat + nat" where
  "server_start metadata connect timeout_secs =
     (case wait_for_socket (probe_socket metadata connect) (1000 * timeout_secs) 0 of
        Inl t \<Rightarrow> Inl (''Python worker did not expose its socket'', t)
      | Inr t \<Rightarrow> Inr t)"

section \<open>Lemmas\<close>

text \<open>What the worker says to the query \<open>info\<close>; \<open>None\<close> when its handler died of something that is no \<open>Exception\<close>.\<close>

definition info_reply :: "'w worker_libs \<Rightarrow> 'w \<Rightarrow> json option" where
  "info_reply wlibs wd = (case info wlibs wd of
     Inr v \<Rightarrow> Some v
   | Inl e \<Rightarrow> if exc_isa (exc_cls e) Exception
       then (case frame_error [] ''internal'' (exception_message e) of Inr v \<Rightarrow> Some v | Inl _ \<Rightarrow> None) else None)"

definition speaks_info :: "'w worker_libs \<Rightarrow> edge_libs \<Rightarrow> (json \<Rightarrow> byte list) \<Rightarrow> 'w \<Rightarrow> bool" where
  "speaks_info wlibs libs to_string wd \<longleftrightarrow>
     (let h = JObj [(''kind'', JStr ''info'')]
      in json_loads wlibs (to_string h) = Inr h \<and> length (to_string h) \<le> MAX_FRAME_BYTES) \<and>
     (\<forall>v. info_reply wlibs wd = Some v \<longrightarrow>
        (\<exists>d. json_dumps wlibs v = Inr d \<and> length d \<le> MAX_FRAME_BYTES \<and> from_slice libs d = Some v))"

lemma query_info:
  assumes wr: "healthy wr" and sp: "speaks_info wlibs libs to_string wd"
  shows "query app wlibs libs to_string ''info'' (Some (fresh_uds wr wd)) = (case info_reply wlibs wd of
    Some v \<Rightarrow> Inr v | None \<Rightarrow> Inl (WorkerUnavailable ''UDS exchange for control failed''))"
proof -
  let ?h = "JObj [(''kind'', JStr ''info'')]"
  let ?u = "fresh_uds wr wd"
  from sp have h: "json_loads wlibs (to_string ?h) = Inr ?h" "is_obj ?h" "length (to_string ?h) \<le> MAX_FRAME_BYTES"
    by (simp_all add: speaks_info_def Let_def)
  have u: "coupled ?u (Some wd)" "link ?u = wr" using fresh_coupled [OF wr] by (simp_all add: fresh_uds_def)
  have sizes: "length (to_string ?h) \<le> MAX_FRAME_BYTES" "length ([] :: byte list) \<le> MAX_FRAME_BYTES" using h(3) by simp_all
  have fid: "req_frame_id ?h = []" by (simp add: req_frame_id_def)
  have "route app wlibs ?h (req_frame_id ?h) [] wr wd =
      (let (r, wr') = write_bytes (bindr (info wlibs wd) (json_dumps wlibs)) wr in (r, wr', wd))"
    by (rule route_info) simp
  note hr = handle_request_body [OF h(1,2) wr this, unfolded fid]
  have answered: ?thesis
    if v: "info_reply wlibs wd = Some v" and oc: "oc \<noteq> Some Closed"
      and hq: "\<And>d. json_dumps wlibs v = Inr d \<Longrightarrow> length d \<le> MAX_FRAME_BYTES \<Longrightarrow>
        handle_request app wlibs (to_string ?h) [] wr wd = (oc, wrote wr d, wd)" for v oc
  proof -
    from sp v obtain d where d: "json_dumps wlibs v = Inr d" "length d \<le> MAX_FRAME_BYTES" "from_slice libs d = Some v"
      by (auto simp: speaks_info_def)
    from exchange_answered [OF u(1) sizes, unfolded u(2), OF hq [OF d(1,2)] d(2) oc] d(3) v
    show ?thesis by (simp add: query_def control_def)
  qed
  show ?thesis
  proof (cases "info wlibs wd")
    case (Inr v)
    then show ?thesis using hr(1) by (intro answered [of v None]) (simp_all add: info_reply_def)
  next
    case (Inl e)
    show ?thesis
    proof (cases "exc_isa (exc_cls e) Exception")
      case True
      obtain v where v: "frame_error [] ''internal'' (exception_message e) = Inr v"
        using frame_error_returns [of "''internal''", unfolded returns_iff, OF ERROR_CODES_simps(3)] by blast
      with Inl True hr(2) [of e v] show ?thesis
        by (intro answered [of v "if fatal e then Some (HardExit 75) else None"]) (simp_all add: info_reply_def)
    next
      case False
      from exchange_died [OF u(1) sizes, unfolded u(2), OF hr(3) [OF Inl False]] Inl False
      show ?thesis by (auto simp: query_def control_def info_reply_def)
    qed
  qed
qed
lemma wait_for_socket_cases:
  obtains (ready) c where "probe t = (True, c)" "wait_for_socket probe deadline t = Inr (t + c)"
  | (late) c where "probe t = (False, c)" "deadline \<le> t + c" "wait_for_socket probe deadline t = Inl (t + c)"
  | (again) c where "probe t = (False, c)" "t + c < deadline"
      "wait_for_socket probe deadline t = wait_for_socket probe deadline (t + c + 500)"
proof -
  obtain r c where p: "probe t = (r, c)" by fastforce
  show thesis
  proof (cases r)
    case True
    with p show thesis by (intro ready [of c]) (simp_all add: wait_for_socket.simps [of probe deadline t])
  next
    case False
    with p late [of c] again [of c] show thesis by (cases "deadline \<le> t + c") (simp_all add: wait_for_socket.simps [of probe deadline t])
  qed
qed

lemma wait_for_socket_result:
  "case wait_for_socket probe deadline t of
     Inr t' \<Rightarrow> \<exists>a c. probe a = (True, c) \<and> t' = a + c
   | Inl t' \<Rightarrow> deadline \<le> t' \<and> (\<exists>a c. probe a = (False, c) \<and> t' = a + c)"
proof (induction probe deadline t rule: wait_for_socket.induct)
  case (1 probe deadline t)
  show ?case
  proof (cases rule: wait_for_socket_cases [of probe t deadline])
    case (again c)
    have "case wait_for_socket probe deadline (t + c + 500) of
        Inr t' \<Rightarrow> \<exists>a d. probe a = (True, d) \<and> t' = a + d
      | Inl t' \<Rightarrow> deadline \<le> t' \<and> (\<exists>a d. probe a = (False, d) \<and> t' = a + d)"
      using 1 [of "(False, c)" False c "t + c"] again by simp
    with again show ?thesis by (auto split: sum.splits)
  qed (auto simp: exI)
qed

text \<open>It ends one attempt and one pause after its deadline at the latest.\<close>

lemma wait_for_socket_bounded:
  assumes cost: "\<forall>a. snd (probe a) \<le> c" and t: "t \<le> deadline + 500"
  shows "case wait_for_socket probe deadline t of Inr t' \<Rightarrow> t' \<le> deadline + c + 500 | Inl t' \<Rightarrow> t' \<le> deadline + c + 500"
  using t
proof (induction "deadline - t" arbitrary: t rule: less_induct)
  case less
  have cost: "d \<le> c" if "probe t = (b, d)" for b d using cost that by (metis snd_conv)
  show ?case
  proof (cases rule: wait_for_socket_cases [of probe t deadline])
    case (again d)
    with less.hyps [of "t + d + 500"] less.prems show ?thesis by simp
  next
    case (ready d)
    with cost [OF ready(1)] less.prems show ?thesis by simp
  next
    case (late d)
    with cost [OF late(1)] less.prems show ?thesis by simp
  qed
qed

lemma probe_socket_up:
  assumes "\<forall>a \<ge> r. fst (metadata a) \<and> fst (connect a)" and "r \<le> t"
  shows "fst (probe_socket metadata connect t)"
proof -
  obtain looked where "metadata t = (True, looked)" using assms by (metis prod.collapse)
  moreover obtain waited where "connect (t + looked) = (True, waited)" using assms by (metis prod.collapse trans_le_add1)
  ultimately show ?thesis by (simp add: probe_socket_def)
qed

lemma wait_for_socket_finds:
  assumes up: "\<forall>a \<ge> r. fst (probe a)" and cost: "\<forall>a. snd (probe a) \<le> c" and time: "r + c \<le> deadline"
    and t: "t \<le> r + c + 500"
  shows "\<exists>t'. wait_for_socket probe deadline t = Inr t' \<and> t' \<le> r + 2 * c + 500"
  using t
proof (induction "deadline - t" arbitrary: t rule: less_induct)
  case less
  have cost: "d \<le> c" if "probe t = (b, d)" for b d using cost that by (metis snd_conv)
  have early: "t < r" if "probe t = (False, d)" for d using up that by (metis fst_conv not_le)
  show ?case
  proof (cases rule: wait_for_socket_cases [of probe t deadline])
    case (ready d)
    with cost [OF ready(1)] less.prems show ?thesis by simp
  next
    case (late d)
    with cost [OF late(1)] early [OF late(1)] time show ?thesis by simp
  next
    case (again d)
    with cost [OF again(1)] early [OF again(1)] less.hyps [of "t + d + 500"] show ?thesis by simp
  qed
qed

section \<open>Properties\<close>

text \<open>C23.
  \<open>/v1/health\<close> and \<open>/v1/info\<close> over the byte-level connection to the worker. Health is 200 exactly if the worker's \<open>info\<close>
  returned within five seconds, and 503 in every other case, a refused connection included. But when a query of
  \<open>info\<close> raises, \<open>/v1/info\<close> still answers 200, and its body is the worker's error reply instead of the metrics; the
  statement is about the handlers, and the layer around the routes turns an answer later than ten seconds into a 504.
\<close>

theorem health_tells_what_info_hides:
  assumes "healthy wr" and "speaks_info wlibs libs to_string wd"
    and "answer = query app wlibs libs to_string ''info'' (Some (fresh_uds wr wd))"
  shows "fst (http_health took answer) = (if took \<le> DEEP_HEALTH_TIMEOUT \<and> returns (info wlibs wd) then 200 else 503) \<and>
    fst (http_health took (query app wlibs libs to_string ''info'' None)) = 503 \<and>
    (\<forall>e. info wlibs wd = Inl e \<and> exc_isa (exc_cls e) Exception \<longrightarrow>
       (\<exists>body. http_forward answer = (200, body) \<and> jget body ''ok'' = Some (JBool False) \<and>
          jget body ''code'' = Some (JStr ''internal'')))"
proof (intro conjI allI impI)
  have a: "answer = (case info_reply wlibs wd of
      Some v \<Rightarrow> Inr v | None \<Rightarrow> Inl (WorkerUnavailable ''UDS exchange for control failed''))"
    unfolding assms(3) by (rule query_info [OF assms(1,2)])
  have error: "\<exists>v. frame_error [] ''internal'' m = Inr v \<and> json_true v ''ok'' = False \<and> jget v ''ok'' = Some (JBool False) \<and>
      jget v ''code'' = Some (JStr ''internal'')" for m
    by (simp add: frame_error_def json_true_def)
  show "fst (http_health took answer) = (if took \<le> DEEP_HEALTH_TIMEOUT \<and> returns (info wlibs wd) then 200 else 503)"
  proof (cases "info wlibs wd")
    case (Inl e)
    obtain v where "frame_error [] ''internal'' (exception_message e) = Inr v" "json_true v ''ok'' = False"
      using error by blast
    with Inl show ?thesis by (simp add: a info_reply_def http_health_def Let_def)
  next
    case (Inr v)
    then have "json_true v ''ok''" "json_true v ''model_loaded''" by (auto simp: info_def bindr_eq_Inr json_true_def)
    with Inr show ?thesis by (simp add: a info_reply_def http_health_def)
  qed
  show "fst (http_health took (query app wlibs libs to_string ''info'' None)) = 503"
    by (simp add: query_def http_health_def Let_def)
  show "\<exists>body. http_forward answer = (200, body) \<and> jget body ''ok'' = Some (JBool False) \<and>
      jget body ''code'' = Some (JStr ''internal'')"
    if "info wlibs wd = Inl e \<and> exc_isa (exc_cls e) Exception" for e
    using that error [of "exception_message e"] by (auto simp: a info_reply_def http_forward_def)
qed

lemma health_tells_what_info_hides_witness:
  "\<exists>wlibs libs answer. answer = query demo_app wlibs libs (\<lambda>_. [8]) ''info'' (Some (fresh_uds demo_writer 0)) \<and>
     fst (http_health 10 answer) = 503 \<and> fst (http_forward answer) = 200"
proof -
  let ?e = "Exc RuntimeError ''CUDA error''"
  obtain v where v: "frame_error [] ''internal'' ''CUDA error'' = Inr v" by (simp add: frame_error_def)
  define wlibs where "wlibs = (demo_libs False)\<lparr>json_loads := \<lambda>_. Inr (JObj [(''kind'', JStr ''info'')]),
    json_dumps := \<lambda>_. Inr [9], mem_get_info := \<lambda>_. Inl ?e\<rparr>"
  define libs where "libs = demo_edge\<lparr>from_slice := \<lambda>_. Some v\<rparr>"
  have c: "exc_isa RuntimeError Exception" "\<not> exc_isa RuntimeError OutOfMemoryError" "\<not> exc_isa RuntimeError TimeoutError"
    by code_simp+
  have i: "info wlibs 0 = Inl ?e" by (simp add: info_def wlibs_def)
  have "info_reply wlibs 0 = Some v" using c v by (simp add: info_reply_def i exception_message_def)
  then have s: "speaks_info wlibs libs (\<lambda>_. [8]) 0"
    by (simp add: speaks_info_def) (simp add: wlibs_def libs_def MAX_FRAME_BYTES_def)
  have "healthy demo_writer" by (simp add: healthy_def demo_writer_def)
  from health_tells_what_info_hides [OF this s refl, of 10 demo_app] i c(1)
  show ?thesis by (intro exI [of _ wlibs] exI [of _ libs] exI conjI refl) (auto simp: returns_iff)
qed

text \<open>C24.
  The server's start always returns from its wait for the worker. It goes on only at the moment a connection attempt has
  succeeded; it fails only at the end of an attempt that failed, and only once its time-out is over. If no attempt
  takes longer than \<open>c\<close> it is back at most \<open>c\<close> and half a second after the time-out. And it does not give up too early: if
  the socket is there and accepts connections from time \<open>r\<close> on, and \<open>r + c\<close> is within the time-out, the server
  starts, at the latest two attempts and half a second after \<open>r\<close>.
\<close>

theorem server_start_finds_worker:
  "(case server_start metadata connect s of
      Inr t \<Rightarrow> (\<exists>a d. probe_socket metadata connect a = (True, d) \<and> t = a + d)
    | Inl (m, t) \<Rightarrow> 1000 * s \<le> t \<and> (\<exists>a d. probe_socket metadata connect a = (False, d) \<and> t = a + d)) \<and>
   ((\<forall>a. snd (probe_socket metadata connect a) \<le> c) \<longrightarrow>
      (case server_start metadata connect s of Inr t \<Rightarrow> t \<le> 1000 * s + c + 500 | Inl (m, t) \<Rightarrow> t \<le> 1000 * s + c + 500) \<and>
      ((\<forall>a \<ge> r. fst (metadata a) \<and> fst (connect a)) \<and> r + c \<le> 1000 * s \<longrightarrow>
         (\<exists>t. server_start metadata connect s = Inr t \<and> t \<le> r + 2 * c + 500)))"
proof (intro conjI impI)
  let ?p = "probe_socket metadata connect"
  show "case server_start metadata connect s of
      Inr t \<Rightarrow> (\<exists>a d. ?p a = (True, d) \<and> t = a + d)
    | Inl (m, t) \<Rightarrow> 1000 * s \<le> t \<and> (\<exists>a d. ?p a = (False, d) \<and> t = a + d)"
    using wait_for_socket_result [where probe = ?p and deadline = "1000 * s" and t = 0] by (auto simp: server_start_def split: sum.splits)
  assume cost: "\<forall>a. snd (?p a) \<le> c"
  show "case server_start metadata connect s of Inr t \<Rightarrow> t \<le> 1000 * s + c + 500 | Inl (m, t) \<Rightarrow> t \<le> 1000 * s + c + 500"
    using wait_for_socket_bounded [OF cost, where t = 0 and deadline = "1000 * s"] by (auto simp: server_start_def split: sum.splits)
  assume "(\<forall>a \<ge> r. fst (metadata a) \<and> fst (connect a)) \<and> r + c \<le> 1000 * s"
  then show "\<exists>t. server_start metadata connect s = Inr t \<and> t \<le> r + 2 * c + 500"
    using wait_for_socket_finds [where r = r and probe = ?p and c = c and deadline = "1000 * s" and t = 0] cost probe_socket_up [of r metadata connect]
    by (auto simp: server_start_def)
qed

lemma server_start_finds_worker_witness:
  "(\<exists>t. server_start (\<lambda>a. (2000 \<le> a, 1)) (\<lambda>a. (3000 \<le> a, 1)) 240 = Inr t \<and> t \<le> 3504) \<and>
   (\<exists>m t. server_start (\<lambda>a. (False, 1)) (\<lambda>a. (True, 1)) 240 = Inl (m, t) \<and> 240000 \<le> t \<and> t \<le> 240501)"
proof
  let ?md = "\<lambda>a. (2000 \<le> (a::nat), 1::nat)" and ?cn = "\<lambda>a. (3000 \<le> (a::nat), 1::nat)"
  have "\<forall>a. snd (probe_socket ?md ?cn a) \<le> 2" by (simp add: probe_socket_def)
  moreover have "(\<forall>a \<ge> 3000. fst (?md a) \<and> fst (?cn a)) \<and> (3000::nat) + 2 \<le> 1000 * 240" by simp
  ultimately show "\<exists>t. server_start ?md ?cn 240 = Inr t \<and> t \<le> 3504"
    using server_start_finds_worker [where metadata = ?md and connect = ?cn and s = 240 and c = 2 and r = 3000] by simp
next
  let ?md = "\<lambda>a::nat. (False, 1::nat)" and ?cn = "\<lambda>a::nat. (True, 1::nat)"
  have "\<forall>a. probe_socket ?md ?cn a = (False, 1)" by (simp add: probe_socket_def)
  then show "\<exists>m t. server_start ?md ?cn 240 = Inl (m, t) \<and> 240000 \<le> t \<and> t \<le> 240501"
    using server_start_finds_worker [where metadata = ?md and connect = ?cn and s = 240 and c = 1 and r = 0]
    by (auto split: sum.splits)
qed

end
