(* ===== verification/Spec2Isabelle.thy ===== *)
theory Spec2Isabelle
  imports Prompt_Validator Tiling Gpu_Lock Smoke_Clients Client_Pipe End_To_End Main_Boot Ws_Timers Server_Status
begin

text \<open>
  Verification of the LocateAnything-3B inference service: a Python worker that holds the model, a Rust server in front of it,
  and the Python clients. Everything the Python files under \<^verbatim>\<open>worker\<close>, \<^verbatim>\<open>examples\<close> and \<^verbatim>\<open>scripts/lib\<close> do between their
  libraries is modelled, and of the Rust server what a frame passes through.

  \<^bold>\<open>The program.\<close> A client opens a WebSocket and sends binary frames: a header (frame id, typed request, mode) and a JPEG. The
  edge (\<^verbatim>\<open>rust_server/src/ws.rs\<close>) checks the frame, compiles the typed request to the exact prompt the model was trained on
  (\<^verbatim>\<open>prompt_validator.rs\<close>) and forwards header and JPEG over a Unix socket. The worker (\<^verbatim>\<open>worker/la_worker.py\<close>) checks the
  header again, takes the GPU lock, and runs the engine (\<^verbatim>\<open>worker/inference.py\<close>), which decodes the image, gates its size,
  renders the prompt, generates an answer text and parses it (\<^verbatim>\<open>worker/parsing.py\<close>) into boxes and points. The reply goes back as
  one of four variants, each checked against a typed schema at the edge (\<^verbatim>\<open>protocol.rs\<close>, \<^verbatim>\<open>ipc.rs\<close>). Before all this the worker
  verifies its environment, model files and attention kernels, and calibrates itself.

  \<^bold>\<open>The theories.\<close>
  \<^item> LA\_Prelude: exceptions as values (\<open>'a res = py_exc + 'a\<close>, with the class hierarchy as an order), \<open>bindr\<close>, \<open>mapr\<close>,
    \<open>catchr\<close>; step relations with the contract of an invariant (locale \<open>step_invariant\<close>). Py\_Str, Py\_Json, Py\_Float and
    Py\_Re: Python's strings, JSON values, binary64 floats with rounding to nearest even, and a backtracking regular
    expression matcher. Py\_Args: argparse, for options with one value and flags. Rs\_Float: Rust's \<open>f32\<close> and its decimal text.
  \<^item> Prompts (\<^verbatim>\<open>worker/prompts.py\<close>) and Prompt\_Validator (\<^verbatim>\<open>prompt_validator.rs\<close>, the request of \<^verbatim>\<open>protocol.rs\<close>): the seven trained
    templates on both sides; what the validator accepts, the Python builder builds.
  \<^item> Parsing and Parsing\_Grammar (\<^verbatim>\<open>worker/parsing.py\<close>): the answer parsers and the grammar of trained answers; every block of an answer
    is returned or counted, and printing and parsing are inverse. The locale \<open>coord_pattern\<close> is what the two coordinate
    patterns share.
  \<^item> Pixel\_Token\_Math (\<^verbatim>\<open>worker/pixel_token_math.py\<close>), Tiling (\<^verbatim>\<open>worker/tiling.py\<close>), Calibration (\<^verbatim>\<open>worker/calibration.py\<close>): their functions,
    floats included.
  \<^item> Inference (\<^verbatim>\<open>worker/inference.py\<close>, \<open>GenConfig\<close> and \<open>run\<close>): one function per stage of \<open>run\<close>; the outside world is the state \<open>'w\<close>.
    Engine\_Boot: the constructor, with its attention patches on classes, modules and dispatch tables.
  \<^item> Framing and Worker (\<^verbatim>\<open>worker/la_worker.py\<close>): the length-prefixed frames, \<open>_infer\<close>, \<open>handle_connection\<close>, the control replies. Egress: the typed
    reply of the Rust side, read and printed again. Gpu\_Lock: the asyncio lock, timeouts and the hard exit as a step relation, which refines a fair
    one-place server. Main\_Boot: the process from its command line to its socket, \<open>main\<close> and \<open>main_async\<close>, and the
    conditions, each spelled out, without which it does not get there.
  \<^item> Sha256 (the standard's function, with its streaming interface) and Startup (\<^verbatim>\<open>worker/validate_startup.py\<close>): the preflight checks.
  \<^item> Jpeg\_Header (\<^verbatim>\<open>jpeg.rs\<close>), Ws\_Edge (\<^verbatim>\<open>ws.rs\<close>, \<^verbatim>\<open>ipc.rs\<close>) and Ws\_Timers: the checks of a frame, the loop of a connection over its events,
    and its timers as a step relation in time, with tokio's \<open>Notify\<close> as a counter of its broadcasts and the count each waiting future
    remembers. The locale \<open>echoing_worker\<close> is what the edge asks of the process behind it.
  \<^item> Ipc\_Link (\<^verbatim>\<open>ipc.rs\<close> against \<open>serve\<close>): the bytes of the Unix socket implement the worker the edge talks to; the locale
    \<open>worker_refinement\<close> is what makes two workers indistinguishable to a client. Server\_Status (\<^verbatim>\<open>main.rs\<close>, \<^verbatim>\<open>error.rs\<close>): the HTTP
    status endpoints over that link and the wait for the worker at start.
  \<^item> Client\_Request, Reference\_Client, Client\_Pipe (\<^verbatim>\<open>examples/reference_client.py\<close>) and Smoke\_Clients (\<^verbatim>\<open>scripts/lib\<close>): the frames the clients
    build, the capture thread, sender and receiver, sequentially and as interleaved threads over their bounded queue, the
    reconnect loop, and the verdicts of the two smoke tests. Command\_Line: their \<open>main\<close> functions, from the words of the
    command line; what a client accepts there, and that all its settings can be written.
  \<^item> End\_To\_End: one frame from the command line of a client, through the bytes of both hops, to the line its receiver logs; and
    what each exit status of the smoke test says about the server.

  \<^bold>\<open>How the state corresponds.\<close> Objects are records with the fields of the class; an update is a record update. A function that may
  raise returns \<open>Inl\<close> of the exception, whose class is kept (handlers go by class) and whose message is a tag where the text
  carries no behaviour. A coroutine that shares nothing is a function; what shares state across suspension points is a step
  relation (the lock, the timers, the queue). Loops are structural or have a measure; the one loop whose end depends on bytes of a
  client, \<open>exif_scan\<close>, is a partial function that is shown to return. There is no fuel. The reading of a command line consumes
  its words, which is its measure.

  \<^bold>\<open>Parameters and hypotheses.\<close> PIL, the processor, the model and its tokenizer are the fields of \<open>backend\<close>; JSON text, the JPEG header
  decoder, Unicode normalization, the file system, CUDA, OpenCV and the clock are arguments; the processor and
  the transfer of tensors to the GPU are taken to change nothing but their result. Nothing is assumed of them, except
  where a statement says so: that an answer has fewer than \<open>2 ^ 30\<close> characters (\<open>short_answers\<close>; the generation is capped at 8192
  tokens), that a lost connection stays lost (\<open>loss_is_final\<close>) or a link works (\<open>healthy\<close>), that JSON text parses back to its value
  (\<open>speaks\<close>, \<open>json_carried\<close>), and that \<open>serde_json\<close> prints an \<open>f32\<close> with the fewest digits that read back (\<open>shortest_hundredths\<close>). Characters are
  Isabelle's, code points up to 255, on which the predicates of Python and Rust are written out.

  \<^bold>\<open>Not modelled.\<close> Log and print lines; the texts of error messages and of argparse's help; of the Rust server, routing, tracing, signals and its command line (calls of axum,
  tokio and clap), where only the shutdown broadcast is a step of Ws\_Timers; the drain of the worker's shutdown as a waiter of the GPU
  lock (its outcome is an argument of \<open>serve_socket\<close>); links that point nowhere in the model directory; shell scripts and container files, which are not
  programs of the service.
\<close>

end
